(* ===== verification/Prelude.thy ===== *)
theory Prelude
  imports Main "HOL-Library.Word"
begin

text \<open>
  What every component of the model shares: the machine integer types of the 32-bit ARM target, the
  errno values the drivers return, the kernel's 64-by-32 division helpers, the outcome of copying
  between kernel and user memory, and the generic facts on words that the component proofs use
  (masking is reduction modulo a power of two, conversions between the widths do not lose bits).
\<close>

unbundle bit_operations_syntax

section \<open>Integer types of the target\<close>

type_synonym u8 = "8 word"
type_synonym u16 = "16 word"
type_synonym u32 = "32 word"
type_synonym u64 = "64 word"

text \<open>The collections the component theories extend.\<close>

named_theorems errno_defs \<open>definitions of the errno constants\<close>
named_theorems reg_defs \<open>definitions of register offsets and hardware constants\<close>
named_theorems word_nat_simps \<open>reading masked and converted words as natural numbers\<close>

section \<open>Error numbers\<close>

text \<open>
  The values of \<^verbatim>\<open>errno.h\<close> on Linux/ARM. A driver entry point returns a non-negative result or the
  negated number, so return values are integers.
\<close>

definition EPERM :: int where [errno_defs]: "EPERM = 1"
definition EINTR :: int where [errno_defs]: "EINTR = 4"
definition EIO :: int where [errno_defs]: "EIO = 5"
definition EAGAIN :: int where [errno_defs]: "EAGAIN = 11"
definition ENOMEM :: int where [errno_defs]: "ENOMEM = 12"
definition EACCES :: int where [errno_defs]: "EACCES = 13"
definition EFAULT :: int where [errno_defs]: "EFAULT = 14"
definition EBUSY :: int where [errno_defs]: "EBUSY = 16"
definition ENODEV :: int where [errno_defs]: "ENODEV = 19"
definition EINVAL :: int where [errno_defs]: "EINVAL = 22"
definition ENOTTY :: int where [errno_defs]: "ENOTTY = 25"
definition ESPIPE :: int where [errno_defs]: "ESPIPE = 29"
definition ERANGE :: int where [errno_defs]: "ERANGE = 34"
definition ENOSYS :: int where [errno_defs]: "ENOSYS = 38"
definition ECHRNG :: int where [errno_defs]: "ECHRNG = 44"
definition EBADE :: int where [errno_defs]: "EBADE = 52"
definition ENODATA :: int where [errno_defs]: "ENODATA = 61"
definition EPROTO :: int where [errno_defs]: "EPROTO = 71"
definition ERESTARTSYS :: int where [errno_defs]: "ERESTARTSYS = 512"

section \<open>Division helpers of the kernel\<close>

text \<open>
  \<^verbatim>\<open>div_u64\<close> and \<^verbatim>\<open>div_u64_rem\<close> divide a 64-bit by a 32-bit number. On ARM a zero divisor is
  reported on the console and both results are 0; that is written out, because HOL's remainder by
  zero would be the dividend.
\<close>

definition div_u64 :: "u64 \<Rightarrow> u32 \<Rightarrow> u64" where
  "div_u64 x d = (if d = 0 then 0 else x div ucast d)"

definition div_u64_rem :: "u64 \<Rightarrow> u32 \<Rightarrow> u64 \<times> u32" where
  "div_u64_rem x d = (if d = 0 then (0, 0) else (x div ucast d, ucast (x mod ucast d)))"

section \<open>Facts on words\<close>

lemma unat_and_mask [word_nat_simps]:
  "unat (x AND mask n :: 'a::len word) = unat x mod 2 ^ n"
  by (metis take_bit_eq_mask take_bit_eq_mod unsigned_take_bit_eq)

lemma unat_ucast_u32_u64 [simp]: "unat (ucast (x :: u32) :: u64) = unat x"
  using unsigned_less [of x, where 'a = nat] by (simp add: unsigned_ucast_eq take_bit_nat_eq_self_iff)

lemma unat_lt_2p32 [simp]: "unat (x :: u32) < 4294967296"
  using unsigned_less [of x, where 'a = nat] by simp

lemma unat_lt_2p64 [simp]: "unat (x :: u64) < 18446744073709551616"
  using unsigned_less [of x, where 'a = nat] by simp

lemma unat_add_u32: "unat (x + y :: u32) = (unat x + unat y) mod 4294967296"
  by (simp add: unat_word_ariths)

lemma unat_add_u64: "unat (x + y :: u64) = (unat x + unat y) mod 18446744073709551616"
  by (simp add: unat_word_ariths)

lemma unat_mult_u64: "unat (x * y :: u64) = (unat x * unat y) mod 18446744073709551616"
  by (simp add: unat_word_ariths)

lemma unat_add_u64_small:
  "unat x + unat y < 18446744073709551616 \<Longrightarrow> unat (x + y :: u64) = unat x + unat y"
  by (simp add: unat_add_u64)

lemma unat_mult_u64_small:
  "unat x * unat y < 18446744073709551616 \<Longrightarrow> unat (x * y :: u64) = unat x * unat y"
  by (simp add: unat_mult_u64)

lemma unat_exp_u32: "k < 32 \<Longrightarrow> unat ((2 :: u32) ^ k) = 2 ^ k"
proof -
  assume k: "k < 32"
  have "unat (of_nat (2 ^ k) :: u32) = take_bit 32 (2 ^ k)"
    by (simp only: unsigned_of_nat len_bit0 len_num1) simp
  also have "\<dots> = 2 ^ k"
    using k by (simp add: take_bit_nat_eq_self_iff power_strict_increasing del: power_numeral)
  finally show ?thesis by simp
qed

lemma unat_sub_le: "y \<le> x \<Longrightarrow> unat (x - y :: 'a::len word) = unat x - unat y"
  by (rule unat_sub) 

lemma unat_div_u64: "unat (div_u64 x d) = unat x div unat d"
  by (simp add: div_u64_def unat_div)

lemma unat_div_u64_rem_quot: "unat (fst (div_u64_rem x d)) = unat x div unat d"
  by (simp add: div_u64_rem_def unat_div)

lemma unat_div_u64_rem_rem:
  assumes "d \<noteq> 0"
  shows "unat (snd (div_u64_rem x d)) = unat x mod unat d"
proof -
  have "0 < unat d" using assms by (simp add: unat_gt_0)
  then have "unat x mod unat d < unat d" by simp
  also have "\<dots> < 2 ^ 32" using unsigned_less [of d, where 'a = nat] by simp
  finally have "unat x mod unat d < 2 ^ 32" .
  then show ?thesis
    using assms by (simp add: div_u64_rem_def unsigned_ucast_eq unat_mod take_bit_nat_eq_self)
qed

lemma word_eq_if_unat_eq: "unat x = unat (y :: 'a::len word) \<Longrightarrow> x = y"
  by (simp add: word_unat_eq_iff)

section \<open>Lists\<close>

lemma upt_Suc_map: "map f [0..<Suc n] = f 0 # map (\<lambda>i. f (Suc i)) [0..<n]"
  by (simp add: upt_conv_Cons map_Suc_upt [symmetric] del: upt_Suc)

end
