(* ===== verification/Bounded_Queue.thy ===== *)
theory Bounded_Queue
  imports Prelude
begin

text \<open>
  The contract every FIFO of the driver meets: a first-in first-out queue of bounded capacity, whose
  insertion reports \<^verbatim>\<open>-1\<close> and changes nothing when it is full and whose removal reports nothing
  when it is empty. The clients' facts (a whole sequence of operations behaves as on a bounded list;
  draining returns the oldest elements in order) are proved once from the contract.
\<close>

section \<open>The abstract queue\<close>

datatype 'a qop = Enq 'a | Deq | Flush

datatype 'a qout = Res int | Item "'a option" | Done

text \<open>The specification: a list of at most \<open>cap\<close> elements, the oldest first.\<close>

fun spec_step :: "nat \<Rightarrow> 'a qop \<Rightarrow> 'a list \<Rightarrow> 'a qout \<times> 'a list" where
  "spec_step cap (Enq x) xs = (if length xs < cap then (Res 0, xs @ [x]) else (Res (-1), xs))"
| "spec_step cap Deq xs = (case xs of [] \<Rightarrow> (Item None, []) | y # ys \<Rightarrow> (Item (Some y), ys))"
| "spec_step cap Flush xs = (Done, [])"

fun spec_run :: "nat \<Rightarrow> 'a qop list \<Rightarrow> 'a list \<Rightarrow> 'a qout list \<times> 'a list" where
  "spec_run cap [] xs = ([], xs)"
| "spec_run cap (p # ps) xs =
     (let (r, ys) = spec_step cap p xs; (rs, zs) = spec_run cap ps ys in (r # rs, zs))"

text \<open>The same sequence on an implementation given by its three operations.\<close>

fun impl_step ::
  "('a \<Rightarrow> 'q \<Rightarrow> int \<times> 'q) \<Rightarrow> ('q \<Rightarrow> 'a option \<times> 'q) \<Rightarrow> ('q \<Rightarrow> 'q) \<Rightarrow> 'a qop \<Rightarrow> 'q \<Rightarrow> 'a qout \<times> 'q"
where
  "impl_step enq deq flush (Enq x) q = (let (r, q') = enq x q in (Res r, q'))"
| "impl_step enq deq flush Deq q = (let (r, q') = deq q in (Item r, q'))"
| "impl_step enq deq flush Flush q = (Done, flush q)"

fun impl_run ::
  "('a \<Rightarrow> 'q \<Rightarrow> int \<times> 'q) \<Rightarrow> ('q \<Rightarrow> 'a option \<times> 'q) \<Rightarrow> ('q \<Rightarrow> 'q) \<Rightarrow> 'a qop list \<Rightarrow> 'q
     \<Rightarrow> 'a qout list \<times> 'q"
where
  "impl_run enq deq flush [] q = ([], q)"
| "impl_run enq deq flush (p # ps) q =
     (let (r, q') = impl_step enq deq flush p q; (rs, q'') = impl_run enq deq flush ps q'
      in (r # rs, q''))"

text \<open>Taking elements until \<open>n\<close> are read or the queue is empty.\<close>

fun drain :: "('q \<Rightarrow> 'a option \<times> 'q) \<Rightarrow> nat \<Rightarrow> 'q \<Rightarrow> 'a list \<times> 'q" where
  "drain deq 0 q = ([], q)"
| "drain deq (Suc n) q =
     (case deq q of
        (None, q') \<Rightarrow> ([], q')
      | (Some x, q') \<Rightarrow> (let (xs, q'') = drain deq n q' in (x # xs, q'')))"

text \<open>
  The loop that moves \<open>n\<close> elements of \<open>sz\<close> bytes to user memory, which takes \<open>room\<close> of them before a
  copy fails. \<open>ret\<close> counts the bytes and \<open>out\<close> holds what has reached the user.
\<close>

fun copy_out ::
  "('q \<Rightarrow> 'a option \<times> 'q) \<Rightarrow> int \<Rightarrow> nat \<Rightarrow> nat \<Rightarrow> int \<Rightarrow> 'a list \<Rightarrow> 'q \<Rightarrow> int \<times> 'a list \<times> 'q"
where
  "copy_out deq sz 0 room ret out q = (ret, out, q)"
| "copy_out deq sz (Suc n) room ret out q =
     (case deq q of
        (None, q) \<Rightarrow> (- EFAULT, out, q)
      | (Some d, q) \<Rightarrow>
          (case room of
             0 \<Rightarrow> (- EFAULT, out, q)
           | Suc room \<Rightarrow> copy_out deq sz n room (ret + sz) (out @ [d]) q))"

text \<open>What is held after offering some elements one by one: those that fit are appended.\<close>

definition accept :: "nat \<Rightarrow> 'a list \<Rightarrow> 'a list \<Rightarrow> 'a list" where
  "accept cap xs ys = take cap (xs @ ys)"

lemma accept_nil: "length xs \<le> cap \<Longrightarrow> accept cap xs [] = xs"
  by (simp add: accept_def)

lemma accept_accept [simp]: "accept cap (accept cap xs ys) zs = accept cap xs (ys @ zs)"
proof -
  have "take cap (take cap us @ zs) = take cap (us @ zs)" for us
    by (cases "length us \<le> cap") simp_all
  then show ?thesis by (simp only: accept_def append_assoc [symmetric])
qed

lemma accept_fits: "length xs + length ys \<le> cap \<Longrightarrow> accept cap xs ys = xs @ ys"
  by (simp add: accept_def)

section \<open>The contract\<close>

locale bounded_queue =
  fixes enq :: "'a \<Rightarrow> 'q \<Rightarrow> int \<times> 'q"
    and deq :: "'q \<Rightarrow> 'a option \<times> 'q"
    and flush :: "'q \<Rightarrow> 'q"
    and len :: "'q \<Rightarrow> u32"
    and is_empty :: "'q \<Rightarrow> bool"
    and wf :: "'q \<Rightarrow> bool"
    and contents :: "'q \<Rightarrow> 'a list"
    and cap :: nat
  assumes wf_flush: "wf (flush q)"
    and contents_flush: "contents (flush q) = []"
    and wf_enq: "wf q \<Longrightarrow> wf (snd (enq x q))"
    and wf_deq: "wf q \<Longrightarrow> wf (snd (deq q))"
    and bounded: "wf q \<Longrightarrow> length (contents q) \<le> cap"
    and enq_room: "wf q \<Longrightarrow> length (contents q) < cap \<Longrightarrow>
      fst (enq x q) = 0 \<and> contents (snd (enq x q)) = contents q @ [x]"
    and enq_full: "wf q \<Longrightarrow> length (contents q) = cap \<Longrightarrow> enq x q = (-1, q)"
    and deq_none: "wf q \<Longrightarrow> contents q = [] \<Longrightarrow> deq q = (None, q)"
    and deq_some: "wf q \<Longrightarrow> contents q = y # ys \<Longrightarrow>
      fst (deq q) = Some y \<and> contents (snd (deq q)) = ys"
    and len_contents: "wf q \<Longrightarrow> unat (len q) = length (contents q)"
    and empty_contents: "wf q \<Longrightarrow> is_empty q \<longleftrightarrow> contents q = []"
begin

lemma step_refines:
  assumes "wf q"
  shows "fst (impl_step enq deq flush p q) = fst (spec_step cap p (contents q))"
    and "contents (snd (impl_step enq deq flush p q)) = snd (spec_step cap p (contents q))"
    and "wf (snd (impl_step enq deq flush p q))"
proof -
  have "fst (impl_step enq deq flush p q) = fst (spec_step cap p (contents q)) \<and>
    contents (snd (impl_step enq deq flush p q)) = snd (spec_step cap p (contents q)) \<and>
    wf (snd (impl_step enq deq flush p q))"
  proof (cases p)
    case (Enq x)
    show ?thesis
    proof (cases "length (contents q) < cap")
      case True
      with assms Enq enq_room [of q x] wf_enq [of q x] show ?thesis
        by (simp add: case_prod_unfold)
    next
      case False
      with bounded [OF assms] have "length (contents q) = cap" by simp
      with assms Enq enq_full [of q x] False show ?thesis by simp
    qed
  next
    case Deq
    then show ?thesis
      using assms deq_none [of q] deq_some [of q] wf_deq [of q]
      by (cases "contents q") (simp_all add: case_prod_unfold)
  next
    case Flush
    then show ?thesis by (simp add: wf_flush contents_flush)
  qed
  then show "fst (impl_step enq deq flush p q) = fst (spec_step cap p (contents q))"
    and "contents (snd (impl_step enq deq flush p q)) = snd (spec_step cap p (contents q))"
    and "wf (snd (impl_step enq deq flush p q))"
    by blast+
qed

lemma run_refines:
  "wf q \<Longrightarrow>
     fst (impl_run enq deq flush ps q) = fst (spec_run cap ps (contents q)) \<and>
     contents (snd (impl_run enq deq flush ps q)) = snd (spec_run cap ps (contents q)) \<and>
     wf (snd (impl_run enq deq flush ps q))"
proof (induction ps arbitrary: q)
  case Nil
  then show ?case by simp
next
  case (Cons p ps)
  note s = step_refines [OF Cons.prems, of p]
  from Cons.IH [OF s(3)] show ?case
    by (simp add: case_prod_unfold Let_def s(1,2))
qed

lemma drain_contents:
  "wf q \<Longrightarrow> fst (drain deq n q) = take n (contents q) \<and>
     contents (snd (drain deq n q)) = drop n (contents q) \<and> wf (snd (drain deq n q))"
proof (induction n arbitrary: q)
  case 0
  then show ?case by simp
next
  case (Suc n)
  show ?case
  proof (cases "contents q")
    case Nil
    with Suc.prems show ?thesis by (simp add: deq_none)
  next
    case (Cons y ys)
    with Suc.prems have "fst (deq q) = Some y" "contents (snd (deq q)) = ys" "wf (snd (deq q))"
      by (auto simp: deq_some wf_deq)
    with Suc.IH [of "snd (deq q)"] Cons show ?thesis
      by (cases "deq q") (simp add: case_prod_unfold)
  qed
qed

lemma copy_out_takes:
  assumes "wf q" "n \<le> length (contents q)"
  shows "\<exists>q'. copy_out deq sz n room ret out q =
      (if n \<le> room then ret + int n * sz else - EFAULT, out @ take (min n room) (contents q), q') \<and>
    wf q' \<and> contents q' = drop (if n \<le> room then n else Suc room) (contents q)"
  using assms
proof (induction n arbitrary: room ret out q)
  case 0
  then show ?case by simp
next
  case (Suc n)
  then obtain d ds where c: "contents q = d # ds" by (metis Suc_le_length_iff)
  obtain q1 where q1: "deq q = (Some d, q1)" "contents q1 = ds" "wf q1"
    using deq_some [OF Suc.prems(1) c] wf_deq [OF Suc.prems(1)] by (metis prod.collapse)
  show ?case
  proof (cases room)
    case 0
    then show ?thesis using c q1 by auto
  next
    case (Suc r)
    have "\<exists>q'. copy_out deq sz n r (ret + sz) (out @ [d]) q1 =
        (if n \<le> r then ret + sz + int n * sz else - EFAULT, (out @ [d]) @ take (min n r) (contents q1), q') \<and>
      wf q' \<and> contents q' = drop (if n \<le> r then n else Suc r) (contents q1)"
      using Suc.prems(2) c q1(2,3) by (intro Suc.IH) simp_all
    then show ?thesis using Suc c q1 by (auto simp: algebra_simps)
  qed
qed

lemma enq_accept: "wf q \<Longrightarrow> contents (snd (enq x q)) = accept cap (contents q) [x]"
  using bounded [of q] enq_room [of q x] enq_full [of q x]
  by (cases "length (contents q) < cap") (simp_all add: accept_def)

lemma accept_empty: "wf q \<Longrightarrow> accept cap (contents q) [] = contents q"
  by (rule accept_nil) (rule bounded)

lemma enq_fails_iff_full:
  "wf q \<Longrightarrow> fst (enq x q) < 0 \<longleftrightarrow> length (contents q) = cap"
  using bounded [of q] enq_room [of q x] enq_full [of q x] by fastforce

end

end
