(* ===== verification/Fifo.thy ===== *)
theory Fifo
  imports Bounded_Queue
begin

text \<open>
  The ring buffers of \<^verbatim>\<open>drivers/libera/libera_event.h\<close> and \<^verbatim>\<open>libera_sa.h\<close>: the time stamp FIFOs
  (\<^verbatim>\<open>libera_fifo\<close>), the event FIFO (\<^verbatim>\<open>libera_event_fifo\<close>), the slow acquisition FIFO
  (\<^verbatim>\<open>libera_sa_fifo\<close>), the circular buffer of paired trigger stamps and the index arithmetic of
  the DMA FIFO. The three data FIFOs are the same code over three element types and two sizes; the
  contract they share is the locale \<open>bounded_queue\<close>, whose client lemmas are proved once and
  interpreted on each of them.
\<close>

section \<open>Data\<close>

text \<open>
  A ring of \<^verbatim>\<open>struct libera_fifo\<close> and its siblings: the storage array and the two indices. The array
  is a function of the index; that the code never leaves the array is part of the invariant
  \<open>ring_wf\<close> below.
\<close>

record 'a ring =
  slots :: "nat \<Rightarrow> 'a"
  put :: u32
  get :: u32

record libera_event =
  ev_id :: u32
  ev_param :: u32

record Ltimestamp =
  lst :: u64
  lmt :: u64

record circbuf =
  cb_stamp :: "nat \<Rightarrow> Ltimestamp"
  cb_put :: u32

definition TRIG_LOG :: u32 where [reg_defs]: "TRIG_LOG = 4096"
definition TRIG_LOG_MASK :: u32 where [reg_defs]: "TRIG_LOG_MASK = TRIG_LOG - 1"
definition SA_LOG :: u32 where [reg_defs]: "SA_LOG = 64"
definition SA_LOG_MASK :: u32 where [reg_defs]: "SA_LOG_MASK = SA_LOG - 1"

section \<open>Time stamp FIFO\<close>

definition flushFIFO :: "u64 ring \<Rightarrow> u64 ring" where
  "flushFIFO q = q\<lparr>put := 0, get := 0\<rparr>"

definition lenFIFO :: "u64 ring \<Rightarrow> u32" where
  "lenFIFO q = (put q + TRIG_LOG - get q) AND TRIG_LOG_MASK"

definition not_emptyFIFO :: "u64 ring \<Rightarrow> bool" where
  "not_emptyFIFO q = (put q \<noteq> get q)"

definition emptyFIFO :: "u64 ring \<Rightarrow> bool" where
  "emptyFIFO q = (put q = get q)"

definition putToFIFO :: "u64 \<Rightarrow> u64 ring \<Rightarrow> int \<times> u64 ring" where
  "putToFIFO data q =
     (let index = (put q + 1) AND TRIG_LOG_MASK in
      if index = get q then (-1, q)
      else (0, q\<lparr>slots := (slots q)(unat index := data), put := index\<rparr>))"

definition getFromFIFO :: "u64 ring \<Rightarrow> u64 option \<times> u64 ring" where
  "getFromFIFO q =
     (if put q = get q then (None, q)
      else let g = (get q + 1) AND TRIG_LOG_MASK in (Some (slots q (unat g)), q\<lparr>get := g\<rparr>))"

section \<open>Event FIFO\<close>

definition flush_eventFIFO :: "libera_event ring \<Rightarrow> libera_event ring" where
  "flush_eventFIFO q = q\<lparr>put := 0, get := 0\<rparr>"

definition len_eventFIFO :: "libera_event ring \<Rightarrow> u32" where
  "len_eventFIFO q = (put q + TRIG_LOG - get q) AND TRIG_LOG_MASK"

definition not_empty_eventFIFO :: "libera_event ring \<Rightarrow> bool" where
  "not_empty_eventFIFO q = (put q \<noteq> get q)"

definition empty_eventFIFO :: "libera_event ring \<Rightarrow> bool" where
  "empty_eventFIFO q = (put q = get q)"

definition putTo_eventFIFO :: "libera_event \<Rightarrow> libera_event ring \<Rightarrow> int \<times> libera_event ring" where
  "putTo_eventFIFO data q =
     (let index = (put q + 1) AND TRIG_LOG_MASK in
      if index = get q then (-1, q)
      else (0, q\<lparr>slots := (slots q)(unat index := data), put := index\<rparr>))"

definition getFrom_eventFIFO :: "libera_event ring \<Rightarrow> libera_event option \<times> libera_event ring" where
  "getFrom_eventFIFO q =
     (if put q = get q then (None, q)
      else let g = (get q + 1) AND TRIG_LOG_MASK in (Some (slots q (unat g)), q\<lparr>get := g\<rparr>))"

section \<open>Slow acquisition FIFO\<close>

text \<open>The EBPP atom \<^verbatim>\<open>libera_atom_sa_t\<close>: sixteen 32-bit words, kept as a list of them.\<close>

type_synonym sa_atom = "u32 list"

definition flush_saFIFO :: "sa_atom ring \<Rightarrow> sa_atom ring" where
  "flush_saFIFO q = q\<lparr>put := 0, get := 0\<rparr>"

definition len_saFIFO :: "sa_atom ring \<Rightarrow> u32" where
  "len_saFIFO q = (put q + SA_LOG - get q) AND SA_LOG_MASK"

definition not_empty_saFIFO :: "sa_atom ring \<Rightarrow> bool" where
  "not_empty_saFIFO q = (put q \<noteq> get q)"

definition empty_saFIFO :: "sa_atom ring \<Rightarrow> bool" where
  "empty_saFIFO q = (put q = get q)"

definition free_saFIFO :: "sa_atom ring \<Rightarrow> u32" where
  "free_saFIFO q = (let len = len_saFIFO q in SA_LOG - len)"

definition putTo_saFIFO :: "sa_atom \<Rightarrow> sa_atom ring \<Rightarrow> int \<times> sa_atom ring" where
  "putTo_saFIFO data q =
     (let index = (put q + 1) AND SA_LOG_MASK in
      if index = get q then (-1, q)
      else (0, q\<lparr>slots := (slots q)(unat index := data), put := index\<rparr>))"

definition getFrom_saFIFO :: "sa_atom ring \<Rightarrow> sa_atom option \<times> sa_atom ring" where
  "getFrom_saFIFO q =
     (if put q = get q then (None, q)
      else let g = (get q + 1) AND SA_LOG_MASK in (Some (slots q (unat g)), q\<lparr>get := g\<rparr>))"

section \<open>Circular buffer of paired trigger stamps\<close>

definition zero_stamp :: Ltimestamp where
  "zero_stamp = \<lparr>lst = 0, lmt = 0\<rparr>"

definition flushCircBuf :: circbuf where
  "flushCircBuf = \<lparr>cb_stamp = (\<lambda>_. zero_stamp), cb_put = 0\<rparr>"

definition putLSTtoCircBuf :: "u64 \<Rightarrow> circbuf \<Rightarrow> circbuf" where
  "putLSTtoCircBuf t q =
     q\<lparr>cb_stamp := (cb_stamp q)(unat (cb_put q) := (cb_stamp q (unat (cb_put q)))\<lparr>lst := t\<rparr>)\<rparr>"

definition putLMTtoCircBuf :: "u64 \<Rightarrow> circbuf \<Rightarrow> circbuf" where
  "putLMTtoCircBuf t q =
     q\<lparr>cb_stamp := (cb_stamp q)(unat (cb_put q) := (cb_stamp q (unat (cb_put q)))\<lparr>lmt := t\<rparr>),
       cb_put := (cb_put q + 1) AND TRIG_LOG_MASK\<rparr>"

definition putToCircBuf :: "Ltimestamp \<Rightarrow> circbuf \<Rightarrow> circbuf" where
  "putToCircBuf data q =
     q\<lparr>cb_stamp := (cb_stamp q)(unat (cb_put q) := data),
       cb_put := (cb_put q + 1) AND TRIG_LOG_MASK\<rparr>"

definition getFromCircBuf :: "circbuf \<Rightarrow> Ltimestamp" where
  "getFromCircBuf q = (let index = (cb_put q - 1) AND TRIG_LOG_MASK in cb_stamp q (unat index))"

section \<open>The rings as queues\<close>

text \<open>
  One ring of \<open>2 ^ k\<close> slots stands for the three copies in the sources: the lemmas about it are
  proved once, and each FIFO's operations are instances of it.
\<close>

definition ring_flush :: "'a ring \<Rightarrow> 'a ring" where
  "ring_flush q = q\<lparr>put := 0, get := 0\<rparr>"

definition ring_len :: "nat \<Rightarrow> 'a ring \<Rightarrow> u32" where
  "ring_len k q = (put q + 2 ^ k - get q) AND mask k"

definition ring_enq :: "nat \<Rightarrow> 'a \<Rightarrow> 'a ring \<Rightarrow> int \<times> 'a ring" where
  "ring_enq k x q =
     (let index = (put q + 1) AND mask k in
      if index = get q then (-1, q)
      else (0, q\<lparr>slots := (slots q)(unat index := x), put := index\<rparr>))"

definition ring_deq :: "nat \<Rightarrow> 'a ring \<Rightarrow> 'a option \<times> 'a ring" where
  "ring_deq k q =
     (if put q = get q then (None, q)
      else let g = (get q + 1) AND mask k in (Some (slots q (unat g)), q\<lparr>get := g\<rparr>))"

text \<open>Both indices stay inside the array.\<close>

definition ring_wf :: "nat \<Rightarrow> 'a ring \<Rightarrow> bool" where
  "ring_wf k q \<longleftrightarrow> unat (put q) < 2 ^ k \<and> unat (get q) < 2 ^ k"

text \<open>The queued elements, oldest first: the slots after \<open>get\<close> up to and including \<open>put\<close>.\<close>

definition ring_contents :: "nat \<Rightarrow> 'a ring \<Rightarrow> 'a list" where
  "ring_contents k q =
     map (\<lambda>i. slots q ((unat (get q) + Suc i) mod 2 ^ k))
       [0..<(unat (put q) + 2 ^ k - unat (get q)) mod 2 ^ k]"

lemma unat_inc_mask:
  assumes "k < 32"
  shows "unat ((x + 1 :: u32) AND mask k) = Suc (unat x) mod 2 ^ k"
proof -
  have "(2::nat) ^ k dvd 2 ^ 32"
    using assms by (simp add: le_imp_power_dvd del: power_numeral)
  then show ?thesis
    by (simp add: unat_and_mask unat_add_u32 mod_mod_cancel)
qed

lemma ring_len_nat:
  assumes "ring_wf k q" "k < 32"
  shows "unat (ring_len k q) = (unat (put q) + 2 ^ k - unat (get q)) mod 2 ^ k"
proof -
  have k: "(2::nat) ^ k \<le> 2 ^ 31"
    using assms(2) by (simp add: power_increasing del: power_numeral)
  have g: "unat (get q) < 2 ^ k" and p: "unat (put q) < 2 ^ k"
    using assms(1) by (simp_all add: ring_wf_def)
  have e: "unat ((2 :: u32) ^ k) = 2 ^ k"
    using assms(2) by (simp add: unat_exp_u32)
  have s: "unat (put q + 2 ^ k) = unat (put q) + 2 ^ k"
    using p k e by (simp add: unat_add_u32)
  have "get q \<le> put q + 2 ^ k"
    using g s by (simp add: word_le_nat_alt)
  then have "unat (put q + 2 ^ k - get q) = unat (put q) + 2 ^ k - unat (get q)"
    by (simp add: unat_sub_le s)
  then show ?thesis by (simp add: ring_len_def unat_and_mask)
qed


lemma next_index_cases:
  assumes "p < (N::nat)"
  shows "Suc p mod N = (if Suc p = N then 0 else Suc p)"
  using assms by (simp add: mod_Suc)

lemma ring_dist:
  assumes "p < (N::nat)" "g < N"
  shows "(p + N - g) mod N = (if g \<le> p then p - g else p + N - g)"
proof (cases "g \<le> p")
  case True
  then have "(p + N - g) mod N = (p - g + N) mod N" by simp
  also have "\<dots> = p - g" using assms by simp
  finally show ?thesis using True by simp
next
  case False
  then show ?thesis using assms by simp
qed

lemma ring_contents_length:
  "length (ring_contents k q) = (unat (put q) + 2 ^ k - unat (get q)) mod 2 ^ k"
  by (simp add: ring_contents_def)

lemma ring_wf_enq: "k < 32 \<Longrightarrow> ring_wf k q \<Longrightarrow> ring_wf k (snd (ring_enq k x q))"
  by (simp add: ring_enq_def ring_wf_def Let_def unat_inc_mask)

lemma ring_wf_deq: "k < 32 \<Longrightarrow> ring_wf k q \<Longrightarrow> ring_wf k (snd (ring_deq k q))"
  by (simp add: ring_deq_def ring_wf_def Let_def unat_inc_mask)

lemma ring_empty_iff:
  assumes "ring_wf k q"
  shows "put q = get q \<longleftrightarrow> ring_contents k q = []"
proof -
  have "put q = get q \<longleftrightarrow> unat (put q) = unat (get q)"
    by (simp add: word_unat_eq_iff)
  also have "\<dots> \<longleftrightarrow> (unat (put q) + 2 ^ k - unat (get q)) mod 2 ^ k = 0"
    using assms by (auto simp: ring_wf_def ring_dist)
  finally show ?thesis
    by (metis length_0_conv ring_contents_length)
qed

text \<open>The slot written next is the reader's slot exactly when all but one slot are in use.\<close>

lemma ring_full_iff:
  assumes "ring_wf k q" "k < 32"
  shows "(put q + 1) AND mask k = get q \<longleftrightarrow> length (ring_contents k q) = 2 ^ k - 1"
proof -
  have "(put q + 1) AND mask k = get q \<longleftrightarrow> Suc (unat (put q)) mod 2 ^ k = unat (get q)"
    using assms(2) by (simp add: word_unat_eq_iff unat_inc_mask)
  also have "\<dots> \<longleftrightarrow> (unat (put q) + 2 ^ k - unat (get q)) mod 2 ^ k = 2 ^ k - 1"
    using assms(1) unfolding ring_wf_def
    by (auto simp: ring_dist next_index_cases)
  finally show ?thesis by (simp add: ring_contents_length)
qed

text \<open>The modular arithmetic of the indices.\<close>

lemma ring_last_index:
  assumes "p < (N::nat)" "g < N"
  shows "(g + (p + N - g) mod N) mod N = p"
  using assms by (simp add: ring_dist)

lemma mod_neq_close:
  assumes "a < b" "b < a + (N::nat)"
  shows "a mod N \<noteq> b mod N"
proof
  assume "a mod N = b mod N"
  then have "N dvd b - a"
    using assms(1) by (metis mod_eq_dvd_iff_nat nat_less_le)
  then have "N \<le> b - a"
    using assms(1) by (simp add: dvd_imp_le)
  then show False using assms by linarith
qed

lemma ring_contents_enq:
  assumes wf: "ring_wf k q" and k: "k < 32"
    and room: "length (ring_contents k q) < 2 ^ k - 1"
  shows "fst (ring_enq k x q) = 0"
    and "ring_contents k (snd (ring_enq k x q)) = ring_contents k q @ [x]"
proof -
  let ?N = "2 ^ k :: nat" let ?p = "unat (put q)" let ?g = "unat (get q)"
  let ?L = "(?p + ?N - ?g) mod ?N"
  let ?i = "(put q + 1) AND mask k"
  from wf have p: "?p < ?N" and g: "?g < ?N" by (simp_all add: ring_wf_def)
  from room ring_full_iff [OF wf k] have ne: "?i \<noteq> get q" by simp
  have ui: "unat ?i = Suc ?p mod ?N" using k by (rule unat_inc_mask)
  show "fst (ring_enq k x q) = 0" using ne by (simp add: ring_enq_def Let_def)
  have L: "?L < ?N - 1" using room by (simp add: ring_contents_length)
  have len': "(Suc ?p mod ?N + ?N - ?g) mod ?N = Suc ?L"
  proof -
    have "unat ?i \<noteq> ?g" using ne by (simp add: word_unat_eq_iff)
    then show ?thesis
      using p g L unfolding ui by (auto simp: ring_dist next_index_cases split: if_splits)
  qed
  have last: "(?g + Suc ?L) mod ?N = Suc ?p mod ?N"
    using ring_last_index [OF p g] by (metis add_Suc_right mod_Suc_eq)
  have other: "(?g + Suc i) mod ?N \<noteq> Suc ?p mod ?N" if "i < ?L" for i
    using that L unfolding last [symmetric] by (intro mod_neq_close) simp_all
  show "ring_contents k (snd (ring_enq k x q)) = ring_contents k q @ [x]"
    using ne other last by (simp add: ring_enq_def ring_contents_def Let_def ui len')
qed

lemma ring_contents_deq:
  assumes wf: "ring_wf k q" and k: "k < 32" and c: "ring_contents k q = y # ys"
  shows "fst (ring_deq k q) = Some y" and "ring_contents k (snd (ring_deq k q)) = ys"
proof -
  let ?N = "2 ^ k :: nat" let ?p = "unat (put q)" let ?g = "unat (get q)"
  let ?L = "(?p + ?N - ?g) mod ?N"
  let ?i = "(get q + 1) AND mask k"
  from wf have p: "?p < ?N" and g: "?g < ?N" by (simp_all add: ring_wf_def)
  from c ring_empty_iff [OF wf] have ne: "put q \<noteq> get q" by simp
  then have ne': "?p \<noteq> ?g" by (simp add: word_unat_eq_iff)
  have ui: "unat ?i = Suc ?g mod ?N" using k by (rule unat_inc_mask)
  obtain n where n: "?L = Suc n"
    using c ring_contents_length [of k q] by (metis length_Cons)
  have len': "(?p + ?N - Suc ?g mod ?N) mod ?N = n"
    using n p g ne' by (auto simp: ring_dist next_index_cases split: if_splits)
  have idx: "Suc (Suc ?g mod ?N + i) mod ?N = Suc (Suc (?g + i)) mod ?N" for i
    using mod_add_left_eq [of "Suc ?g" ?N "Suc i"] by simp
  have "y # ys = map (\<lambda>i. slots q ((?g + Suc i) mod ?N)) [0..<Suc n]"
    using c n by (simp only: ring_contents_def)
  then have y: "y = slots q (Suc ?g mod ?N)"
    and ys: "ys = map (\<lambda>i. slots q ((?g + Suc (Suc i)) mod ?N)) [0..<n]"
    by (simp_all only: upt_Suc_map list.inject add_Suc_right add_0_right)
  show "fst (ring_deq k q) = Some y"
    using ne by (simp add: ring_deq_def Let_def ui y)
  show "ring_contents k (snd (ring_deq k q)) = ys"
    using ne by (simp add: ring_deq_def ring_contents_def Let_def ui len' idx ys)
qed

lemma ring_bounded: "length (ring_contents k q) \<le> 2 ^ k - 1"
proof -
  have "(unat (put q) + 2 ^ k - unat (get q)) mod 2 ^ k < 2 ^ k" by simp
  then show ?thesis unfolding ring_contents_length by linarith
qed

lemma ring_bounded_queue:
  assumes k: "k < 32"
  shows "bounded_queue (ring_enq k) (ring_deq k) ring_flush (ring_len k) (\<lambda>q. put q = get q)
    (ring_wf k) (ring_contents k) (2 ^ k - 1)"
proof
  fix q :: "'a ring" and x y :: 'a and ys
  show "ring_wf k (ring_flush q)" by (simp add: ring_wf_def ring_flush_def)
  show "ring_contents k (ring_flush q) = []" by (simp add: ring_contents_def ring_flush_def)
  show "length (ring_contents k q) \<le> 2 ^ k - 1" by (rule ring_bounded)
  assume wf: "ring_wf k q"
  show "ring_wf k (snd (ring_enq k x q))" using k wf by (rule ring_wf_enq)
  show "ring_wf k (snd (ring_deq k q))" using k wf by (rule ring_wf_deq)
  show "unat (ring_len k q) = length (ring_contents k q)"
    using wf k by (simp add: ring_len_nat ring_contents_length)
  show "put q = get q \<longleftrightarrow> ring_contents k q = []" using wf by (rule ring_empty_iff)
  show "ring_enq k x q = (-1, q)" if "length (ring_contents k q) = 2 ^ k - 1"
    using that ring_full_iff [OF wf k] by (simp add: ring_enq_def)
  show "ring_deq k q = (None, q)" if "ring_contents k q = []"
    using that ring_empty_iff [OF wf] by (simp add: ring_deq_def)
  show "fst (ring_enq k x q) = 0 \<and> ring_contents k (snd (ring_enq k x q)) = ring_contents k q @ [x]"
    if "length (ring_contents k q) < 2 ^ k - 1"
    using ring_contents_enq [OF wf k that] by simp
  show "fst (ring_deq k q) = Some y \<and> ring_contents k (snd (ring_deq k q)) = ys"
    if "ring_contents k q = y # ys"
    using ring_contents_deq [OF wf k that] by simp
qed

subsection \<open>The FIFOs of the sources are instances\<close>

lemma trig_log_mask: "TRIG_LOG_MASK = mask 12" and trig_log: "TRIG_LOG = 2 ^ 12"
  and sa_log_mask: "SA_LOG_MASK = mask 6" and sa_log: "SA_LOG = 2 ^ 6"
  by (simp_all add: reg_defs mask_eq_exp_minus_1)

lemma ts_fifo_ring:
  "putToFIFO = ring_enq 12" "getFromFIFO = ring_deq 12" "flushFIFO = ring_flush"
  "lenFIFO = ring_len 12" "emptyFIFO = (\<lambda>q. put q = get q)"
  by (auto simp: fun_eq_iff putToFIFO_def getFromFIFO_def flushFIFO_def lenFIFO_def emptyFIFO_def
      ring_enq_def ring_deq_def ring_flush_def ring_len_def trig_log_mask trig_log)

lemma event_fifo_ring:
  "putTo_eventFIFO = ring_enq 12" "getFrom_eventFIFO = ring_deq 12"
  "flush_eventFIFO = ring_flush" "len_eventFIFO = ring_len 12"
  "empty_eventFIFO = (\<lambda>q. put q = get q)"
  by (auto simp: fun_eq_iff putTo_eventFIFO_def getFrom_eventFIFO_def flush_eventFIFO_def
      len_eventFIFO_def empty_eventFIFO_def
      ring_enq_def ring_deq_def ring_flush_def ring_len_def trig_log_mask trig_log)

lemma sa_fifo_ring:
  "putTo_saFIFO = ring_enq 6" "getFrom_saFIFO = ring_deq 6" "flush_saFIFO = ring_flush"
  "len_saFIFO = ring_len 6" "empty_saFIFO = (\<lambda>q. put q = get q)"
  by (auto simp: fun_eq_iff putTo_saFIFO_def getFrom_saFIFO_def flush_saFIFO_def len_saFIFO_def
      empty_saFIFO_def ring_enq_def ring_deq_def ring_flush_def ring_len_def sa_log_mask sa_log)

definition trig_wf :: "'a ring \<Rightarrow> bool" where
  "trig_wf = ring_wf 12"

definition trig_contents :: "'a ring \<Rightarrow> 'a list" where
  "trig_contents = ring_contents 12"

definition sa_wf :: "'a ring \<Rightarrow> bool" where
  "sa_wf = ring_wf 6"

definition sa_contents :: "'a ring \<Rightarrow> 'a list" where
  "sa_contents = ring_contents 6"

interpretation ts: bounded_queue putToFIFO getFromFIFO flushFIFO lenFIFO emptyFIFO
  "trig_wf :: u64 ring \<Rightarrow> bool" trig_contents 4095
  using ring_bounded_queue [of 12, where 'a = u64]
  by (simp add: ts_fifo_ring trig_wf_def trig_contents_def)

interpretation ev: bounded_queue putTo_eventFIFO getFrom_eventFIFO flush_eventFIFO len_eventFIFO
  empty_eventFIFO "trig_wf :: libera_event ring \<Rightarrow> bool" trig_contents 4095
  using ring_bounded_queue [of 12, where 'a = libera_event]
  by (simp add: event_fifo_ring trig_wf_def trig_contents_def)

interpretation sa: bounded_queue putTo_saFIFO getFrom_saFIFO flush_saFIFO len_saFIFO
  empty_saFIFO "sa_wf :: sa_atom ring \<Rightarrow> bool" sa_contents 63
  using ring_bounded_queue [of 6, where 'a = sa_atom]
  by (simp add: sa_fifo_ring sa_wf_def sa_contents_def)

section \<open>The circular buffer of paired stamps\<close>

text \<open>
  The interrupt handlers write the LST half first and the LMT half last, and only the second write
  advances the index, so a reader sees the pair that both halves completed.
\<close>

lemma mask12_id: "unat (x :: u32) < 4096 \<Longrightarrow> x AND mask 12 = x"
  by (simp add: word_unat_eq_iff unat_and_mask)

lemma dec_inc_mask12:
  assumes "unat (x :: u32) < 4096"
  shows "(((x + 1) AND mask 12) - 1) AND mask 12 = x"
proof (cases "x = 4095")
  case True
  then show ?thesis by (simp add: mask_eq_exp_minus_1)
next
  case False
  then have "unat x \<noteq> 4095" by (auto simp: word_unat_eq_iff)
  with assms have "unat (x + 1) < 4096" by (simp add: unat_add_u32)
  then have "(x + 1) AND mask 12 = x + 1" by (rule mask12_id)
  with assms show ?thesis by (simp add: mask12_id)
qed

lemma dec_mask12_neq: "unat (x :: u32) < 4096 \<Longrightarrow> (x - 1) AND mask 12 \<noteq> x"
proof (cases "x = 0")
  case True
  then show ?thesis by (simp add: mask_eq_exp_minus_1)
next
  case False
  assume b: "unat x < 4096"
  have "1 \<le> x" using False by (simp add: word_le_nat_alt unat_gt_0 Suc_le_eq)
  then have "unat (x - 1) = unat x - 1" by (simp add: unat_sub_le)
  moreover have "0 < unat x" using False by (simp add: unat_gt_0)
  ultimately have "unat ((x - 1) AND mask 12) = unat x - 1" "unat x - 1 \<noteq> unat x"
    using b by (simp_all add: unat_and_mask)
  then show ?thesis by metis
qed

lemma cb_last_after_pair:
  assumes "unat (cb_put q) < 4096"
  shows "getFromCircBuf (putLMTtoCircBuf m (putLSTtoCircBuf t q)) = \<lparr>lst = t, lmt = m\<rparr>"
  using assms
  by (simp add: getFromCircBuf_def putLMTtoCircBuf_def putLSTtoCircBuf_def trig_log_mask
      dec_inc_mask12)

lemma cb_put_bound: "unat (cb_put (putLMTtoCircBuf m q)) < 4096"
  by (simp add: putLMTtoCircBuf_def trig_log_mask unat_and_mask)

lemma cb_lst_half_invisible:
  assumes "unat (cb_put q) < 4096"
  shows "getFromCircBuf (putLSTtoCircBuf t q) = getFromCircBuf q"
  using dec_mask12_neq [OF assms]
  by (simp add: getFromCircBuf_def putLSTtoCircBuf_def trig_log_mask Let_def word_unat_eq_iff)

section \<open>The FIFOs meet their specification\<close>

text \<open>
  C14: each of the three FIFOs of the driver is a bounded first-in first-out queue: any sequence of
  insertions, removals and flushes on a ring whose indices are inside the array returns what the
  same sequence returns on a list of at most 4095 (63 for slow acquisition) elements, and leaves
  the indices inside the array and the ring with the contents of the list.
\<close>

theorem fifos_refine_bounded_lists:
  assumes "trig_wf q" "trig_wf e" "sa_wf a"
  shows "fst (impl_run putToFIFO getFromFIFO flushFIFO ps q) = fst (spec_run 4095 ps (trig_contents q)) \<and>
      trig_contents (snd (impl_run putToFIFO getFromFIFO flushFIFO ps q)) =
        snd (spec_run 4095 ps (trig_contents q)) \<and>
      trig_wf (snd (impl_run putToFIFO getFromFIFO flushFIFO ps q)) \<and>
    fst (impl_run putTo_eventFIFO getFrom_eventFIFO flush_eventFIFO es e) =
        fst (spec_run 4095 es (trig_contents e)) \<and>
      trig_contents (snd (impl_run putTo_eventFIFO getFrom_eventFIFO flush_eventFIFO es e)) =
        snd (spec_run 4095 es (trig_contents e)) \<and>
      trig_wf (snd (impl_run putTo_eventFIFO getFrom_eventFIFO flush_eventFIFO es e)) \<and>
    fst (impl_run putTo_saFIFO getFrom_saFIFO flush_saFIFO as a) = fst (spec_run 63 as (sa_contents a)) \<and>
      sa_contents (snd (impl_run putTo_saFIFO getFrom_saFIFO flush_saFIFO as a)) =
        snd (spec_run 63 as (sa_contents a)) \<and>
      sa_wf (snd (impl_run putTo_saFIFO getFrom_saFIFO flush_saFIFO as a))"
  using ts.run_refines [OF assms(1), of ps] ev.run_refines [OF assms(2), of es]
    sa.run_refines [OF assms(3), of as] by blast

theorem fifos_refine_bounded_lists_witness:
  "fst (impl_run putToFIFO getFromFIFO flushFIFO [Enq 5, Enq 6, Deq, Deq, Deq]
     \<lparr>slots = (\<lambda>_. 0), put = 4095, get = 4095\<rparr>) =
   [Res 0, Res 0, Item (Some 5), Item (Some 6), Item None]"
proof -
  let ?q = "\<lparr>slots = (\<lambda>_. 0), put = 4095, get = 4095\<rparr> :: u64 ring"
  let ?e = "\<lparr>slots = (\<lambda>_. \<lparr>ev_id = 0, ev_param = 0\<rparr>), put = 0, get = 0\<rparr> :: libera_event ring"
  let ?a = "\<lparr>slots = (\<lambda>_. []), put = 0, get = 0\<rparr> :: sa_atom ring"
  have "trig_wf ?q" "trig_wf ?e" "sa_wf ?a" "trig_contents ?q = []"
    by (simp_all add: trig_wf_def sa_wf_def ring_wf_def trig_contents_def ring_contents_def)
  then show ?thesis
    using fifos_refine_bounded_lists [of ?q ?e ?a "[Enq 5, Enq 6, Deq, Deq, Deq]"] by simp
qed

end
