(* ===== verification/Hw.thy ===== *)
theory Hw
  imports Prelude
begin

text \<open>
  The FPGA as the driver sees it: the register map of \<^verbatim>\<open>drivers/libera/libera_kernel.h\<close> (offsets from
  \<^verbatim>\<open>iobase\<close>) and the two accessors \<^verbatim>\<open>readl\<close> and \<^verbatim>\<open>writel\<close> with the block transfers built on
  them.

  The FPGA firmware is not part of the repository, so it is a parameter of the model: the field
  \<open>fpga\<close> of the bus gives, for the history of all accesses made so far and an address, the value a
  read returns. Every theorem holds for every such function. Since no two reads of a run have the
  same history, this covers registers that change by themselves, FIFOs that advance on reading and
  registers that read back what was written. \<open>trace\<close> is that history, newest access first.
\<close>

section \<open>Register offsets\<close>

definition SBC_OFFSET :: u32 where [reg_defs]: "SBC_OFFSET = 0x0"
definition CLK_OFFSET :: u32 where [reg_defs]: "CLK_OFFSET = 0x4000"
definition ADC_OFFSET :: u32 where [reg_defs]: "ADC_OFFSET = 0x8000"
definition DSC_OFFSET :: u32 where [reg_defs]: "DSC_OFFSET = 0xc000"
definition DDC_OFFSET :: u32 where [reg_defs]: "DDC_OFFSET = 0x14000"
definition HB_OFFSET :: u32 where [reg_defs]: "HB_OFFSET = 0x18000"
definition FA_OFFSET :: u32 where [reg_defs]: "FA_OFFSET = 0x1c000"
definition SA_OFFSET :: u32 where [reg_defs]: "SA_OFFSET = 0x20000"
definition ILK_OFFSET :: u32 where [reg_defs]: "ILK_OFFSET = 0x24000"
definition FAI_OFFSET :: u32 where [reg_defs]: "FAI_OFFSET = 0x28000"
definition DDC_NCO :: u32 where [reg_defs]: "DDC_NCO = 0x4 + DDC_OFFSET"
definition DDC_MAF_LENGTH :: u32 where [reg_defs]: "DDC_MAF_LENGTH = 0xc + DDC_OFFSET"
definition DDC_MAF_DELAY :: u32 where [reg_defs]: "DDC_MAF_DELAY = 0x10 + DDC_OFFSET"
definition T_SC_STATUSL :: u32 where [reg_defs]: "T_SC_STATUSL = 0x0 + CLK_OFFSET"
definition T_SC_STATUSH :: u32 where [reg_defs]: "T_SC_STATUSH = 0x4 + CLK_OFFSET"
definition T_SC_EVENTGEN :: u32 where [reg_defs]: "T_SC_EVENTGEN = 0x8 + CLK_OFFSET"
definition T_SC_FIFOADV :: u32 where [reg_defs]: "T_SC_FIFOADV = 0x8 + CLK_OFFSET"
definition T_SC_TRIGGER_MASK :: u32 where [reg_defs]: "T_SC_TRIGGER_MASK = 0x18 + CLK_OFFSET"
definition T_MC_STATUSL :: u32 where [reg_defs]: "T_MC_STATUSL = 0xc + CLK_OFFSET"
definition T_MC_STATUSH :: u32 where [reg_defs]: "T_MC_STATUSH = 0x10 + CLK_OFFSET"
definition T_MC_EVENTGENL :: u32 where [reg_defs]: "T_MC_EVENTGENL = 0xc + CLK_OFFSET"
definition T_MC_EVENTGENH :: u32 where [reg_defs]: "T_MC_EVENTGENH = 0x10 + CLK_OFFSET"
definition T_MC_FIFOADV :: u32 where [reg_defs]: "T_MC_FIFOADV = 0x14 + CLK_OFFSET"
definition T_MC_TRIGGER_MASK :: u32 where [reg_defs]: "T_MC_TRIGGER_MASK = 0x1c + CLK_OFFSET"
definition T_TRIG_DELAY :: u32 where [reg_defs]: "T_TRIG_DELAY = 0x38 + CLK_OFFSET"
definition EVENT_SC_DAC :: u32 where [reg_defs]: "EVENT_SC_DAC = 0x20 + CLK_OFFSET"
definition EVENT_MC_DAC :: u32 where [reg_defs]: "EVENT_MC_DAC = 0x24 + CLK_OFFSET"
definition FA_POLYPHASE_FIR :: u32 where [reg_defs]: "FA_POLYPHASE_FIR = 0x14 + FA_OFFSET"
definition FA_NOTCH1 :: u32 where [reg_defs]: "FA_NOTCH1 = 0x18 + FA_OFFSET"
definition FA_NOTCH2 :: u32 where [reg_defs]: "FA_NOTCH2 = 0x1c + FA_OFFSET"
definition FA_FIFO_RESET :: u32 where [reg_defs]: "FA_FIFO_RESET = 0x20 + FA_OFFSET"
definition FA_NSUMS :: u32 where [reg_defs]: "FA_NSUMS = 0x24 + FA_OFFSET"
definition FA_SUMSUMS_LSW :: u32 where [reg_defs]: "FA_SUMSUMS_LSW = 0x28 + FA_OFFSET"
definition FA_SUMSUMS_MSW :: u32 where [reg_defs]: "FA_SUMSUMS_MSW = 0x2C + FA_OFFSET"
definition FA_ENABLE :: u32 where [reg_defs]: "FA_ENABLE = 0x30 + FA_OFFSET"
definition FA_AVE_STOP :: u32 where [reg_defs]: "FA_AVE_STOP = 0x34 + FA_OFFSET"
definition FA_AVE_WIN :: u32 where [reg_defs]: "FA_AVE_WIN = 0x38 + FA_OFFSET"
definition FA_START :: u32 where [reg_defs]: "FA_START = 0x3C + FA_OFFSET"
definition FA_WINDOW :: u32 where [reg_defs]: "FA_WINDOW = 0x40 + FA_OFFSET"
definition SA_CONTROL :: u32 where [reg_defs]: "SA_CONTROL = 0 + SA_OFFSET"
definition SA_STATUS :: u32 where [reg_defs]: "SA_STATUS = 0x4 + SA_OFFSET"
definition SA_FIFO_BASE :: u32 where [reg_defs]: "SA_FIFO_BASE = 0x1000 + SA_OFFSET"
definition ILK_CONTROL :: u32 where [reg_defs]: "ILK_CONTROL = 0x0 + ILK_OFFSET"
definition ILK_XLOW :: u32 where [reg_defs]: "ILK_XLOW = 0x8 + ILK_OFFSET"
definition ILK_XHIGH :: u32 where [reg_defs]: "ILK_XHIGH = 0xc + ILK_OFFSET"
definition ILK_YLOW :: u32 where [reg_defs]: "ILK_YLOW = 0x10 + ILK_OFFSET"
definition ILK_YHIGH :: u32 where [reg_defs]: "ILK_YHIGH = 0x14 + ILK_OFFSET"
definition ILK_STATUS :: u32 where [reg_defs]: "ILK_STATUS = 0x18 + ILK_OFFSET"
definition PM_XLOW :: u32 where [reg_defs]: "PM_XLOW = 0x20 + ILK_OFFSET"
definition PM_XHIGH :: u32 where [reg_defs]: "PM_XHIGH = 0x24 + ILK_OFFSET"
definition PM_YLOW :: u32 where [reg_defs]: "PM_YLOW = 0x28 + ILK_OFFSET"
definition PM_YHIGH :: u32 where [reg_defs]: "PM_YHIGH = 0x2C + ILK_OFFSET"
definition FAI_BLOCK :: u32 where [reg_defs]: "FAI_BLOCK = 0x0 + FAI_OFFSET"
definition FAI_CORR_BASE :: u32 where [reg_defs]: "FAI_CORR_BASE = 0x14000 + FAI_OFFSET"
definition FAI_SW_STATUS :: u32 where [reg_defs]: "FAI_SW_STATUS = 0x14024 + FAI_OFFSET"
definition FAI_COUNTER_RESET :: u32 where [reg_defs]: "FAI_COUNTER_RESET = 0x14028 + FAI_OFFSET"
definition DSC_BLOCK :: u32 where [reg_defs]: "DSC_BLOCK = 0x0 + ADC_OFFSET"
definition DD_CB_FIFO_L :: u32 where [reg_defs]: "DD_CB_FIFO_L = 0x0 + HB_OFFSET"
definition DD_CB_FIFO_H :: u32 where [reg_defs]: "DD_CB_FIFO_H = 0x4 + HB_OFFSET"
definition DD_CB_FIFO_RESET :: u32 where [reg_defs]: "DD_CB_FIFO_RESET = 0x20 + HB_OFFSET"
definition DD_OB_STATUS :: u32 where [reg_defs]: "DD_OB_STATUS = 0x8 + HB_OFFSET"
definition DD_OB_FIFOBASE :: u32 where [reg_defs]: "DD_OB_FIFOBASE = 0x1000 + HB_OFFSET"
definition SBC_IRQ_MASK :: u32 where [reg_defs]: "SBC_IRQ_MASK = 0 + SBC_OFFSET"
definition SBC_IRQ :: u32 where [reg_defs]: "SBC_IRQ = 0 + SBC_OFFSET"
definition SBC_IRQ2 :: u32 where [reg_defs]: "SBC_IRQ2 = 0x28 + CLK_OFFSET"
definition FPGA_INFO_DEC_DDC :: u32 where [reg_defs]: "FPGA_INFO_DEC_DDC = 0x10 + SBC_OFFSET"
definition FPGA_INFO_DEC_CIC_FIR :: u32 where [reg_defs]: "FPGA_INFO_DEC_CIC_FIR = 0x14 + SBC_OFFSET"
definition FPGA_FEATURE_CUSTOMER :: u32 where [reg_defs]: "FPGA_FEATURE_CUSTOMER = 0x18 + SBC_OFFSET"
definition FPGA_FEATURE_ITECH :: u32 where [reg_defs]: "FPGA_FEATURE_ITECH = 0x1C + SBC_OFFSET"
definition DSC_ILK_GAIN_LIMIT :: u32 where [reg_defs]: "DSC_ILK_GAIN_LIMIT = 0x18 + DSC_OFFSET"
definition DSC_ILK_OVERFLOW_LIMIT :: u32 where [reg_defs]: "DSC_ILK_OVERFLOW_LIMIT = 0x1c + DSC_OFFSET"
definition DSC_ILK_OVERFLOW_DUR :: u32 where [reg_defs]: "DSC_ILK_OVERFLOW_DUR = 0x20 + DSC_OFFSET"
definition DSC_SW_SOURCE :: u32 where [reg_defs]: "DSC_SW_SOURCE = 0x38 + DSC_OFFSET"
definition DSC_SW_DELAY :: u32 where [reg_defs]: "DSC_SW_DELAY = 0x3c + DSC_OFFSET"
definition DSC_PM_OVERFLOW_LIMIT :: u32 where [reg_defs]: "DSC_PM_OVERFLOW_LIMIT = 0x40 + DSC_OFFSET"
definition DSC_PM_OVERFLOW_DUR :: u32 where [reg_defs]: "DSC_PM_OVERFLOW_DUR = 0x44 + DSC_OFFSET"
definition ADC_MAX :: u32 where [reg_defs]: "ADC_MAX = 0x4 + ADC_OFFSET"
definition ADC_CHAN_AB :: u32 where [reg_defs]: "ADC_CHAN_AB = 0x2000 + ADC_OFFSET"
definition ADC_CHAN_CD :: u32 where [reg_defs]: "ADC_CHAN_CD = 0x3000 + ADC_OFFSET"

text \<open>The regions reached with computed offsets.\<close>

definition FAI_BLOCKSIZE :: nat where [reg_defs]: "FAI_BLOCKSIZE = 0x14000"
definition DSC_BLOCKSIZE :: nat where [reg_defs]: "DSC_BLOCKSIZE = 0xc000"
definition FAI_PLL_STATUS_MASK :: u32 where [reg_defs]: "FAI_PLL_STATUS_MASK = 3"
definition DSC_SW_EXTERNAL :: u32 where [reg_defs]: "DSC_SW_EXTERNAL = 0x80000000"
definition SA_STOP :: u32 where [reg_defs]: "SA_STOP = 1"

text \<open>Bit fields of the status registers.\<close>

definition SA_INOVR :: "u32 \<Rightarrow> u32" where
  "SA_INOVR status = drop_bit 31 status AND 1"

definition SA_SIZE :: "u32 \<Rightarrow> u32" where
  "SA_SIZE status = drop_bit 0 status AND 1"

definition DD_OB_OVERRUN :: "u32 \<Rightarrow> u32" where
  "DD_OB_OVERRUN status = drop_bit 30 status AND 1"

definition DD_OB_SIZE :: "u32 \<Rightarrow> u32" where
  "DD_OB_SIZE status = drop_bit 0 status AND 0xff"

section \<open>The bus\<close>

datatype io = Rd u32 u32 | Wr u32 u32

record bus =
  fpga :: "io list \<Rightarrow> u32 \<Rightarrow> u32"
  trace :: "io list"

definition readl :: "u32 \<Rightarrow> 'a bus_scheme \<Rightarrow> u32 \<times> 'a bus_scheme" where
  "readl a s = (let v = fpga s (trace s) a in (v, s\<lparr>trace := Rd a v # trace s\<rparr>))"

definition writel :: "u32 \<Rightarrow> u32 \<Rightarrow> 'a bus_scheme \<Rightarrow> 'a bus_scheme" where
  "writel v a s = s\<lparr>trace := Wr a v # trace s\<rparr>"

text \<open>
  \<^verbatim>\<open>libera_readlBlock\<close> and \<^verbatim>\<open>libera_writelBlock\<close>: the address is a pointer to 32-bit words, so
  each step advances it by four bytes.
\<close>

fun libera_readlBlock :: "u32 \<Rightarrow> nat \<Rightarrow> 'a bus_scheme \<Rightarrow> u32 list \<times> 'a bus_scheme" where
  "libera_readlBlock a 0 s = ([], s)"
| "libera_readlBlock a (Suc n) s =
     (let (v, s) = readl a s; (vs, s) = libera_readlBlock (a + 4) n s in (v # vs, s))"

fun libera_writelBlock :: "u32 \<Rightarrow> u32 list \<Rightarrow> 'a bus_scheme \<Rightarrow> 'a bus_scheme" where
  "libera_writelBlock a [] s = s"
| "libera_writelBlock a (v # vs) s = libera_writelBlock (a + 4) vs (writel v a s)"

section \<open>What was written and which addresses were touched\<close>

fun io_addr :: "io \<Rightarrow> u32" where
  "io_addr (Rd a v) = a"
| "io_addr (Wr a v) = a"

text \<open>The writes of a trace in the order they were made.\<close>

fun writes_of :: "io list \<Rightarrow> (u32 \<times> u32) list" where
  "writes_of [] = []"
| "writes_of (Rd a v # tr) = writes_of tr"
| "writes_of (Wr a v # tr) = writes_of tr @ [(a, v)]"

lemma trace_readl [simp]: "trace (snd (readl a s)) = Rd a (fpga s (trace s) a) # trace s"
  by (simp add: readl_def Let_def)

lemma fst_readl [simp]: "fst (readl a s) = fpga s (trace s) a"
  by (simp add: readl_def Let_def)

lemma fpga_readl [simp]: "fpga (snd (readl a s)) = fpga s"
  by (simp add: readl_def Let_def)

lemma more_readl [simp]: "bus.more (snd (readl a s)) = bus.more s"
  by (simp add: readl_def Let_def)

lemma trace_writel [simp]: "trace (writel v a s) = Wr a v # trace s"
  by (simp add: writel_def)

lemma fpga_writel [simp]: "fpga (writel v a s) = fpga s"
  by (simp add: writel_def)

lemma more_writel [simp]: "bus.more (writel v a s) = bus.more s"
  by (simp add: writel_def)

lemma readlBlock_length: "length (fst (libera_readlBlock a n s)) = n"
  by (induction n arbitrary: a s) (simp_all add: Let_def case_prod_unfold)

lemma readlBlock_more: "bus.more (snd (libera_readlBlock a n s)) = bus.more s"
  by (induction n arbitrary: a s) (simp_all add: Let_def case_prod_unfold)

lemma readlBlock_writes: "writes_of (trace (snd (libera_readlBlock a n s))) = writes_of (trace s)"
  by (induction n arbitrary: a s) (simp_all add: Let_def case_prod_unfold)

lemma writelBlock_more: "bus.more (libera_writelBlock a vs s) = bus.more s"
  by (induction a vs s rule: libera_writelBlock.induct) simp_all

lemma writelBlock_writes:
  "writes_of (trace (libera_writelBlock a vs s)) =
     writes_of (trace s) @ map (\<lambda>(i, v). (a + 4 * of_nat i, v)) (zip [0..<length vs] vs)"
proof (induction a vs s rule: libera_writelBlock.induct)
  case (1 a s)
  then show ?case by simp
next
  case (2 a v vs s)
  have "zip [0..<length (v # vs)] (v # vs) = (0, v) # map (\<lambda>(i, x). (Suc i, x)) (zip [0..<length vs] vs)"
    by (simp add: upt_conv_Cons map_Suc_upt [symmetric] zip_map1 del: upt_Suc)
  with 2 show ?case by (simp add: case_prod_unfold algebra_simps)
qed

text \<open>The addresses a block transfer touches are the words of the block.\<close>

lemma readlBlock_addrs:
  "trace (snd (libera_readlBlock a n s)) =
     rev (map (\<lambda>(i, v). Rd (a + 4 * of_nat i) v) (zip [0..<n] (fst (libera_readlBlock a n s))))
       @ trace s"
proof (induction n arbitrary: a s)
  case 0
  then show ?case by simp
next
  case (Suc n)
  have z: "zip [0..<Suc n] (v # vs) = (0, v) # map (\<lambda>(i, x). (Suc i, x)) (zip [0..<n] vs)"
    for v and vs :: "u32 list"
    by (simp add: upt_conv_Cons map_Suc_upt [symmetric] zip_map1 del: upt_Suc)
  show ?case
    by (simp add: Let_def case_prod_unfold z Suc.IH algebra_simps comp_def del: upt_Suc)
qed

end
