(* ===== verification/State.thy ===== *)
theory State
  imports Fifo Hw
begin

text \<open>
  The data of the Libera driver: the device structures of \<^verbatim>\<open>drivers/libera/libera_kernel.h\<close> and
  \<^verbatim>\<open>libera.h\<close>, the module parameters and global state of \<^verbatim>\<open>libera_main.c\<close>, gathered in one
  record that extends the bus of \<open>Hw\<close>; and the operations every component uses: the interrupt mask
  mirror, sending an event to user space, taking and releasing a device lock, and the outcome of
  copying from and to user memory.
\<close>

section \<open>Files and the part common to all devices\<close>

text \<open>
  What the driver reads of \<^verbatim>\<open>struct file\<close>: its identity, the access mode and flags of \<^verbatim>\<open>open\<close>,
  and the position.
\<close>

record filep =
  filp :: nat
  f_read :: bool
  f_write :: bool
  f_nonblock :: bool
  f_pos :: int

text \<open>\<^verbatim>\<open>LIBERA_COMMON_DEV\<close>; \<open>sem\<close> is the state of the mutex (\<open>True\<close> when held).\<close>

record common =
  open_count :: int
  writers :: u32
  readers :: u32
  master_filp :: "nat option"
  sem :: bool

section \<open>Device structures\<close>

record timespec =
  tv_sec :: u32
  tv_nsec :: u32

record timestamp =
  ts_st :: timespec
  ts_mt :: u64

text \<open>The configuration device: the parameter array (512 entries) and the post-mortem freeze flag.\<close>

record cfg_dev =
  cfg_com :: common
  param :: "nat \<Rightarrow> u32"
  pm_freezed :: bool

text \<open>\<^verbatim>\<open>libera_settime_t\<close>, with the two anonymous structures' members prefixed by their names.\<close>

record settime =
  update :: u32
  lst_ref :: u64
  lst_off :: u64
  lst_scphi :: u64
  lmt_ref :: u64
  lmt_off_all :: u64
  lmt_off :: u64
  lmt_off_pll :: u64
  lmt_mcphi :: u64

text \<open>
  The event generator list has one node, \<^verbatim>\<open>dev->evgen\<close>, which \<^verbatim>\<open>list.head\<close> points to from
  initialisation on.
\<close>

record evgen =
  eg_time :: u64
  eg_event :: u32

record event_dev =
  ev_com :: common
  CTIME_sem :: bool
  paired_timestamps :: "nat \<Rightarrow> circbuf"
  sc_timestamps :: "nat \<Rightarrow> u64 ring"
  mc_timestamps :: "nat \<Rightarrow> u64 ring"
  events :: "libera_event ring"
  sc_time :: u64
  mc_time :: u64
  sc_trigVec :: u32
  mc_trigVec :: u32
  set_time :: settime
  HB_start_lmt :: u64
  list_head :: evgen

text \<open>The data-on-demand atom.\<close>

record dd_atom =
  cosVa :: u32
  sinVa :: u32
  cosVb :: u32
  sinVb :: u32
  cosVc :: u32
  sinVc :: u32
  cosVd :: u32
  sinVd :: u32

record dd_dev =
  dd_com :: common
  dd_irqevents :: "u64 ring"
  pm_entry :: bool

text \<open>The FA and DSC devices: an internal copy of a block of 32-bit registers.\<close>

record blk_dev =
  blk_com :: common
  blk_buf :: "u32 list"

record pm_dev =
  pm_com :: common
  pm_buf :: "dd_atom list"
  PMevent :: Ltimestamp
  pm_tstamp :: timestamp

record adc_atom =
  ChD :: u16
  ChC :: u16
  ChB :: u16
  ChA :: u16

record adc_dev =
  adc_com :: common
  adc_buf :: "nat \<Rightarrow> adc_atom"
  adc_op :: "(adc_atom \<Rightarrow> int \<times> adc_atom) option"

text \<open>
  The slow acquisition device. A pipe is allocated on every open and referenced from the file and
  from the table, so pipes live in a store and are named by their address. \<open>sa_buf\<close> with its head
  and tail is the circular buffer between the interrupt handler and its tasklet.
\<close>

record sa_local =
  sl_sem :: bool
  sl_pipe :: "sa_atom ring"

record registered_pipes =
  sa_pipe :: "nat \<Rightarrow> nat option"
  registered :: int
  next_pipe :: nat

record sa_dev =
  sa_com :: common
  pipes :: registered_pipes
  sa_heap :: "nat \<Rightarrow> sa_local option"
  sa_buf :: "nat \<Rightarrow> sa_atom"
  buf_head :: nat
  buf_tail :: nat
  inputovr :: bool

section \<open>Global state\<close>

text \<open>
  \<^verbatim>\<open>libera_dma_t\<close>; the last three fields are the registers of its channel of the DMA controller
  (source, target as an index into \<^verbatim>\<open>buf\<close>, length), which the driver writes.
\<close>

record dma =
  dma_buf :: "nat \<Rightarrow> dd_atom"
  dma_put :: u32
  dma_get :: u32
  csize :: u32
  remaining :: u32
  obFIFOstatus :: u32
  Overrun :: bool
  DMAC_transfer :: bool
  aborting :: bool
  written :: u32
  dmac_src :: u32
  dmac_dst :: nat
  dmac_bytes :: u32

record libera_global =
  event_mask :: u32
  g_irq :: int
  g_dma :: dma
  irqMask :: u32
  feature :: u32
  g_d :: u32
  g_dfa :: u32
  g_dcic :: u32
  num_dfir :: u32

text \<open>The module parameters of \<^verbatim>\<open>libera_main.c\<close>.\<close>

record modparams =
  flmcdHz :: u32
  kadc :: u32
  ilkdur :: u32
  pmdur :: u32
  pmsize :: u32

text \<open>Messages of level critical, and the wait queues that are woken, in the order they occur.\<close>

datatype kmsg =
    SC_FIFO_overflow nat
  | MC_FIFO_overflow nat
  | EVENT_FIFO_overflow
  | DD_FIFO_overflow
  | DMA_FIFO_overflow
  | DMA_FIFO_empty
  | DMA_BUS_ERROR

datatype wq = SC_queue | MC_queue | EVENT_queue | DD_queue | DMA_queue | SA_wait nat

record libera = bus +
  cfg :: cfg_dev
  dd :: dd_dev
  fa :: blk_dev
  pm :: pm_dev
  sa :: sa_dev
  event :: event_dev
  adc :: adc_dev
  dsc :: blk_dev
  lgbl :: libera_global
  modp :: modparams
  klog :: "kmsg list"
  wakes :: "wq list"
  sleeps :: nat

definition printk_crit :: "kmsg \<Rightarrow> libera \<Rightarrow> libera" where
  "printk_crit m s = s\<lparr>klog := m # klog s\<rparr>"

definition wake_up_interruptible :: "wq \<Rightarrow> libera \<Rightarrow> libera" where
  "wake_up_interruptible q s = s\<lparr>wakes := q # wakes s\<rparr>"

section \<open>The state at load time\<close>

text \<open>
  The static storage of the module before its initialisation runs: zero everywhere, except for the
  module parameters with their initial values. \<open>f\<close> is the FPGA.
\<close>

definition LIBERA_FLMC_INITIAL :: u32 where [reg_defs]: "LIBERA_FLMC_INITIAL = 1080000000"
definition LIBERA_KADC_INITIAL :: u32 where [reg_defs]: "LIBERA_KADC_INITIAL = 1000"
definition LIBERA_DUR_INITIAL :: u32 where [reg_defs]: "LIBERA_DUR_INITIAL = 1000"
definition LIBERA_PMSIZE_INITIAL :: u32 where [reg_defs]: "LIBERA_PMSIZE_INITIAL = 16384"

definition zero_common :: common where
  "zero_common = \<lparr>open_count = 0, writers = 0, readers = 0, master_filp = None, sem = False\<rparr>"

definition zero_ring :: "'a \<Rightarrow> 'a ring" where
  "zero_ring z = \<lparr>slots = (\<lambda>_. z), put = 0, get = 0\<rparr>"

definition zero_atom :: dd_atom where
  "zero_atom = \<lparr>cosVa = 0, sinVa = 0, cosVb = 0, sinVb = 0, cosVc = 0, sinVc = 0, cosVd = 0, sinVd = 0\<rparr>"

definition zero_settime :: settime where
  "zero_settime = \<lparr>update = 0, lst_ref = 0, lst_off = 0, lst_scphi = 0, lmt_ref = 0,
     lmt_off_all = 0, lmt_off = 0, lmt_off_pll = 0, lmt_mcphi = 0\<rparr>"

definition zero_event_dev :: event_dev where
  "zero_event_dev = \<lparr>ev_com = zero_common, CTIME_sem = False,
     paired_timestamps = (\<lambda>_. flushCircBuf), sc_timestamps = (\<lambda>_. zero_ring 0),
     mc_timestamps = (\<lambda>_. zero_ring 0), events = zero_ring \<lparr>ev_id = 0, ev_param = 0\<rparr>,
     sc_time = 0, mc_time = 0, sc_trigVec = 0, mc_trigVec = 0, set_time = zero_settime,
     HB_start_lmt = 0, list_head = \<lparr>eg_time = 0, eg_event = 0\<rparr>\<rparr>"

definition zero_dma :: dma where
  "zero_dma = \<lparr>dma_buf = (\<lambda>_. zero_atom), dma_put = 0, dma_get = 0, csize = 0, remaining = 0,
     obFIFOstatus = 0, Overrun = False, DMAC_transfer = False, aborting = False, written = 0,
     dmac_src = 0, dmac_dst = 0, dmac_bytes = 0\<rparr>"

definition libera_bss :: "(io list \<Rightarrow> u32 \<Rightarrow> u32) \<Rightarrow> libera" where
  "libera_bss f = \<lparr>fpga = f, trace = [],
     cfg = \<lparr>cfg_com = zero_common, param = (\<lambda>_. 0), pm_freezed = False\<rparr>,
     dd = \<lparr>dd_com = zero_common, dd_irqevents = zero_ring 0, pm_entry = False\<rparr>,
     fa = \<lparr>blk_com = zero_common, blk_buf = replicate (FAI_BLOCKSIZE div 4) 0\<rparr>,
     pm = \<lparr>pm_com = zero_common, pm_buf = [], PMevent = zero_stamp,
           pm_tstamp = \<lparr>ts_st = \<lparr>tv_sec = 0, tv_nsec = 0\<rparr>, ts_mt = 0\<rparr>\<rparr>,
     sa = \<lparr>sa_com = zero_common, pipes = \<lparr>sa_pipe = (\<lambda>_. None), registered = 0, next_pipe = 0\<rparr>,
           sa_heap = (\<lambda>_. None), sa_buf = (\<lambda>_. replicate 16 0), buf_head = 0, buf_tail = 0,
           inputovr = False\<rparr>,
     event = zero_event_dev,
     adc = \<lparr>adc_com = zero_common, adc_buf = (\<lambda>_. \<lparr>ChD = 0, ChC = 0, ChB = 0, ChA = 0\<rparr>), adc_op = None\<rparr>,
     dsc = \<lparr>blk_com = zero_common, blk_buf = replicate (DSC_BLOCKSIZE div 4) 0\<rparr>,
     lgbl = \<lparr>event_mask = 0, g_irq = 0, g_dma = zero_dma, irqMask = 0, feature = 0, g_d = 0,
             g_dfa = 0, g_dcic = 0, num_dfir = 0\<rparr>,
     modp = \<lparr>flmcdHz = LIBERA_FLMC_INITIAL, kadc = LIBERA_KADC_INITIAL,
             ilkdur = LIBERA_DUR_INITIAL, pmdur = LIBERA_DUR_INITIAL, pmsize = LIBERA_PMSIZE_INITIAL\<rparr>,
     klog = [], wakes = [], sleeps = 0\<rparr>"

end
