(* ===== verification/TimeConv.thy ===== *)
theory TimeConv
  imports State
begin

text \<open>
  The time scales of the driver and the conversions between them
  (\<^verbatim>\<open>drivers/libera/libera_dd.h\<close>): system time as seconds and nanoseconds (ST), the driver's
  system time in periods of the 125 MHz clock (LST), machine time in revolutions (MT) and the
  driver's machine time in samples (LMT), and the position in the FPGA's circular buffer. The
  globals \<^verbatim>\<open>lgbl.d\<close> and \<^verbatim>\<open>flmcdHz\<close> are arguments.
\<close>

definition NS_IN_SECOND :: u32 where [reg_defs]: "NS_IN_SECOND = 1000000000"
definition LSC_FREQ :: u32 where [reg_defs]: "LSC_FREQ = 125000000"
definition FLMC_DECI_HZ :: u32 where [reg_defs]: "FLMC_DECI_HZ = 10"
definition DELTA_LST_OVERFLOW :: u64 where [reg_defs]: "DELTA_LST_OVERFLOW = 15707377440"
definition DELTA_LMT_OVERFLOW :: u64 where [reg_defs]: "DELTA_LMT_OVERFLOW = 14757395240"
definition LIBERA_DD_CIRCBUF_ATOMS :: u32 where [reg_defs]: "LIBERA_DD_CIRCBUF_ATOMS = 2097152"

section \<open>Conversions\<close>

text \<open>\<^verbatim>\<open>tv_sec\<close> and \<^verbatim>\<open>tv_nsec\<close> are signed, so widening them to 64 bits extends the sign.\<close>

definition st2lst :: "timespec \<Rightarrow> u64" where
  "st2lst st =
     scast (tv_sec st) * ucast LSC_FREQ + div_u64 (scast (tv_nsec st) * ucast LSC_FREQ) NS_IN_SECOND"

definition lst2st :: "u64 \<Rightarrow> timespec" where
  "lst2st t =
     (let (sec, rem) = div_u64_rem t LSC_FREQ
      in \<lparr>tv_sec = ucast sec, tv_nsec = rem * (NS_IN_SECOND div LSC_FREQ)\<rparr>)"

definition mt2lmt :: "u32 \<Rightarrow> u64 \<Rightarrow> u64" where
  "mt2lmt d mt = mt * ucast d"

definition lmt2mt :: "u32 \<Rightarrow> u64 \<Rightarrow> u64" where
  "lmt2mt d t = div_u64 t d"

definition get_circ_offset_lmt :: "u32 \<Rightarrow> u64 \<Rightarrow> u64 \<Rightarrow> u64 \<Rightarrow> u32" where
  "get_circ_offset_lmt d off start t =
     (let dummy_first_part = t - (off + start) + ucast (d div 2);
          dummy_divisor = div_u64 dummy_first_part d
      in snd (div_u64_rem dummy_divisor LIBERA_DD_CIRCBUF_ATOMS))"

definition get_circ_offset_mt :: "u32 \<Rightarrow> u64 \<Rightarrow> u64 \<Rightarrow> u64 \<Rightarrow> u32" where
  "get_circ_offset_mt d off start mt =
     (let dummy_first_part = off + start;
          dummy_divisor = div_u64 dummy_first_part d
      in snd (div_u64_rem (mt - dummy_divisor) LIBERA_DD_CIRCBUF_ATOMS))"

text \<open>
  The two conversions across the clocks go through a pair \<open>stime\<close> of simultaneous stamps. On an
  error the destination keeps its old value.
\<close>

definition lst2lmt :: "u32 \<Rightarrow> u64 \<Rightarrow> u64 \<Rightarrow> Ltimestamp \<Rightarrow> int \<times> u64" where
  "lst2lmt flmc t dest stime =
     (let (deltaLST, positive) =
            (if t > lst stime then (t - lst stime, True) else (lst stime - t, False)) in
      if deltaLST > DELTA_LST_OVERFLOW then (- ERANGE, dest)
      else
        let deltaLMT = div_u64 (deltaLST * ucast flmc) (LSC_FREQ * FLMC_DECI_HZ)
        in (0, if positive then lmt stime + deltaLMT else lmt stime - deltaLMT))"

definition lmt2lst :: "u32 \<Rightarrow> u64 \<Rightarrow> u64 \<Rightarrow> Ltimestamp \<Rightarrow> int \<times> u64" where
  "lmt2lst flmc t dest stime =
     (let (deltaLMT, positive) =
            (if t > lmt stime then (t - lmt stime, True) else (lmt stime - t, False)) in
      if deltaLMT > DELTA_LMT_OVERFLOW then (- ERANGE, dest)
      else
        let deltaLST = div_u64 (deltaLMT * ucast LSC_FREQ * ucast FLMC_DECI_HZ) flmc
        in (0, if positive then lst stime + deltaLST else lst stime - deltaLST))"

section \<open>System time\<close>

lemma lsc_freq_nat [simp]: "unat LSC_FREQ = 125000000" "unat NS_IN_SECOND = 1000000000"
  "LSC_FREQ \<noteq> 0" "NS_IN_SECOND \<noteq> 0" "NS_IN_SECOND div LSC_FREQ = 8"
  by (simp_all add: reg_defs)

lemma lst2st_sec: "unat t div 125000000 < 4294967296 \<Longrightarrow>
    unat (tv_sec (lst2st t)) = unat t div 125000000"
  by (simp add: lst2st_def div_u64_rem_def unsigned_ucast_eq unat_div take_bit_nat_eq_self)

lemma lst2st_nsec: "unat (tv_nsec (lst2st t)) = unat t mod 125000000 * 8"
proof -
  have r: "unat (snd (div_u64_rem t LSC_FREQ)) = unat t mod 125000000"
    by (simp add: unat_div_u64_rem_rem)
  have "unat t mod 125000000 < 125000000" by simp
  then have "unat t mod 125000000 * 8 < 4294967296" by simp
  with r show ?thesis
    by (simp add: lst2st_def Let_def case_prod_unfold unat_word_ariths)
qed

text \<open>Sign extension changes nothing for the values the code produces.\<close>

lemma unat_scast_u32_u64:
  assumes "unat (x :: u32) < 2147483648"
  shows "unat (scast x :: u64) = unat x"
proof -
  have "int (unat x) < 2147483648" using assms by linarith
  then have "uint x < 2147483648" by simp
  moreover have "- 2147483648 \<le> uint x"
    by (rule order_trans [of _ 0]) simp_all
  ultimately have "sint x = int (unat x)"
    by (simp add: sint_uint signed_take_bit_int_eq_self)
  moreover have "scast x = (word_of_int (sint x) :: u64)"
    by (simp add: of_int_sint)
  ultimately have "scast x = (of_nat (unat x) :: u64)" by simp
  moreover have "unat (of_nat (unat x) :: u64) = unat x"
    using assms by (simp add: unsigned_of_nat take_bit_nat_eq_self)
  ultimately show ?thesis by simp
qed

lemma st2lst_nat:
  assumes "unat (tv_sec st) < 2147483648" "unat (tv_nsec st) < 1000000000"
  shows "unat (st2lst st) = unat (tv_sec st) * 125000000 + unat (tv_nsec st) div 8"
proof -
  let ?n = "unat (tv_nsec st)"
  have ns: "unat (scast (tv_nsec st) * ucast LSC_FREQ :: u64) = ?n * 125000000"
    using assms(2) by (subst unat_mult_u64_small) (simp_all add: unat_scast_u32_u64)
  have "?n * 125000000 div 1000000000 = ?n div 8"
    using div_mult_mult2 [of 125000000 ?n 8] by simp
  with ns have d: "unat (div_u64 (scast (tv_nsec st) * ucast LSC_FREQ) NS_IN_SECOND) = ?n div 8"
    by (simp add: unat_div_u64)
  have m: "unat (scast (tv_sec st) * ucast LSC_FREQ :: u64) = unat (tv_sec st) * 125000000"
    using assms(1) by (subst unat_mult_u64_small) (simp_all add: unat_scast_u32_u64)
  show ?thesis
    unfolding st2lst_def using assms d m by (subst unat_add_u64_small) simp_all
qed

text \<open>
  C29: an LST reading converts to seconds and nanoseconds and back without loss, as long as the
  seconds fit the signed \<^verbatim>\<open>tv_sec\<close> of the 32-bit target (until the year 2038).
\<close>

theorem st_lst_roundtrip:
  assumes "unat t div 125000000 < 2147483648"
  shows "st2lst (lst2st t) = t"
proof (rule word_eq_if_unat_eq)
  have s: "unat (tv_sec (lst2st t)) = unat t div 125000000"
    using assms by (simp add: lst2st_sec)
  have "unat t mod 125000000 < 125000000" by simp
  then have "unat (tv_nsec (lst2st t)) < 1000000000"
    unfolding lst2st_nsec by linarith
  with s assms have "unat (st2lst (lst2st t)) =
      unat t div 125000000 * 125000000 + unat t mod 125000000 * 8 div 8"
    by (simp add: st2lst_nat lst2st_nsec)
  then show "unat (st2lst (lst2st t)) = unat t" by simp
qed

theorem st_lst_roundtrip_witness: "st2lst (lst2st 250000007) = 250000007"
  by (rule st_lst_roundtrip) simp

text \<open>In the other direction the clock's resolution of 8 nanoseconds is what is lost.\<close>

lemma lst_st_truncates:
  assumes "unat (tv_sec st) < 2147483648" "unat (tv_nsec st) < 1000000000"
  shows "unat (tv_sec (lst2st (st2lst st))) = unat (tv_sec st)"
    and "unat (tv_nsec (lst2st (st2lst st))) = unat (tv_nsec st) - unat (tv_nsec st) mod 8"
proof -
  have n: "unat (tv_nsec st) div 8 < 125000000" using assms(2) by simp
  have "(unat (tv_sec st) * 125000000 + unat (tv_nsec st) div 8) div 125000000 = unat (tv_sec st)"
    using n by simp
  then show "unat (tv_sec (lst2st (st2lst st))) = unat (tv_sec st)"
    using assms by (simp add: lst2st_sec st2lst_nat)
  show "unat (tv_nsec (lst2st (st2lst st))) = unat (tv_nsec st) - unat (tv_nsec st) mod 8"
    using assms n by (simp add: lst2st_nsec st2lst_nat minus_mod_eq_div_mult)
qed

section \<open>Machine time\<close>

lemma mt2lmt_nat: "unat mt * unat d < 18446744073709551616 \<Longrightarrow> unat (mt2lmt d mt) = unat mt * unat d"
  by (simp add: mt2lmt_def unat_mult_u64_small)

lemma lmt_mt_roundtrip:
  "unat mt * unat d < 18446744073709551616 \<Longrightarrow> d \<noteq> 0 \<Longrightarrow> lmt2mt d (mt2lmt d mt) = mt"
  by (rule word_eq_if_unat_eq) (simp add: lmt2mt_def unat_div_u64 mt2lmt_nat word_unat_eq_iff)

text \<open>The other way round, the result is the sample that starts the revolution.\<close>

lemma mt_lmt_truncates: "unat (mt2lmt d (lmt2mt d t)) = unat t - unat t mod unat d"
  if "d \<noteq> 0"
proof -
  have "unat t div unat d * unat d \<le> unat t" by simp
  also have "\<dots> < 18446744073709551616" by simp
  finally show ?thesis
    by (simp add: lmt2mt_def mt2lmt_nat unat_div_u64 minus_mod_eq_div_mult)
qed

section \<open>Position in the circular buffer\<close>

lemma circbuf_atoms_nat [simp]: "unat LIBERA_DD_CIRCBUF_ATOMS = 2097152" "LIBERA_DD_CIRCBUF_ATOMS \<noteq> 0"
  by (simp_all add: reg_defs)

lemma circ_offset_lmt_bound: "unat (get_circ_offset_lmt d off start t) < 2097152"
  by (simp add: get_circ_offset_lmt_def unat_div_u64_rem_rem)

lemma circ_offset_mt_bound: "unat (get_circ_offset_mt d off start mt) < 2097152"
  by (simp add: get_circ_offset_mt_def unat_div_u64_rem_rem)

lemma circ_offset_lmt_nat:
  assumes "d \<noteq> 0" "unat off + unat start \<le> unat t" "unat t + unat d < 18446744073709551616"
  shows "unat (get_circ_offset_lmt d off start t) =
    (unat t - (unat off + unat start) + unat d div 2) div unat d mod 2097152"
proof -
  have a: "unat (off + start) = unat off + unat start"
    using assms by (intro unat_add_u64_small) simp
  then have s: "unat (t - (off + start)) = unat t - (unat off + unat start)"
    using assms(2) by (simp add: unat_sub_le word_le_nat_alt)
  have "unat (t - (off + start) + ucast (d div 2)) =
      unat t - (unat off + unat start) + unat d div 2"
    using assms s by (subst unat_add_u64_small) (simp_all add: unat_div)
  then show ?thesis
    by (simp add: get_circ_offset_lmt_def unat_div_u64_rem_rem unat_div_u64)
qed

lemma half_window:
  fixes t s K d :: nat
  assumes "0 < d" "2 * t < 2 * (s + K) + d - 1" "2 * (s + K) \<le> 2 * t + d - 1" "s \<le> t"
  shows "K \<le> t - s + d div 2 \<and> t - s + d div 2 < K + d"
proof -
  obtain u where u: "t = s + u" using assms(4) by (metis le_Suc_ex)
  from assms have "2 * u < 2 * K + d - 1" "2 * K \<le> 2 * u + d - 1" by (simp_all add: u)
  moreover have "2 * (d div 2) + d mod 2 = d" "d mod 2 < 2" by simp_all
  ultimately show ?thesis using assms(1) by (simp add: u) linarith
qed

text \<open>
  C28: the sample that is \<open>k\<close> revolutions after the start of the history buffer is at atom \<open>k\<close> modulo
  the 2097152 atoms of the circular buffer, whatever the jitter of its stamp, as long as the
  stamp is off by less than half a revolution; so the atom index never leaves the buffer.
\<close>

theorem circ_offset_nearest_revolution:
  assumes d: "d \<noteq> 0"
    and near: "2 * unat t < 2 * (unat off + unat start + k * unat d) + unat d - 1"
      "2 * (unat off + unat start + k * unat d) \<le> 2 * unat t + unat d - 1"
    and order: "unat off + unat start \<le> unat t"
    and range: "unat t + unat d < 18446744073709551616"
  shows "unat (get_circ_offset_lmt d off start t) = k mod 2097152"
proof -
  let ?x = "unat t - (unat off + unat start) + unat d div 2"
  have "0 < unat d" using d by (simp add: unat_gt_0)
  moreover have "k * unat d \<le> ?x \<and> ?x < k * unat d + unat d"
    using near order \<open>0 < unat d\<close> by (intro half_window) simp_all
  ultimately have "?x div unat d = k"
    by (intro div_nat_eqI) (simp_all add: algebra_simps)
  then show ?thesis using circ_offset_lmt_nat [OF d order range] by simp
qed

theorem circ_offset_nearest_revolution_witness:
  "unat (get_circ_offset_lmt 220 1000 500 (1500 + 220 * 2097155 - 100)) = 2097155 mod 2097152"
  by (rule circ_offset_nearest_revolution) simp_all

section \<open>From one clock to the other\<close>

text \<open>The distance from the pair of stamps, and its direction.\<close>

definition dist64 :: "u64 \<Rightarrow> u64 \<Rightarrow> nat" where
  "dist64 x y = (if x > y then unat x - unat y else unat y - unat x)"

definition shift64 :: "bool \<Rightarrow> u64 \<Rightarrow> nat \<Rightarrow> u64" where
  "shift64 up x n = (if up then x + of_nat n else x - of_nat n)"

lemma delta_lst_nat [simp]: "unat DELTA_LST_OVERFLOW = 15707377440"
  "unat DELTA_LMT_OVERFLOW = 14757395240" "unat (LSC_FREQ * FLMC_DECI_HZ) = 1250000000"
  by (simp_all add: reg_defs)

text \<open>
  C24: converting a system time to machine time never overflows: it is refused with \<^verbatim>\<open>-ERANGE\<close>
  (the destination unchanged) exactly when it lies more than 15707377440 periods from the pair of
  stamps, and otherwise, for any machine frequency up to 117.44 MHz, the machine time lies
  exactly \<open>distance * f / 1250000000\<close> samples (rounded down, computed without wrap-around) from the
  stamp, in the same direction.
\<close>

theorem lst2lmt_exact:
  assumes "unat flmc \<le> 1174400000"
  shows "lst2lmt flmc t dest st =
    (if dist64 t (lst st) > 15707377440 then (- ERANGE, dest)
     else (0, shift64 (t > lst st) (lmt st) (dist64 t (lst st) * unat flmc div 1250000000)))"
proof -
  have conv: "div_u64 (x * ucast flmc) (LSC_FREQ * FLMC_DECI_HZ) =
      of_nat (unat x * unat flmc div 1250000000)" if "unat x \<le> 15707377440" for x :: u64
  proof (rule word_eq_if_unat_eq)
    have "unat x * unat flmc \<le> 15707377440 * 1174400000"
      using that assms by (rule mult_le_mono)
    then have le: "unat x * unat flmc < 18446744073709551616" by simp
    then have "unat x * unat flmc div 1250000000 < 18446744073709551616" by linarith
    with le show "unat (div_u64 (x * ucast flmc) (LSC_FREQ * FLMC_DECI_HZ)) =
        unat (of_nat (unat x * unat flmc div 1250000000) :: u64)"
      by (simp add: unat_div_u64 unat_mult_u64_small unsigned_of_nat take_bit_nat_eq_self)
  qed
  show ?thesis
    by (cases "t > lst st")
      (auto simp: lst2lmt_def dist64_def shift64_def conv word_less_nat_alt unat_sub_le
        word_le_nat_alt Let_def)
qed

theorem lst2lmt_exact_witness:
  "lst2lmt 1000000000 (1000 + 125000000) 7 \<lparr>lst = 1000, lmt = 50\<rparr> = (0, 50 + 100000000)"
  by (subst lst2lmt_exact) (simp_all add: dist64_def shift64_def)

lemma lmt2lst_exact:
  assumes "flmc \<noteq> 0"
  shows "lmt2lst flmc t dest st =
    (if dist64 t (lmt st) > 14757395240 then (- ERANGE, dest)
     else (0, shift64 (t > lmt st) (lst st) (dist64 t (lmt st) * 1250000000 div unat flmc)))"
proof -
  have conv: "div_u64 (x * ucast LSC_FREQ * ucast FLMC_DECI_HZ) flmc =
      of_nat (unat x * 1250000000 div unat flmc)" if "unat x \<le> 14757395240" for x :: u64
  proof (rule word_eq_if_unat_eq)
    have c: "(ucast LSC_FREQ * ucast FLMC_DECI_HZ :: u64) = 1250000000"
      by (simp add: reg_defs)
    have e: "x * ucast LSC_FREQ * ucast FLMC_DECI_HZ = x * 1250000000"
      by (simp only: mult.assoc c)
    have le: "unat x * 1250000000 < 18446744073709551616" using that by simp
    have "unat x * 1250000000 div unat flmc \<le> unat x * 1250000000" by (rule div_le_dividend)
    with le have "unat x * 1250000000 div unat flmc < 18446744073709551616" by linarith
    with le show "unat (div_u64 (x * ucast LSC_FREQ * ucast FLMC_DECI_HZ) flmc) =
        unat (of_nat (unat x * 1250000000 div unat flmc) :: u64)"
      by (simp add: e unat_div_u64 unat_mult_u64_small unsigned_of_nat take_bit_nat_eq_self)
  qed
  show ?thesis
    by (cases "t > lmt st")
      (auto simp: lmt2lst_def dist64_def shift64_def conv word_less_nat_alt unat_sub_le
        word_le_nat_alt Let_def)
qed

end
