(* ===== verification/Params.thy ===== *)
theory Params
  imports Prelude
begin

text \<open>
  The numbers user space and the driver agree on (\<^verbatim>\<open>drivers/libera/libera.h\<close>, \<^verbatim>\<open>ebpp.h\<close>): the
  positions of the configuration parameters, the trigger modes and the ioctl commands.
\<close>

section \<open>Configuration parameters\<close>

text \<open>Positions in the parameter array: those common to the family, then those of the EBPP.\<close>

definition LIBERA_CFG_TRIGMODE :: nat where [reg_defs]: "LIBERA_CFG_TRIGMODE = 0"
definition LIBERA_CFG_MCPLL :: nat where [reg_defs]: "LIBERA_CFG_MCPLL = 1"
definition LIBERA_CFG_SCPLL :: nat where [reg_defs]: "LIBERA_CFG_SCPLL = 2"
definition LIBERA_CFG_FEATURE_CUSTOMER :: nat where [reg_defs]: "LIBERA_CFG_FEATURE_CUSTOMER = 3"
definition LIBERA_CFG_FEATURE_ITECH :: nat where [reg_defs]: "LIBERA_CFG_FEATURE_ITECH = 4"
definition LIBERA_CFG_CUSTOM_FIRST :: nat where [reg_defs]: "LIBERA_CFG_CUSTOM_FIRST = 128"
definition LIBERA_CFG_XOFFSET :: nat where [reg_defs]: "LIBERA_CFG_XOFFSET = LIBERA_CFG_CUSTOM_FIRST"
definition LIBERA_CFG_YOFFSET :: nat where [reg_defs]: "LIBERA_CFG_YOFFSET = LIBERA_CFG_CUSTOM_FIRST + 1"
definition LIBERA_CFG_QOFFSET :: nat where [reg_defs]: "LIBERA_CFG_QOFFSET = LIBERA_CFG_CUSTOM_FIRST + 2"
definition LIBERA_CFG_KX :: nat where [reg_defs]: "LIBERA_CFG_KX = LIBERA_CFG_CUSTOM_FIRST + 3"
definition LIBERA_CFG_KY :: nat where [reg_defs]: "LIBERA_CFG_KY = LIBERA_CFG_CUSTOM_FIRST + 4"
definition LIBERA_CFG_ILK_XLOW :: nat where [reg_defs]: "LIBERA_CFG_ILK_XLOW = LIBERA_CFG_CUSTOM_FIRST + 5"
definition LIBERA_CFG_ILK_XHIGH :: nat where [reg_defs]: "LIBERA_CFG_ILK_XHIGH = LIBERA_CFG_CUSTOM_FIRST + 6"
definition LIBERA_CFG_ILK_YLOW :: nat where [reg_defs]: "LIBERA_CFG_ILK_YLOW = LIBERA_CFG_CUSTOM_FIRST + 7"
definition LIBERA_CFG_ILK_YHIGH :: nat where [reg_defs]: "LIBERA_CFG_ILK_YHIGH = LIBERA_CFG_CUSTOM_FIRST + 8"
definition LIBERA_CFG_ILK_MODE :: nat where [reg_defs]: "LIBERA_CFG_ILK_MODE = LIBERA_CFG_CUSTOM_FIRST + 9"
definition LIBERA_CFG_ILK_OVERFLOW_LIMIT :: nat where [reg_defs]: "LIBERA_CFG_ILK_OVERFLOW_LIMIT = LIBERA_CFG_CUSTOM_FIRST + 10"
definition LIBERA_CFG_ILK_OVERFLOW_DUR :: nat where [reg_defs]: "LIBERA_CFG_ILK_OVERFLOW_DUR = LIBERA_CFG_CUSTOM_FIRST + 11"
definition LIBERA_CFG_ILK_GAIN_LIMIT :: nat where [reg_defs]: "LIBERA_CFG_ILK_GAIN_LIMIT = LIBERA_CFG_CUSTOM_FIRST + 12"
definition LIBERA_CFG_PM_MODE :: nat where [reg_defs]: "LIBERA_CFG_PM_MODE = LIBERA_CFG_CUSTOM_FIRST + 13"
definition LIBERA_CFG_PM_XLOW :: nat where [reg_defs]: "LIBERA_CFG_PM_XLOW = LIBERA_CFG_CUSTOM_FIRST + 14"
definition LIBERA_CFG_PM_XHIGH :: nat where [reg_defs]: "LIBERA_CFG_PM_XHIGH = LIBERA_CFG_CUSTOM_FIRST + 15"
definition LIBERA_CFG_PM_YLOW :: nat where [reg_defs]: "LIBERA_CFG_PM_YLOW = LIBERA_CFG_CUSTOM_FIRST + 16"
definition LIBERA_CFG_PM_YHIGH :: nat where [reg_defs]: "LIBERA_CFG_PM_YHIGH = LIBERA_CFG_CUSTOM_FIRST + 17"
definition LIBERA_CFG_PM_OVERFLOW_LIMIT :: nat where [reg_defs]: "LIBERA_CFG_PM_OVERFLOW_LIMIT = LIBERA_CFG_CUSTOM_FIRST + 18"
definition LIBERA_CFG_PM_OVERFLOW_DUR :: nat where [reg_defs]: "LIBERA_CFG_PM_OVERFLOW_DUR = LIBERA_CFG_CUSTOM_FIRST + 19"
definition LIBERA_CFG_SR_ENABLE :: nat where [reg_defs]: "LIBERA_CFG_SR_ENABLE = LIBERA_CFG_CUSTOM_FIRST + 20"
definition LIBERA_CFG_SR_CSPI_ENABLE :: nat where [reg_defs]: "LIBERA_CFG_SR_CSPI_ENABLE = LIBERA_CFG_CUSTOM_FIRST + 21"
definition LIBERA_CFG_SR_AVERAGING_STOP :: nat where [reg_defs]: "LIBERA_CFG_SR_AVERAGING_STOP = LIBERA_CFG_CUSTOM_FIRST + 22"
definition LIBERA_CFG_SR_AVERAGE_WINDOW :: nat where [reg_defs]: "LIBERA_CFG_SR_AVERAGE_WINDOW = LIBERA_CFG_CUSTOM_FIRST + 23"
definition LIBERA_CFG_SR_START :: nat where [reg_defs]: "LIBERA_CFG_SR_START = LIBERA_CFG_CUSTOM_FIRST + 24"
definition LIBERA_CFG_SR_WINDOW :: nat where [reg_defs]: "LIBERA_CFG_SR_WINDOW = LIBERA_CFG_CUSTOM_FIRST + 25"
definition LIBERA_CFG_SP_THRESHOLD :: nat where [reg_defs]: "LIBERA_CFG_SP_THRESHOLD = LIBERA_CFG_CUSTOM_FIRST + 26"
definition LIBERA_CFG_SP_N_BEFORE :: nat where [reg_defs]: "LIBERA_CFG_SP_N_BEFORE = LIBERA_CFG_CUSTOM_FIRST + 27"
definition LIBERA_CFG_SP_N_AFTER :: nat where [reg_defs]: "LIBERA_CFG_SP_N_AFTER = LIBERA_CFG_CUSTOM_FIRST + 28"
definition LIBERA_CFG_CUSTOM_LAST :: nat where [reg_defs]: "LIBERA_CFG_CUSTOM_LAST = LIBERA_CFG_CUSTOM_FIRST + 29"
definition LIBERA_CFG_SW :: nat where [reg_defs]: "LIBERA_CFG_SW = LIBERA_CFG_CUSTOM_FIRST + 30"
definition LIBERA_CFG_LEVEL :: nat where [reg_defs]: "LIBERA_CFG_LEVEL = LIBERA_CFG_CUSTOM_FIRST + 31"
definition LIBERA_CFG_AGC :: nat where [reg_defs]: "LIBERA_CFG_AGC = LIBERA_CFG_CUSTOM_FIRST + 32"
definition LIBERA_CFG_DSC :: nat where [reg_defs]: "LIBERA_CFG_DSC = LIBERA_CFG_CUSTOM_FIRST + 33"
definition LIBERA_CFG_ILKSTATUS :: nat where [reg_defs]: "LIBERA_CFG_ILKSTATUS = LIBERA_CFG_CUSTOM_FIRST + 34"
definition LIBERA_CFG_PMOFFSET :: nat where [reg_defs]: "LIBERA_CFG_PMOFFSET = LIBERA_CFG_CUSTOM_FIRST + 35"
definition LIBERA_CFG_PMDEC :: nat where [reg_defs]: "LIBERA_CFG_PMDEC = LIBERA_CFG_CUSTOM_FIRST + 36"
definition LIBERA_CFG_EXTSWITCH :: nat where [reg_defs]: "LIBERA_CFG_EXTSWITCH = LIBERA_CFG_CUSTOM_FIRST + 37"
definition LIBERA_CFG_SWDELAY :: nat where [reg_defs]: "LIBERA_CFG_SWDELAY = LIBERA_CFG_CUSTOM_FIRST + 38"
definition LIBERA_CFG_DFA :: nat where [reg_defs]: "LIBERA_CFG_DFA = LIBERA_CFG_CUSTOM_FIRST + 39"
definition LIBERA_CFG_DEC_DDC :: nat where [reg_defs]: "LIBERA_CFG_DEC_DDC = LIBERA_CFG_CUSTOM_FIRST + 40"
definition LIBERA_CFG_DDC_MAFLENGTH :: nat where [reg_defs]: "LIBERA_CFG_DDC_MAFLENGTH = LIBERA_CFG_CUSTOM_FIRST + 41"
definition LIBERA_CFG_DDC_MAFDELAY :: nat where [reg_defs]: "LIBERA_CFG_DDC_MAFDELAY = LIBERA_CFG_CUSTOM_FIRST + 42"
definition LIBERA_CFG_TRIGDELAY :: nat where [reg_defs]: "LIBERA_CFG_TRIGDELAY = LIBERA_CFG_CUSTOM_FIRST + 43"
definition LIBERA_CFG_BCD_XOFFSET :: nat where [reg_defs]: "LIBERA_CFG_BCD_XOFFSET = LIBERA_CFG_CUSTOM_FIRST + 44"
definition LIBERA_CFG_BCD_YOFFSET :: nat where [reg_defs]: "LIBERA_CFG_BCD_YOFFSET = LIBERA_CFG_CUSTOM_FIRST + 45"
definition LIBERA_CFG_MAX_ADC :: nat where [reg_defs]: "LIBERA_CFG_MAX_ADC = LIBERA_CFG_CUSTOM_FIRST + 46"
definition LIBERA_CFG_AVERAGE_SUM :: nat where [reg_defs]: "LIBERA_CFG_AVERAGE_SUM = LIBERA_CFG_CUSTOM_FIRST + 47"
definition LIBERA_CFG_COEFF :: nat where [reg_defs]: "LIBERA_CFG_COEFF = 256"
definition LIBERA_CFG_NOTCH_MAX :: nat where [reg_defs]: "LIBERA_CFG_NOTCH_MAX = 5"
definition LIBERA_CFG_NOTCH1 :: nat where [reg_defs]: "LIBERA_CFG_NOTCH1 = LIBERA_CFG_COEFF"
definition LIBERA_CFG_NOTCH2 :: nat where [reg_defs]: "LIBERA_CFG_NOTCH2 = LIBERA_CFG_NOTCH1 + LIBERA_CFG_NOTCH_MAX"
definition LIBERA_CFG_POLYPHASE_FIR :: nat where [reg_defs]: "LIBERA_CFG_POLYPHASE_FIR = LIBERA_CFG_NOTCH2 + LIBERA_CFG_NOTCH_MAX"
definition LIBERA_CFG_FIR_MAX :: nat where [reg_defs]: "LIBERA_CFG_FIR_MAX = 192"
definition LIBERA_TRIGMODE_GET :: u32 where [reg_defs]: "LIBERA_TRIGMODE_GET = 1"
definition LIBERA_TRIGMODE_SET :: u32 where [reg_defs]: "LIBERA_TRIGMODE_SET = 2"

section \<open>Command numbers\<close>

text \<open>
  The encoding of ioctl commands (\<^verbatim>\<open>linux/ioctl.h\<close> on ARM): the direction in the two top bits, the
  size of the argument, the type of the device and a number.
\<close>

definition IOC :: "u32 \<Rightarrow> u32 \<Rightarrow> u32 \<Rightarrow> u32 \<Rightarrow> u32" where
  "IOC dir ty nr sz = push_bit 30 dir OR push_bit 16 sz OR push_bit 8 ty OR nr"

definition IOW :: "u32 \<Rightarrow> u32 \<Rightarrow> u32 \<Rightarrow> u32" where "IOW ty nr sz = IOC 1 ty nr sz"
definition IOR :: "u32 \<Rightarrow> u32 \<Rightarrow> u32 \<Rightarrow> u32" where "IOR ty nr sz = IOC 2 ty nr sz"
definition IOWR :: "u32 \<Rightarrow> u32 \<Rightarrow> u32 \<Rightarrow> u32" where "IOWR ty nr sz = IOC 3 ty nr sz"
definition IOC_DIR :: "u32 \<Rightarrow> u32" where "IOC_DIR cmd = drop_bit 30 cmd"
definition IOC_TYPE :: "u32 \<Rightarrow> u32" where "IOC_TYPE cmd = drop_bit 8 cmd AND 0xff"
definition IOC_WRITE :: u32 where [reg_defs]: "IOC_WRITE = 1"
definition IOC_READ :: u32 where [reg_defs]: "IOC_READ = 2"
definition FIONREAD :: u32 where [reg_defs]: "FIONREAD = 0x541B"

definition LIBERA_IOC_MAGIC :: u32 where [reg_defs]: "LIBERA_IOC_MAGIC = 0x6C"
definition LIBERA_EVENT_MAGIC :: u32 where [reg_defs]: "LIBERA_EVENT_MAGIC = 0x65"
definition LIBERA_DSC_MAGIC :: u32 where [reg_defs]: "LIBERA_DSC_MAGIC = 0x64"
definition LIBERA_MAGIC :: u32 where [reg_defs]: "LIBERA_MAGIC = 0xeb00"

text \<open>The tags of the event device, in the order of the enumeration.\<close>

definition LIBERA_EVENT_DAC_A :: u32 where [reg_defs]: "LIBERA_EVENT_DAC_A = 0"
definition LIBERA_EVENT_DAC_B :: u32 where [reg_defs]: "LIBERA_EVENT_DAC_B = 1"
definition LIBERA_EVENT_SC_TRIG :: u32 where [reg_defs]: "LIBERA_EVENT_SC_TRIG = 2"
definition LIBERA_EVENT_MC_TRIG :: u32 where [reg_defs]: "LIBERA_EVENT_MC_TRIG = 3"
definition LIBERA_EVENT_ST :: u32 where [reg_defs]: "LIBERA_EVENT_ST = 4"
definition LIBERA_EVENT_MT :: u32 where [reg_defs]: "LIBERA_EVENT_MT = 5"
definition LIBERA_EVENT_SC_EVENT :: u32 where [reg_defs]: "LIBERA_EVENT_SC_EVENT = 6"
definition LIBERA_EVENT_SC_TRIGGER_19 :: u32 where [reg_defs]: "LIBERA_EVENT_SC_TRIGGER_19 = 7"
definition LIBERA_EVENT_SC_TRIGGER_10 :: u32 where [reg_defs]: "LIBERA_EVENT_SC_TRIGGER_10 = 8"
definition LIBERA_EVENT_SC_TRIGGER_9 :: u32 where [reg_defs]: "LIBERA_EVENT_SC_TRIGGER_9 = 9"
definition LIBERA_EVENT_MC_TRIGGER_19 :: u32 where [reg_defs]: "LIBERA_EVENT_MC_TRIGGER_19 = 10"
definition LIBERA_EVENT_MC_TRIGGER_10 :: u32 where [reg_defs]: "LIBERA_EVENT_MC_TRIGGER_10 = 11"
definition LIBERA_EVENT_FLMC :: u32 where [reg_defs]: "LIBERA_EVENT_FLMC = 12"
definition LIBERA_EVENT_CTIME :: u32 where [reg_defs]: "LIBERA_EVENT_CTIME = 13"
definition LIBERA_EVENT_TRIG_TRIGGER :: u32 where [reg_defs]: "LIBERA_EVENT_TRIG_TRIGGER = 14"
definition LIBERA_EVENT_TRIGGER_BLOCK :: u32 where [reg_defs]: "LIBERA_EVENT_TRIGGER_BLOCK = 15"
definition LIBERA_EVENT_MASK :: u32 where [reg_defs]: "LIBERA_EVENT_MASK = 16"
definition LIBERA_EVENT_FLUSHING :: u32 where [reg_defs]: "LIBERA_EVENT_FLUSHING = 17"
definition LIBERA_EVENT_PMBUF :: u32 where [reg_defs]: "LIBERA_EVENT_PMBUF = 18"
definition LIBERA_EVENT_MCPHI :: u32 where [reg_defs]: "LIBERA_EVENT_MCPHI = 19"
definition LIBERA_EVENT_SCPHI :: u32 where [reg_defs]: "LIBERA_EVENT_SCPHI = 20"
definition LIBERA_EVENT_MC_TRIGGER_1 :: u32 where [reg_defs]: "LIBERA_EVENT_MC_TRIGGER_1 = 21"
definition LIBERA_EVENT_MC_TRIGGER_0 :: u32 where [reg_defs]: "LIBERA_EVENT_MC_TRIGGER_0 = 22"
definition LIBERA_EVENT_NCO :: u32 where [reg_defs]: "LIBERA_EVENT_NCO = 23"
definition LIBERA_EVENT_MCPLL :: u32 where [reg_defs]: "LIBERA_EVENT_MCPLL = 24"
definition LIBERA_EVENT_SCPLL :: u32 where [reg_defs]: "LIBERA_EVENT_SCPLL = 25"
definition LIBERA_EVENT_FIFOLEN_SC :: u32 where [reg_defs]: "LIBERA_EVENT_FIFOLEN_SC = 26"
definition LIBERA_EVENT_FIFOLEN_MC :: u32 where [reg_defs]: "LIBERA_EVENT_FIFOLEN_MC = 27"

text \<open>The commands; the last argument is the size of the C type.\<close>

definition LIBERA_IOC_GET_CFG :: u32 where [reg_defs]: "LIBERA_IOC_GET_CFG = IOWR LIBERA_IOC_MAGIC 0 8"
definition LIBERA_IOC_SET_CFG :: u32 where [reg_defs]: "LIBERA_IOC_SET_CFG = IOW LIBERA_IOC_MAGIC 0 8"
definition LIBERA_IOC_GET_MAGIC :: u32 where [reg_defs]: "LIBERA_IOC_GET_MAGIC = IOR LIBERA_IOC_MAGIC 1 4"
definition LIBERA_IOC_GET_DESC :: u32 where [reg_defs]: "LIBERA_IOC_GET_DESC = IOR LIBERA_IOC_MAGIC 2 68"
definition LIBERA_IOC_GET_DEC :: u32 where [reg_defs]: "LIBERA_IOC_GET_DEC = IOR LIBERA_IOC_MAGIC 96 4"
definition LIBERA_IOC_SET_DEC :: u32 where [reg_defs]: "LIBERA_IOC_SET_DEC = IOW LIBERA_IOC_MAGIC 96 4"
definition LIBERA_IOC_GET_DD_TSTAMP :: u32 where [reg_defs]: "LIBERA_IOC_GET_DD_TSTAMP = IOR LIBERA_IOC_MAGIC 97 16"
definition LIBERA_IOC_GET_PM_TSTAMP :: u32 where [reg_defs]: "LIBERA_IOC_GET_PM_TSTAMP = IOR LIBERA_IOC_MAGIC 128 16"
definition LIBERA_EVENT_SET_DAC_A :: u32 where [reg_defs]: "LIBERA_EVENT_SET_DAC_A = IOW LIBERA_EVENT_MAGIC LIBERA_EVENT_DAC_A 4"
definition LIBERA_EVENT_SET_DAC_B :: u32 where [reg_defs]: "LIBERA_EVENT_SET_DAC_B = IOW LIBERA_EVENT_MAGIC LIBERA_EVENT_DAC_B 4"
definition LIBERA_EVENT_SET_SC_EVENT :: u32 where [reg_defs]: "LIBERA_EVENT_SET_SC_EVENT = IOW LIBERA_EVENT_MAGIC LIBERA_EVENT_SC_EVENT 4"
definition LIBERA_EVENT_ENABLE_SC_TRIG :: u32 where [reg_defs]: "LIBERA_EVENT_ENABLE_SC_TRIG = IOW LIBERA_EVENT_MAGIC LIBERA_EVENT_SC_TRIG 4"
definition LIBERA_EVENT_ENABLE_MC_TRIG :: u32 where [reg_defs]: "LIBERA_EVENT_ENABLE_MC_TRIG = IOW LIBERA_EVENT_MAGIC LIBERA_EVENT_MC_TRIG 4"
definition LIBERA_EVENT_GET_SC_TRIGGER_19 :: u32 where [reg_defs]: "LIBERA_EVENT_GET_SC_TRIGGER_19 = IOR LIBERA_EVENT_MAGIC LIBERA_EVENT_SC_TRIGGER_19 8"
definition LIBERA_EVENT_GET_MC_TRIGGER_19 :: u32 where [reg_defs]: "LIBERA_EVENT_GET_MC_TRIGGER_19 = IOR LIBERA_EVENT_MAGIC LIBERA_EVENT_MC_TRIGGER_19 8"
definition LIBERA_EVENT_GET_SC_TRIGGER_10 :: u32 where [reg_defs]: "LIBERA_EVENT_GET_SC_TRIGGER_10 = IOR LIBERA_EVENT_MAGIC LIBERA_EVENT_SC_TRIGGER_10 8"
definition LIBERA_EVENT_GET_SC_TRIGGER_9 :: u32 where [reg_defs]: "LIBERA_EVENT_GET_SC_TRIGGER_9 = IOR LIBERA_EVENT_MAGIC LIBERA_EVENT_SC_TRIGGER_9 8"
definition LIBERA_EVENT_GET_MC_TRIGGER_10 :: u32 where [reg_defs]: "LIBERA_EVENT_GET_MC_TRIGGER_10 = IOR LIBERA_EVENT_MAGIC LIBERA_EVENT_MC_TRIGGER_10 8"
definition LIBERA_EVENT_GET_ST :: u32 where [reg_defs]: "LIBERA_EVENT_GET_ST = IOR LIBERA_EVENT_MAGIC LIBERA_EVENT_ST 8"
definition LIBERA_EVENT_SET_ST :: u32 where [reg_defs]: "LIBERA_EVENT_SET_ST = IOW LIBERA_EVENT_MAGIC LIBERA_EVENT_ST 20"
definition LIBERA_EVENT_GET_MT :: u32 where [reg_defs]: "LIBERA_EVENT_GET_MT = IOR LIBERA_EVENT_MAGIC LIBERA_EVENT_MT 8"
definition LIBERA_EVENT_SET_MT :: u32 where [reg_defs]: "LIBERA_EVENT_SET_MT = IOW LIBERA_EVENT_MAGIC LIBERA_EVENT_MT 20"
definition LIBERA_EVENT_GET_FLMC :: u32 where [reg_defs]: "LIBERA_EVENT_GET_FLMC = IOR LIBERA_EVENT_MAGIC LIBERA_EVENT_FLMC 4"
definition LIBERA_EVENT_SET_FLMC :: u32 where [reg_defs]: "LIBERA_EVENT_SET_FLMC = IOW LIBERA_EVENT_MAGIC LIBERA_EVENT_FLMC 4"
definition LIBERA_EVENT_GET_MCPHI :: u32 where [reg_defs]: "LIBERA_EVENT_GET_MCPHI = IOR LIBERA_EVENT_MAGIC LIBERA_EVENT_MCPHI 8"
definition LIBERA_EVENT_SET_MCPHI :: u32 where [reg_defs]: "LIBERA_EVENT_SET_MCPHI = IOW LIBERA_EVENT_MAGIC LIBERA_EVENT_MCPHI 8"
definition LIBERA_EVENT_GET_SCPHI :: u32 where [reg_defs]: "LIBERA_EVENT_GET_SCPHI = IOR LIBERA_EVENT_MAGIC LIBERA_EVENT_SCPHI 8"
definition LIBERA_EVENT_SET_SCPHI :: u32 where [reg_defs]: "LIBERA_EVENT_SET_SCPHI = IOW LIBERA_EVENT_MAGIC LIBERA_EVENT_SCPHI 8"
definition LIBERA_EVENT_GET_CTIME :: u32 where [reg_defs]: "LIBERA_EVENT_GET_CTIME = IOR LIBERA_EVENT_MAGIC LIBERA_EVENT_CTIME 16"
definition LIBERA_EVENT_GET_TRIG_TRIGGER :: u32 where [reg_defs]: "LIBERA_EVENT_GET_TRIG_TRIGGER = IOR LIBERA_EVENT_MAGIC LIBERA_EVENT_TRIG_TRIGGER 16"
definition LIBERA_EVENT_GET_MASK :: u32 where [reg_defs]: "LIBERA_EVENT_GET_MASK = IOR LIBERA_EVENT_MAGIC LIBERA_EVENT_MASK 4"
definition LIBERA_EVENT_SET_MASK :: u32 where [reg_defs]: "LIBERA_EVENT_SET_MASK = IOW LIBERA_EVENT_MAGIC LIBERA_EVENT_MASK 4"
definition LIBERA_EVENT_FLUSH :: u32 where [reg_defs]: "LIBERA_EVENT_FLUSH = IOW LIBERA_EVENT_MAGIC LIBERA_EVENT_FLUSHING 4"
definition LIBERA_EVENT_ACQ_PM :: u32 where [reg_defs]: "LIBERA_EVENT_ACQ_PM = IOW LIBERA_EVENT_MAGIC LIBERA_EVENT_PMBUF 4"
definition LIBERA_EVENT_GET_MC_TRIGGER_1 :: u32 where [reg_defs]: "LIBERA_EVENT_GET_MC_TRIGGER_1 = IOR LIBERA_EVENT_MAGIC LIBERA_EVENT_MC_TRIGGER_1 8"
definition LIBERA_EVENT_GET_MC_TRIGGER_0 :: u32 where [reg_defs]: "LIBERA_EVENT_GET_MC_TRIGGER_0 = IOR LIBERA_EVENT_MAGIC LIBERA_EVENT_MC_TRIGGER_0 8"
definition LIBERA_EVENT_SET_NCO :: u32 where [reg_defs]: "LIBERA_EVENT_SET_NCO = IOW LIBERA_EVENT_MAGIC LIBERA_EVENT_NCO 4"
definition LIBERA_EVENT_SET_MCPLL :: u32 where [reg_defs]: "LIBERA_EVENT_SET_MCPLL = IOW LIBERA_EVENT_MAGIC LIBERA_EVENT_MCPLL 4"
definition LIBERA_EVENT_SET_SCPLL :: u32 where [reg_defs]: "LIBERA_EVENT_SET_SCPLL = IOW LIBERA_EVENT_MAGIC LIBERA_EVENT_SCPLL 4"
definition LIBERA_EVENT_GET_FIFOLEN_SC :: u32 where [reg_defs]: "LIBERA_EVENT_GET_FIFOLEN_SC = IOWR LIBERA_EVENT_MAGIC LIBERA_EVENT_FIFOLEN_SC 4"
definition LIBERA_EVENT_GET_FIFOLEN_MC :: u32 where [reg_defs]: "LIBERA_EVENT_GET_FIFOLEN_MC = IOWR LIBERA_EVENT_MAGIC LIBERA_EVENT_FIFOLEN_MC 4"
definition LIBERA_DSC_SET_DSC :: u32 where [reg_defs]: "LIBERA_DSC_SET_DSC = IOW LIBERA_DSC_MAGIC 160 4"
definition LIBERA_DSC_BCD_OFFSETS :: u32 where [reg_defs]: "LIBERA_DSC_BCD_OFFSETS = IOW LIBERA_DSC_MAGIC 161 8"

lemmas ioc_defs = IOC_def IOW_def IOR_def IOWR_def IOC_DIR_def IOC_TYPE_def

end
