(* ===== verification/Kernel.thy ===== *)
theory Kernel
  imports State Params
begin

text \<open>
  The services the device code is written against: the mirrored interrupt mask, events to user
  space (\<^verbatim>\<open>libera_send_event\<close>), the outcome of copies from and to user memory, the context of the
  calling process (sleeping, signals, locks), the blocking read of a time stamp FIFO
  (\<^verbatim>\<open>getBlockedFromFIFO\<close> of \<^verbatim>\<open>libera_event.c\<close>) and the current Libera time
  (\<^verbatim>\<open>libera_get_CTIME\<close> of \<^verbatim>\<open>libera_main.c\<close>).

  What the rest of the system does while a process sleeps (interrupt handlers, other processes) is
  the parameter \<open>wake\<close> of the context, an arbitrary function on the driver state; whether a signal
  is pending and whether taking a lock is interrupted are arbitrary predicates on it. The counter
  \<open>sleeps\<close> grows with every sleep, so these functions can answer differently every time. Interrupts
  are taken at these points only.
\<close>

section \<open>Interrupt mask mirror\<close>

definition get_irqMask :: "libera \<Rightarrow> u32" where
  "get_irqMask s = irqMask (lgbl s)"

definition set_irqMask :: "u32 \<Rightarrow> libera \<Rightarrow> libera" where
  "set_irqMask newMask s =
     (let s = s\<lparr>lgbl := (lgbl s)\<lparr>irqMask := newMask\<rparr>\<rparr> in writel newMask SBC_IRQ_MASK s)"

definition LIBERA_INTERRUPT_SC_MASK :: u32 where [reg_defs]: "LIBERA_INTERRUPT_SC_MASK = 0x2"
definition LIBERA_INTERRUPT_HELPSC_MASK :: u32 where [reg_defs]: "LIBERA_INTERRUPT_HELPSC_MASK = 0x4"
definition LIBERA_INTERRUPT_MC_MASK :: u32 where [reg_defs]: "LIBERA_INTERRUPT_MC_MASK = 0x8"
definition LIBERA_INTERRUPT_HELPMC_MASK :: u32 where [reg_defs]: "LIBERA_INTERRUPT_HELPMC_MASK = 0x10"
definition LIBERA_INTERRUPT_DD_MASK :: u32 where [reg_defs]: "LIBERA_INTERRUPT_DD_MASK = 0x20"
definition LIBERA_INTERRUPT_SA_MASK :: u32 where [reg_defs]: "LIBERA_INTERRUPT_SA_MASK = 0x40"
definition LIBERA_INTERRUPT_ILK_MASK :: u32 where [reg_defs]: "LIBERA_INTERRUPT_ILK_MASK = 0x100"

section \<open>Events to user space\<close>

definition LIBERA_EVENT_OVERFLOW :: u32 where [reg_defs]: "LIBERA_EVENT_OVERFLOW = 0x1"
definition LIBERA_EVENT_CFG :: u32 where [reg_defs]: "LIBERA_EVENT_CFG = 0x2"
definition LIBERA_EVENT_SA :: u32 where [reg_defs]: "LIBERA_EVENT_SA = 0x4"
definition LIBERA_EVENT_INTERLOCK :: u32 where [reg_defs]: "LIBERA_EVENT_INTERLOCK = 0x8"
definition LIBERA_EVENT_PM :: u32 where [reg_defs]: "LIBERA_EVENT_PM = 0x10"
definition LIBERA_EVENT_TRIGGET :: u32 where [reg_defs]: "LIBERA_EVENT_TRIGGET = 0x40"
definition LIBERA_EVENT_TRIGSET :: u32 where [reg_defs]: "LIBERA_EVENT_TRIGSET = 0x80"

definition LIBERA_OVERFLOW_SA_FPGA :: u32 where [reg_defs]: "LIBERA_OVERFLOW_SA_FPGA = 1"
definition LIBERA_OVERFLOW_SA_DRV :: u32 where [reg_defs]: "LIBERA_OVERFLOW_SA_DRV = 2"

definition libera_send_event :: "u32 \<Rightarrow> u32 \<Rightarrow> libera \<Rightarrow> int \<times> libera" where
  "libera_send_event evid evparam s =
     (if evid AND event_mask (lgbl s) = 0 then (- EINVAL, s)
      else
        let le = \<lparr>ev_id = evid, ev_param = evparam\<rparr>;
            (r, q) = putTo_eventFIFO le (events (event s));
            s = s\<lparr>event := (event s)\<lparr>events := q\<rparr>\<rparr>;
            s = (if r < 0 then printk_crit EVENT_FIFO_overflow s else s);
            s = wake_up_interruptible EVENT_queue s
        in (0, s))"

abbreviation send_event :: "u32 \<Rightarrow> u32 \<Rightarrow> libera \<Rightarrow> libera" where
  "send_event evid evparam s \<equiv> snd (libera_send_event evid evparam s)"

section \<open>User memory\<close>

text \<open>
  The outcome of the accesses an \<^verbatim>\<open>ioctl\<close> call makes to user memory: whether the range check passes,
  how many bytes a copy fails to transfer (0 on success) and the 32-bit words that arrive in the
  kernel's variable. After an incomplete copy the words are whatever the variable then holds.
\<close>

record ucopy =
  u_ok :: bool
  from_left :: nat
  from_words :: "u32 list"
  to_left :: nat

definition uword :: "ucopy \<Rightarrow> nat \<Rightarrow> u32" where
  "uword u i = (if i < length (from_words u) then from_words u ! i else 0)"

text \<open>A 64-bit quantity occupies two words, the low one first.\<close>

definition u64_of :: "u32 \<Rightarrow> u32 \<Rightarrow> u64" where
  "u64_of lo hi = push_bit 32 (ucast hi) OR ucast lo"

definition lo32 :: "u64 \<Rightarrow> u32" where
  "lo32 x = ucast x"

definition hi32 :: "u64 \<Rightarrow> u32" where
  "hi32 x = ucast (drop_bit 32 x)"

definition words64 :: "u64 \<Rightarrow> u32 list" where
  "words64 x = [lo32 x, hi32 x]"

lemma u64_of_lo_hi [simp]: "u64_of (lo32 x) (hi32 x) = x"
  by (rule bit_word_eqI)
    (auto simp: u64_of_def lo32_def hi32_def bit_or_iff bit_push_bit_iff bit_ucast_iff
      bit_drop_bit_eq)

section \<open>The calling process\<close>

record ctx =
  wake :: "libera \<Rightarrow> libera"
  sigpend :: "libera \<Rightarrow> bool"
  lock_intr :: "libera \<Rightarrow> bool"
  timeleft :: "libera \<Rightarrow> nat \<Rightarrow> nat"
  jiffies :: "libera \<Rightarrow> u32"
  dma_waiter :: "libera \<Rightarrow> bool"

definition schedule :: "ctx \<Rightarrow> libera \<Rightarrow> libera" where
  "schedule c s = (wake c s)\<lparr>sleeps := Suc (sleeps s)\<rparr>"

text \<open>The lock of the event device, which the blocking FIFO read takes.\<close>

definition lock_event :: "libera \<Rightarrow> libera" where
  "lock_event s = s\<lparr>event := (event s)\<lparr>ev_com := (ev_com (event s))\<lparr>sem := True\<rparr>\<rparr>\<rparr>"

definition unlock_event :: "libera \<Rightarrow> libera" where
  "unlock_event s = s\<lparr>event := (event s)\<lparr>ev_com := (ev_com (event s))\<lparr>sem := False\<rparr>\<rparr>\<rparr>"

section \<open>Blocking read of a time stamp FIFO\<close>

text \<open>The FIFOs a caller passes by address.\<close>

datatype fifo_ref = SC_ts nat | MC_ts nat | DD_irq

fun fifo_of :: "fifo_ref \<Rightarrow> libera \<Rightarrow> u64 ring" where
  "fifo_of (SC_ts i) s = sc_timestamps (event s) i"
| "fifo_of (MC_ts i) s = mc_timestamps (event s) i"
| "fifo_of DD_irq s = dd_irqevents (dd s)"

fun fifo_upd :: "fifo_ref \<Rightarrow> u64 ring \<Rightarrow> libera \<Rightarrow> libera" where
  "fifo_upd (SC_ts i) q s =
     s\<lparr>event := (event s)\<lparr>sc_timestamps := (sc_timestamps (event s))(i := q)\<rparr>\<rparr>"
| "fifo_upd (MC_ts i) q s =
     s\<lparr>event := (event s)\<lparr>mc_timestamps := (mc_timestamps (event s))(i := q)\<rparr>\<rparr>"
| "fifo_upd DD_irq q s = s\<lparr>dd := (dd s)\<lparr>dd_irqevents := q\<rparr>\<rparr>"

text \<open>The sleeping loop, entered with the lock held. \<open>None\<close> is a call that sleeps for ever.\<close>

partial_function (option) wait_fifo :: "ctx \<Rightarrow> fifo_ref \<Rightarrow> libera \<Rightarrow> (int \<times> libera) option" where
  "wait_fifo c q s =
     (if not_emptyFIFO (fifo_of q s) then Some (0, s)
      else if \<not> sigpend c s then wait_fifo c q (lock_event (schedule c (unlock_event s)))
      else Some (- ERESTARTSYS, s))"

definition getBlockedFromFIFO :: "ctx \<Rightarrow> fifo_ref \<Rightarrow> libera \<Rightarrow> (int \<times> u64 \<times> libera) option" where
  "getBlockedFromFIFO c q s =
     (if lock_intr c s then Some (- ERESTARTSYS, 0, s)
      else
        let s = lock_event s in
        case (if emptyFIFO (fifo_of q s) then wait_fifo c q s else Some (0, s)) of
          None \<Rightarrow> None
        | Some (ret, s) \<Rightarrow>
            if ret \<noteq> 0 then Some (ret, 0, unlock_event s)
            else
              (case getFromFIFO (fifo_of q s) of
                 (None, _) \<Rightarrow> Some (- EFAULT, 0, unlock_event s)
               | (Some x, f) \<Rightarrow> Some (0, x, unlock_event (fifo_upd q f s))))"

text \<open>
  The variant that copies to user memory and gives up after a timeout in jiffies. What
  \<^verbatim>\<open>schedule_timeout\<close> reports as time left is the parameter \<open>timeleft\<close>.
\<close>

partial_function (option) wait_fifo_timeout ::
  "ctx \<Rightarrow> fifo_ref \<Rightarrow> nat \<Rightarrow> libera \<Rightarrow> (int \<times> libera) option"
where
  "wait_fifo_timeout c q timeout s =
     (if not_emptyFIFO (fifo_of q s) then Some (0, s)
      else if \<not> sigpend c s then
        (let t = timeleft c s timeout;
             s = lock_event (schedule c (unlock_event s))
         in if t = 0 then Some (- EAGAIN, s) else wait_fifo_timeout c q t s)
      else Some (- ERESTARTSYS, s))"

definition getBlockedFromFIFOuser ::
  "ctx \<Rightarrow> fifo_ref \<Rightarrow> ucopy \<Rightarrow> nat \<Rightarrow> libera \<Rightarrow> (int \<times> u32 list \<times> libera) option"
where
  "getBlockedFromFIFOuser c q u timeout s =
     (if lock_intr c s then Some (- ERESTARTSYS, [], s)
      else
        let s = lock_event s in
        case (if emptyFIFO (fifo_of q s) then wait_fifo_timeout c q timeout s else Some (0, s)) of
          None \<Rightarrow> None
        | Some (ret, s) \<Rightarrow>
            if ret \<noteq> 0 then Some (ret, [], unlock_event s)
            else
              (case getFromFIFO (fifo_of q s) of
                 (None, _) \<Rightarrow> Some (- EFAULT, [], unlock_event s)
               | (Some x, f) \<Rightarrow>
                   (let s = unlock_event (fifo_upd q f s) in
                    if to_left u \<noteq> 0 then Some (- EFAULT, [], s) else Some (0, words64 x, s))))"

section \<open>Current Libera time\<close>

definition T_TRIG_CTIME :: nat where [reg_defs]: "T_TRIG_CTIME = 4"

definition TRIGGER_BIT :: "nat \<Rightarrow> u32" where
  "TRIGGER_BIT x = push_bit (x + 22) 1"

definition lock_CTIME :: "bool \<Rightarrow> libera \<Rightarrow> libera" where
  "lock_CTIME b s = s\<lparr>event := (event s)\<lparr>CTIME_sem := b\<rparr>\<rparr>"

text \<open>
  On an error return the caller's variable keeps what it held (\<open>t\<close>), except for the machine time
  once it has been read.
\<close>

definition libera_get_CTIME :: "ctx \<Rightarrow> Ltimestamp \<Rightarrow> libera \<Rightarrow> (int \<times> Ltimestamp \<times> libera) option" where
  "libera_get_CTIME c t s =
     (if lock_intr c s then Some (- ERESTARTSYS, t, s)
      else
        let s = lock_CTIME True s;
            s = writel (TRIGGER_BIT T_TRIG_CTIME) T_SC_EVENTGEN s in
        case getBlockedFromFIFO c (MC_ts T_TRIG_CTIME) s of
          None \<Rightarrow> None
        | Some (ret, m, s) \<Rightarrow>
            if ret \<noteq> 0 then Some (ret, t, lock_CTIME False s)
            else
              (case getFromFIFO (sc_timestamps (event s) T_TRIG_CTIME) of
                 (None, _) \<Rightarrow> Some (- EFAULT, t\<lparr>lmt := m\<rparr>, lock_CTIME False s)
               | (Some x, f) \<Rightarrow>
                   Some (0, \<lparr>lst = x, lmt = m\<rparr>,
                     lock_CTIME False (fifo_upd (SC_ts T_TRIG_CTIME) f s))))"

lemma zero_ring_wf [simp]: "trig_wf (zero_ring x)" "trig_contents (zero_ring x) = []"
  by (simp_all add: trig_wf_def ring_wf_def trig_contents_def ring_contents_def zero_ring_def)

section \<open>Events are filtered\<close>

lemma send_event_blocked: "evid AND event_mask (lgbl s) = 0 \<Longrightarrow> libera_send_event evid p s = (- EINVAL, s)"
  by (simp add: libera_send_event_def)

text \<open>
  An event reaches user space exactly when its bit is set in the event mask. A masked event is
  refused with \<^verbatim>\<open>-EINVAL\<close> and changes nothing; any other is queued behind the events waiting (or,
  when 4095 are waiting, dropped with one critical message), and the readers are woken; the rest of
  the driver state stays as it was.
\<close>

lemma send_event_filters:
  assumes "trig_wf (events (event s))"
  shows "if evid AND event_mask (lgbl s) = 0 then libera_send_event evid p s = (- EINVAL, s)
    else \<exists>s'. libera_send_event evid p s = (0, s') \<and>
      trig_contents (events (event s')) =
        accept 4095 (trig_contents (events (event s))) [\<lparr>ev_id = evid, ev_param = p\<rparr>] \<and>
      klog s' = (if length (trig_contents (events (event s))) = 4095 then [EVENT_FIFO_overflow] else [])
        @ klog s \<and>
      hd (wakes s') = EVENT_queue \<and>
      (\<exists>q. s' = s\<lparr>event := (event s)\<lparr>events := q\<rparr>, klog := klog s', wakes := wakes s'\<rparr>)"
  using ev.enq_accept [OF assms, of "\<lparr>ev_id = evid, ev_param = p\<rparr>"]
    ev.enq_fails_iff_full [OF assms, of "\<lparr>ev_id = evid, ev_param = p\<rparr>"]
  by (auto simp: libera_send_event_def Let_def case_prod_unfold printk_crit_def wake_up_interruptible_def)

section \<open>The blocking read\<close>

text \<open>One sleep of the waiting loop.\<close>

definition nap :: "ctx \<Rightarrow> libera \<Rightarrow> libera" where
  "nap c s = lock_event (schedule c (unlock_event s))"

text \<open>
  The waiting loops of the driver have one shape: return 0 when what is waited for is there, give up
  when a signal is pending, sleep otherwise.
\<close>

locale waiting_loop =
  fixes ready sig :: "libera \<Rightarrow> bool" and sleep :: "libera \<Rightarrow> libera"
    and wait :: "libera \<Rightarrow> (int \<times> libera) option"
  assumes wait_step: "wait s = (if ready s then Some (0, s) else if \<not> sig s then wait (sleep s)
    else Some (- ERESTARTSYS, s))"
begin

lemma naps:
  assumes "\<forall>k<n. \<not> ready ((sleep ^^ k) s) \<and> \<not> sig ((sleep ^^ k) s)"
    and "ready ((sleep ^^ n) s) \<or> sig ((sleep ^^ n) s)"
  shows "wait s = Some (if ready ((sleep ^^ n) s) then 0 else - ERESTARTSYS, (sleep ^^ n) s)"
  using assms
proof (induction n arbitrary: s)
  case 0
  then show ?case by (subst wait_step) auto
next
  case (Suc n)
  have "\<forall>k<n. \<not> ready ((sleep ^^ k) (sleep s)) \<and> \<not> sig ((sleep ^^ k) (sleep s))"
    using Suc.prems(1) by (metis Suc_less_eq funpow_Suc_right o_apply)
  then have "wait (sleep s) = Some (if ready ((sleep ^^ n) (sleep s)) then 0 else - ERESTARTSYS,
      (sleep ^^ n) (sleep s))"
    using Suc.prems(2) by (intro Suc.IH) (simp_all add: funpow_swap1)
  moreover have "wait s = wait (sleep s)"
    using Suc.prems(1) [rule_format, of 0] by (subst wait_step) simp
  ultimately show ?case by (simp add: funpow_swap1)
qed

lemma at_once: "ready s \<Longrightarrow> wait s = Some (0, s)"
  by (subst wait_step) simp

end

interpretation fifo_wait: waiting_loop "\<lambda>s. not_emptyFIFO (fifo_of q s)" "sigpend c" "nap c" "wait_fifo c q"
  for q c
  by unfold_locales (subst wait_fifo.simps, simp add: nap_def)

lemma wait_fifo_naps:
  assumes "\<forall>k<n. emptyFIFO (fifo_of q ((nap c ^^ k) s)) \<and> \<not> sigpend c ((nap c ^^ k) s)"
    and "not_emptyFIFO (fifo_of q ((nap c ^^ n) s)) \<or> sigpend c ((nap c ^^ n) s)"
  shows "wait_fifo c q s =
    Some (if not_emptyFIFO (fifo_of q ((nap c ^^ n) s)) then 0 else - ERESTARTSYS, (nap c ^^ n) s)"
  by (rule fifo_wait.naps) (use assms in \<open>simp_all add: emptyFIFO_def not_emptyFIFO_def\<close>)

lemma wait_fifo_unlimited:
  "(if emptyFIFO (fifo_of q s) then wait_fifo c q s else Some (0, s)) = wait_fifo c q s"
  by (cases "emptyFIFO (fifo_of q s)")
    (simp_all add: emptyFIFO_def not_emptyFIFO_def wait_fifo.simps [of c q s])

lemma fifo_of_unlock [simp]: "fifo_of q (unlock_event s) = fifo_of q s"
  and fifo_of_lock [simp]: "fifo_of q (lock_event s) = fifo_of q s"
  by (cases q; simp add: unlock_event_def lock_event_def)+

lemma fifo_of_upd [simp]: "fifo_of q (fifo_upd q f s) = f"
  by (cases q) simp_all

lemma sem_unlock [simp]: "sem (ev_com (event (unlock_event s))) = False"
  by (simp add: unlock_event_def)

text \<open>
  C27: the blocking read returns as soon as the FIFO has a stamp or a signal is pending, however
  many times the process sleeps before that. With a stamp it returns 0 and the oldest one, which
  leaves the FIFO; interrupted, it returns \<^verbatim>\<open>-ERESTARTSYS\<close> and leaves the FIFO as it is. In both
  cases the lock of the event device is free afterwards.
\<close>

theorem blocking_read_returns:
  fixes n c q s
  defines "t \<equiv> (nap c ^^ n) (lock_event s)"
  assumes "\<not> lock_intr c s"
    and "\<forall>k<n. emptyFIFO (fifo_of q ((nap c ^^ k) (lock_event s))) \<and>
      \<not> sigpend c ((nap c ^^ k) (lock_event s))"
    and "not_emptyFIFO (fifo_of q t) \<or> sigpend c t" and "trig_wf (fifo_of q t)"
  shows "case trig_contents (fifo_of q t) of
      [] \<Rightarrow> getBlockedFromFIFO c q s = Some (- ERESTARTSYS, 0, unlock_event t)
    | x # xs \<Rightarrow> \<exists>s'. getBlockedFromFIFO c q s = Some (0, x, s') \<and>
        trig_contents (fifo_of q s') = xs \<and> \<not> sem (ev_com (event s'))"
proof -
  have ne: "not_emptyFIFO (fifo_of q t) \<longleftrightarrow> trig_contents (fifo_of q t) \<noteq> []"
    using ts.empty_contents [OF assms(5)] by (simp add: emptyFIFO_def not_emptyFIFO_def)
  have w: "wait_fifo c q (lock_event s) =
      Some (if not_emptyFIFO (fifo_of q t) then 0 else - ERESTARTSYS, t)"
    unfolding t_def using assms(3,4) by (intro wait_fifo_naps) (simp_all add: t_def)
  have g: "getBlockedFromFIFO c q s =
      (case wait_fifo c q (lock_event s) of None \<Rightarrow> None
       | Some (ret, s) \<Rightarrow>
            if ret \<noteq> 0 then Some (ret, 0, unlock_event s)
            else
              (case getFromFIFO (fifo_of q s) of
                 (None, _) \<Rightarrow> Some (- EFAULT, 0, unlock_event s)
               | (Some x, f) \<Rightarrow> Some (0, x, unlock_event (fifo_upd q f s))))"
    using assms(2) unfolding getBlockedFromFIFO_def Let_def wait_fifo_unlimited by simp
  show ?thesis
  proof (cases "trig_contents (fifo_of q t)")
    case Nil
    then show ?thesis using ne by (simp add: g w ERESTARTSYS_def)
  next
    case (Cons x xs)
    then have d: "fst (getFromFIFO (fifo_of q t)) = Some x"
      "trig_contents (snd (getFromFIFO (fifo_of q t))) = xs"
      using ts.deq_some [OF assms(5)] by simp_all
    obtain f where f: "getFromFIFO (fifo_of q t) = (Some x, f)"
      using d(1) by (metis prod.collapse)
    with d(2) Cons ne show ?thesis by (simp add: g w)
  qed
qed

text \<open>A process that is woken once, by handlers that have queued a pair of stamps of trigger 4.\<close>

definition one_stamp :: "u64 \<Rightarrow> u64 ring" where
  "one_stamp x = snd (putToFIFO x (zero_ring 0))"

definition woken_ctx :: "u64 \<Rightarrow> u64 \<Rightarrow> ctx" where
  "woken_ctx x m =
     \<lparr>wake = (\<lambda>s. fifo_upd (MC_ts T_TRIG_CTIME) (one_stamp m) (fifo_upd (SC_ts T_TRIG_CTIME) (one_stamp x) s)),
      sigpend = (\<lambda>_. False), lock_intr = (\<lambda>_. False), timeleft = (\<lambda>_ n. n - 1),
      jiffies = (\<lambda>_. 0), dma_waiter = (\<lambda>_. False)\<rparr>"

lemma one_stamp [simp]: "trig_wf (one_stamp x)" "trig_contents (one_stamp x) = [x]"
  by (simp_all add: one_stamp_def ts.wf_enq ts.enq_accept accept_def)

lemma one_stamp_not_empty [simp]: "not_emptyFIFO (one_stamp x)"
  using ts.empty_contents [of "one_stamp x"] by (simp add: emptyFIFO_def not_emptyFIFO_def)

theorem blocking_read_returns_witness:
  "\<exists>s'. getBlockedFromFIFO (woken_ctx 5 7) (MC_ts T_TRIG_CTIME) (libera_bss (\<lambda>_ _. 0)) = Some (0, 7, s') \<and>
     \<not> sem (ev_com (event s'))"
proof -
  have t: "fifo_of (MC_ts T_TRIG_CTIME) ((nap (woken_ctx 5 7) ^^ 1) (lock_event (libera_bss (\<lambda>_ _. 0)))) =
      one_stamp 7"
    by (simp add: nap_def schedule_def woken_ctx_def lock_event_def unlock_event_def)
  show ?thesis
    using blocking_read_returns [of "woken_ctx 5 7" "libera_bss (\<lambda>_ _. 0)" 1 "MC_ts T_TRIG_CTIME", unfolded t]
    by (auto simp: woken_ctx_def libera_bss_def zero_event_dev_def emptyFIFO_def zero_ring_def)
qed

section \<open>The current time\<close>

lemma fifo_upd_ctime [simp]: "CTIME_sem (event (fifo_upd q f s)) = CTIME_sem (event s)"
  by (cases q) simp_all

text \<open>
  C7: the current time is a matched pair. The call first fires the CTIME trigger, once; when the
  two handlers have stamped it, however long the process sleeps for that, the call returns 0 with
  the oldest machine time and the oldest system time of that trigger, takes both off their FIFOs
  and releases the CTIME lock. So if the two FIFOs hold the stamps of the same pulses in the same
  order before, they do so after.
\<close>

theorem ctime_returns_pair:
  fixes n c s
  defines "s1 \<equiv> writel (TRIGGER_BIT T_TRIG_CTIME) T_SC_EVENTGEN (lock_CTIME True s)"
  defines "t \<equiv> (nap c ^^ n) (lock_event s1)"
  assumes intr: "\<not> lock_intr c s" "\<not> lock_intr c s1"
    and wait: "\<forall>k<n. emptyFIFO (mc_timestamps (event ((nap c ^^ k) (lock_event s1))) T_TRIG_CTIME) \<and>
      \<not> sigpend c ((nap c ^^ k) (lock_event s1))"
    and wf: "trig_wf (mc_timestamps (event t) T_TRIG_CTIME)" "trig_wf (sc_timestamps (event t) T_TRIG_CTIME)"
    and mc: "trig_contents (mc_timestamps (event t) T_TRIG_CTIME) = m # ms"
    and sc: "trig_contents (sc_timestamps (event t) T_TRIG_CTIME) = x # xs"
  shows "\<exists>s'. libera_get_CTIME c t0 s = Some (0, \<lparr>lst = x, lmt = m\<rparr>, s') \<and>
    trig_contents (mc_timestamps (event s') T_TRIG_CTIME) = ms \<and>
    trig_contents (sc_timestamps (event s') T_TRIG_CTIME) = xs \<and>
    \<not> CTIME_sem (event s') \<and> \<not> sem (ev_com (event s'))"
proof -
  let ?q = "MC_ts T_TRIG_CTIME"
  have ne: "not_emptyFIFO (fifo_of ?q t)"
    using ts.empty_contents [OF wf(1)] mc by (simp add: emptyFIFO_def not_emptyFIFO_def)
  have w: "wait_fifo c ?q (lock_event s1) = Some (0, t)"
    using wait_fifo_naps [of n ?q c "lock_event s1"] wait ne by (simp add: t_def)
  obtain f where f: "getFromFIFO (fifo_of ?q t) = (Some m, f)" "trig_contents f = ms"
    using ts.deq_some [OF wf(1) mc] by (metis fifo_of.simps(2) prod.collapse)
  have b: "getBlockedFromFIFO c ?q s1 = Some (0, m, unlock_event (fifo_upd ?q f t))"
    using intr(2) f w unfolding getBlockedFromFIFO_def Let_def wait_fifo_unlimited by simp
  let ?u = "unlock_event (fifo_upd ?q f t)"
  have u: "sc_timestamps (event ?u) = sc_timestamps (event t)"
    "mc_timestamps (event ?u) T_TRIG_CTIME = f"
    by (simp_all add: unlock_event_def)
  obtain g where g: "getFromFIFO (sc_timestamps (event t) T_TRIG_CTIME) = (Some x, g)" "trig_contents g = xs"
    using ts.deq_some [OF wf(2) sc] by (metis prod.collapse)
  have "libera_get_CTIME c t0 s =
      Some (0, \<lparr>lst = x, lmt = m\<rparr>, lock_CTIME False (fifo_upd (SC_ts T_TRIG_CTIME) g ?u))"
    using intr(1) b g(1) by (simp add: libera_get_CTIME_def Let_def s1_def [symmetric] u(1) del: fifo_upd.simps)
  then show ?thesis
    using f(2) g(2) by (simp add: lock_CTIME_def unlock_event_def)
qed

theorem ctime_returns_pair_witness:
  "\<exists>s'. libera_get_CTIME (woken_ctx 5 7) zero_stamp (libera_bss (\<lambda>_ _. 0)) =
     Some (0, \<lparr>lst = 5, lmt = 7\<rparr>, s') \<and> \<not> CTIME_sem (event s')"
proof -
  let ?s1 = "writel (TRIGGER_BIT T_TRIG_CTIME) T_SC_EVENTGEN (lock_CTIME True (libera_bss (\<lambda>_ _. 0)))"
  have t: "mc_timestamps (event ((nap (woken_ctx 5 7) ^^ 1) (lock_event ?s1))) T_TRIG_CTIME = one_stamp 7"
    "sc_timestamps (event ((nap (woken_ctx 5 7) ^^ 1) (lock_event ?s1))) T_TRIG_CTIME = one_stamp 5"
    by (simp_all add: nap_def schedule_def woken_ctx_def lock_event_def unlock_event_def)
  have e: "emptyFIFO (mc_timestamps (event (lock_event ?s1)) T_TRIG_CTIME)"
    by (simp add: lock_event_def lock_CTIME_def writel_def libera_bss_def zero_event_dev_def
        emptyFIFO_def zero_ring_def)
  show ?thesis
    using ctime_returns_pair [of "woken_ctx 5 7" "libera_bss (\<lambda>_ _. 0)" 1, unfolded t, of 7 "[]" 5 "[]" zero_stamp] e
    by (auto simp: woken_ctx_def)
qed

end
