(* ===== verification/Trigger.thy ===== *)
theory Trigger
  imports Kernel
begin

text \<open>
  The timing interrupts: the system clock (SC) and machine clock (MC) handlers of
  \<^verbatim>\<open>drivers/libera/libera_main.c\<close> with their EBPP specific parts (\<^verbatim>\<open>ebpp.c\<close>), setting the time on
  a trigger, enabling triggers (\<^verbatim>\<open>libera_event.c\<close>) and the generation of the slow acquisition start
  event. Each handler empties a FIFO of the FPGA; what the FPGA answers is the \<open>fpga\<close> component of
  the bus.
\<close>

section \<open>Constants\<close>

definition T_FIFO_SIZE :: "u32 \<Rightarrow> u32" where "T_FIFO_SIZE x = x AND 0x1FF"
definition TRIG_VECTOR :: u32 where "TRIG_VECTOR = push_bit 22 0x1FF"
definition TRIG_ZERO :: u32 where "TRIG_ZERO = push_bit 22 1"
definition SELF_INC_TRIGGER :: u32 where "SELF_INC_TRIGGER = push_bit 22 0x200"

text \<open>
  \<^verbatim>\<open>TRIG_ALL_MASK\<close> is the text \<^verbatim>\<open>0x1FF << 22\<close> without parentheses, so \<^verbatim>\<open>~TRIG_ALL_MASK\<close> complements
  before it shifts.
\<close>

definition not_TRIG_ALL_MASK :: u32 where "not_TRIG_ALL_MASK = push_bit 22 (NOT 0x1FF)"

definition T_TRIG_TRIGGER :: nat where [reg_defs]: "T_TRIG_TRIGGER = 8"
definition T_TRIG_POST_MORTEM :: nat where [reg_defs]: "T_TRIG_POST_MORTEM = 7"
definition T_TRIG_MC_PRESCALER :: nat where [reg_defs]: "T_TRIG_MC_PRESCALER = 6"
definition T_TRIG_SC_PRESCALER :: nat where [reg_defs]: "T_TRIG_SC_PRESCALER = 5"
definition T_EG_SA :: nat where [reg_defs]: "T_EG_SA = 28"
definition LIBERA_SETTIME_ST :: u32 where [reg_defs]: "LIBERA_SETTIME_ST = 1"
definition LIBERA_SETTIME_MT :: u32 where [reg_defs]: "LIBERA_SETTIME_MT = 2"

section \<open>Enabling triggers\<close>

definition libera_sctrig_enable :: "u32 \<Rightarrow> libera \<Rightarrow> int \<times> libera" where
  "libera_sctrig_enable msk s =
     (if msk AND not_TRIG_ALL_MASK \<noteq> 0 then (-1, s)
      else
        let s = s\<lparr>event := (event s)\<lparr>sc_trigVec := sc_trigVec (event s) OR msk\<rparr>\<rparr>
        in (0, writel (sc_trigVec (event s) OR 0x80000000) T_SC_TRIGGER_MASK s))"

definition libera_mctrig_enable :: "u32 \<Rightarrow> libera \<Rightarrow> int \<times> libera" where
  "libera_mctrig_enable msk s =
     (if msk AND not_TRIG_ALL_MASK \<noteq> 0 then (-1, s)
      else
        let s = s\<lparr>event := (event s)\<lparr>mc_trigVec := mc_trigVec (event s) OR msk\<rparr>\<rparr>
        in (0, writel (mc_trigVec (event s) OR 0x80000000) T_MC_TRIGGER_MASK s))"

section \<open>Setting the time\<close>

definition libera_set_LST :: "libera \<Rightarrow> libera" where
  "libera_set_LST s =
     (let trig = getFromCircBuf (paired_timestamps (event s) T_TRIG_TRIGGER);
          st = set_time (event s);
          st = st\<lparr>lst_off := lst_ref st - lst_scphi st - lst trig\<rparr>
      in s\<lparr>event := (event s)\<lparr>set_time := st\<rparr>\<rparr>)"

definition libera_set_LMT :: "libera \<Rightarrow> libera" where
  "libera_set_LMT s =
     (let trig = getFromCircBuf (paired_timestamps (event s) T_TRIG_TRIGGER);
          st = set_time (event s);
          off_pll_old = lmt_off_pll st;
          st = st\<lparr>lmt_off_all := lmt_ref st - lmt_mcphi st - lmt trig + off_pll_old\<rparr>;
          st = st\<lparr>lmt_off_pll :=
                 (if g_dfa (lgbl s) \<noteq> 0
                  then ucast (snd (div_u64_rem (lmt_off_all st) (g_d (lgbl s) * g_dfa (lgbl s))))
                  else 0)\<rparr>;
          st = st\<lparr>lmt_off := lmt_off_all st - lmt_off_pll st\<rparr>;
          s = s\<lparr>event := (event s)\<lparr>set_time := st\<rparr>\<rparr>;
          s = writel SA_STOP SA_CONTROL s;
          head = \<lparr>eg_time = lmt trig + ucast (20 * 1024 * g_dfa (lgbl s) * g_d (lgbl s))
                              - (lmt_off_pll st - off_pll_old),
                  eg_event = push_bit T_EG_SA 1\<rparr>
      in s\<lparr>event := (event s)\<lparr>list_head := head\<rparr>\<rparr>)"

definition libera_set_time :: "libera \<Rightarrow> libera" where
  "libera_set_time s =
     (let s = (if update (set_time (event s)) AND LIBERA_SETTIME_ST \<noteq> 0 then libera_set_LST s else s);
          s = (if update (set_time (event s)) AND LIBERA_SETTIME_MT \<noteq> 0 then libera_set_LMT s else s)
      in s\<lparr>event := (event s)\<lparr>set_time := (set_time (event s))\<lparr>update := 0\<rparr>\<rparr>\<rparr>)"

section \<open>EBPP specific parts\<close>

text \<open>Queue a stamp; a full FIFO is reported if its trigger is enabled.\<close>

definition put_sc_stamp :: "nat \<Rightarrow> u32 \<Rightarrow> u64 \<Rightarrow> libera \<Rightarrow> libera" where
  "put_sc_stamp i m x s =
     (let (r, q) = putToFIFO x (sc_timestamps (event s) i);
          s = s\<lparr>event := (event s)\<lparr>sc_timestamps := (sc_timestamps (event s))(i := q)\<rparr>\<rparr>
      in if r < 0 \<and> sc_trigVec (event s) AND m \<noteq> 0 then printk_crit (SC_FIFO_overflow i) s else s)"

definition put_mc_stamp :: "nat \<Rightarrow> u32 \<Rightarrow> u64 \<Rightarrow> libera \<Rightarrow> libera" where
  "put_mc_stamp i m x s =
     (let (r, q) = putToFIFO x (mc_timestamps (event s) i);
          s = s\<lparr>event := (event s)\<lparr>mc_timestamps := (mc_timestamps (event s))(i := q)\<rparr>\<rparr>
      in if r < 0 \<and> mc_trigVec (event s) AND m \<noteq> 0 then printk_crit (MC_FIFO_overflow i) s else s)"

definition put_pair_lst :: "nat \<Rightarrow> u64 \<Rightarrow> libera \<Rightarrow> libera" where
  "put_pair_lst i x s =
     s\<lparr>event := (event s)\<lparr>paired_timestamps :=
        (paired_timestamps (event s))(i := putLSTtoCircBuf x (paired_timestamps (event s) i))\<rparr>\<rparr>"

definition put_pair_lmt :: "nat \<Rightarrow> u64 \<Rightarrow> libera \<Rightarrow> libera" where
  "put_pair_lmt i x s =
     s\<lparr>event := (event s)\<lparr>paired_timestamps :=
        (paired_timestamps (event s))(i := putLMTtoCircBuf x (paired_timestamps (event s) i))\<rparr>\<rparr>"

definition libera_valid_trigger :: "libera \<Rightarrow> nat \<Rightarrow> bool" where
  "libera_valid_trigger s trigno = True"

definition libera_SCtrig_specific :: "u64 \<Rightarrow> u64 \<Rightarrow> u32 \<Rightarrow> nat \<Rightarrow> libera \<Rightarrow> libera" where
  "libera_SCtrig_specific stamp stamp_raw m i s =
     (if i = T_TRIG_MC_PRESCALER \<or> i = T_TRIG_SC_PRESCALER then put_sc_stamp i m stamp_raw s
      else if i = T_TRIG_POST_MORTEM then
        (if \<not> pm_freezed (cfg s) then put_pair_lst i stamp s else s)
      else put_sc_stamp i m stamp s)"

definition libera_MCtrig_specific :: "u64 \<Rightarrow> u64 \<Rightarrow> u32 \<Rightarrow> nat \<Rightarrow> libera \<Rightarrow> libera" where
  "libera_MCtrig_specific stamp stamp_raw m i s =
     (if i = T_TRIG_POST_MORTEM then
        (if \<not> pm_freezed (cfg s) then
           let s = put_pair_lmt i stamp s;
               s = send_event LIBERA_EVENT_PM (pmsize (modp s)) s
           in if param (cfg s) LIBERA_CFG_PM_MODE \<noteq> 0 then s\<lparr>cfg := (cfg s)\<lparr>pm_freezed := True\<rparr>\<rparr>
              else s
         else s)
      else if i = T_TRIG_MC_PRESCALER then
        put_mc_stamp i m (stamp_raw - lmt_off_pll (set_time (event s))) s
      else put_mc_stamp i m stamp s)"

text \<open>The start of the slow acquisition, scheduled in the period before it or at its beginning.\<close>

definition libera_schelp_handler_specific :: "libera \<Rightarrow> libera" where
  "libera_schelp_handler_specific s = s"

definition libera_mchelp_handler_specific :: "libera \<Rightarrow> libera" where
  "libera_mchelp_handler_specific s =
     (let e = event s in
      if mc_time e + 0x4000000 \<le> eg_time (list_head e) \<and>
         mc_time e + 0x8000000 > eg_time (list_head e)
      then
        let offset26 = eg_time (list_head e) - (mc_time e + 0x4000000) in
        if offset26 < 0x2000000 then
          writel (ucast (offset26 AND 0xFFFFFFFF)) T_MC_EVENTGENH
            (writel (eg_event (list_head e)) T_MC_EVENTGENL s)
        else s
      else s)"

definition libera_sc_selfinc_specific :: "libera \<Rightarrow> libera" where
  "libera_sc_selfinc_specific s = s"

definition libera_mc_selfinc_specific :: "libera \<Rightarrow> libera" where
  "libera_mc_selfinc_specific s =
     (let e = event s in
      if mc_time e \<le> eg_time (list_head e) \<and> mc_time e + 0x4000000 > eg_time (list_head e)
      then
        let offset26 = eg_time (list_head e) - mc_time e in
        if offset26 \<ge> 0x2000000 then
          writel (ucast (offset26 AND 0xFFFFFFFF)) T_MC_EVENTGENH
            (writel (eg_event (list_head e)) T_MC_EVENTGENL s)
        else s
      else s)"

section \<open>The handlers\<close>

text \<open>What the two handlers do for trigger \<open>i\<close>, the body of their \<^verbatim>\<open>switch\<close>.\<close>

definition sc_trigger :: "u64 \<Rightarrow> u64 \<Rightarrow> nat \<Rightarrow> u32 \<Rightarrow> libera \<Rightarrow> libera" where
  "sc_trigger stamp stamp_raw i m s =
     (if i = T_TRIG_TRIGGER then
        (if param (cfg s) LIBERA_CFG_TRIGMODE = LIBERA_TRIGMODE_SET then put_pair_lst i stamp_raw s
         else put_pair_lst i stamp s)
      else libera_SCtrig_specific stamp stamp_raw m i s)"

definition mc_trigger :: "u64 \<Rightarrow> u64 \<Rightarrow> nat \<Rightarrow> u32 \<Rightarrow> libera \<Rightarrow> libera" where
  "mc_trigger stamp stamp_raw i m s =
     (if i = T_TRIG_TRIGGER then
        let trigmode = param (cfg s) LIBERA_CFG_TRIGMODE in
        if trigmode = LIBERA_TRIGMODE_SET then
          let s = put_pair_lmt i stamp_raw s;
              s = libera_set_time s;
              s = s\<lparr>cfg := (cfg s)\<lparr>param := (param (cfg s))(LIBERA_CFG_TRIGMODE := LIBERA_TRIGMODE_GET)\<rparr>\<rparr>
          in send_event LIBERA_EVENT_TRIGSET 0 s
        else if \<not> libera_valid_trigger s i then s
        else
          let s = put_pair_lmt i stamp s
          in if trigmode = LIBERA_TRIGMODE_GET then send_event LIBERA_EVENT_TRIGGET 0 s else s
      else libera_MCtrig_specific stamp stamp_raw m i s)"

text \<open>
  The search for the next trigger bit and the loop over the trigger vector. The search shifts a
  32-bit mask, so it never ends once the mask has become 0: 32 steps decide it. The loop clears
  one bit of the vector each time. \<open>None\<close> is a search or a loop that does not end.
\<close>

fun next_trigger :: "nat \<Rightarrow> u32 \<Rightarrow> u32 \<Rightarrow> nat \<Rightarrow> (u32 \<times> nat) option" where
  "next_trigger 0 sl m i = None"
| "next_trigger (Suc n) sl m i =
     (if sl AND m \<noteq> 0 then Some (m, i) else next_trigger n sl (push_bit 1 m) (i + 1))"

fun trig_loop ::
  "nat \<Rightarrow> (nat \<Rightarrow> u32 \<Rightarrow> 's \<Rightarrow> 's) \<Rightarrow> u32 \<Rightarrow> u32 \<Rightarrow> nat \<Rightarrow> 's \<Rightarrow> 's option"
where
  "trig_loop 0 f sl m i s = None"
| "trig_loop (Suc n) f sl m i s =
     (if sl AND TRIG_VECTOR = 0 then Some s
      else case next_trigger 32 sl m i of
             None \<Rightarrow> None
           | Some (m, i) \<Rightarrow> trig_loop n f (sl AND NOT m) m i (f i m s))"

text \<open>One entry of the FPGA's FIFO.\<close>

definition sc_entry :: "u32 \<Rightarrow> u32 \<Rightarrow> libera \<Rightarrow> libera option" where
  "sc_entry sl sh s =
     (let stamp = ucast (sh AND 0x03FFFFFF) :: u64;
          s = (if sl AND SELF_INC_TRIGGER \<noteq> 0
               then libera_sc_selfinc_specific
                      (s\<lparr>event := (event s)\<lparr>sc_time := sc_time (event s) + 0x4000000\<rparr>\<rparr>)
               else s);
          stamp = stamp OR (sc_time (event s) AND 0xFFFFFFFFFC000000);
          stamp_raw = stamp;
          stamp = stamp + lst_off (set_time (event s))
      in trig_loop 10 (sc_trigger stamp stamp_raw) sl TRIG_ZERO 0 s)"

definition mc_entry :: "u32 \<Rightarrow> u32 \<Rightarrow> libera \<Rightarrow> libera option" where
  "mc_entry sl sh s =
     (let stamp = ucast (sh AND 0x3FFFFFF) :: u64;
          s = (if sl AND SELF_INC_TRIGGER \<noteq> 0
               then libera_mc_selfinc_specific
                      (s\<lparr>event := (event s)\<lparr>mc_time := mc_time (event s) + 0x4000000\<rparr>\<rparr>)
               else s);
          stamp = stamp OR (mc_time (event s) AND 0xFFFFFFFFFC000000);
          stamp_raw = stamp;
          stamp = stamp + lmt_off (set_time (event s))
      in trig_loop 10 (mc_trigger stamp stamp_raw) sl TRIG_ZERO 0 s)"

text \<open>
  The outer loop, the same for both clocks up to the registers it reads. It ends when the FPGA
  reports an empty FIFO; \<open>None\<close> is a handler that never returns.
\<close>

partial_function (option) timing_loop ::
  "u32 \<Rightarrow> u32 \<Rightarrow> u32 \<Rightarrow> (u32 \<Rightarrow> u32 \<Rightarrow> libera \<Rightarrow> libera option) \<Rightarrow> u32 \<Rightarrow> libera \<Rightarrow> libera option"
where
  "timing_loop statusl statush fifoadv entry sl s =
     (if T_FIFO_SIZE sl = 0 then Some s
      else
        let (sh, s) = readl statush s;
            (tex, s) = readl fifoadv s
        in Option.bind (entry sl sh s) (\<lambda>s.
             let s = snd (readl SBC_IRQ s);
                 (sl, s) = readl statusl s;
                 s = snd (readl SBC_IRQ s)
             in timing_loop statusl statush fifoadv entry sl s))"

definition libera_sc_handler :: "libera \<Rightarrow> libera option" where
  "libera_sc_handler s =
     (let (sl, s) = readl T_SC_STATUSL s
      in map_option (wake_up_interruptible SC_queue)
           (timing_loop T_SC_STATUSL T_SC_STATUSH T_SC_FIFOADV sc_entry sl s))"

definition libera_mc_handler :: "libera \<Rightarrow> libera option" where
  "libera_mc_handler s =
     (let (sl, s) = readl T_MC_STATUSL s
      in map_option (wake_up_interruptible MC_queue)
           (timing_loop T_MC_STATUSL T_MC_STATUSH T_MC_FIFOADV mc_entry sl s))"

definition libera_schelp_handler :: "libera \<Rightarrow> libera" where
  "libera_schelp_handler s = libera_schelp_handler_specific s"

definition libera_mchelp_handler :: "libera \<Rightarrow> libera" where
  "libera_mchelp_handler s = libera_mchelp_handler_specific s"

definition libera_scmchelp_handler :: "libera \<Rightarrow> libera" where
  "libera_scmchelp_handler s =
     (let (int_status, s) = readl SBC_IRQ2 s;
          s = (if int_status AND push_bit 0 1 \<noteq> 0 then libera_schelp_handler s else s)
      in if int_status AND push_bit 8 1 \<noteq> 0 then libera_mchelp_handler s else s)"

section \<open>The trigger vector\<close>

text \<open>The triggers of a status word, in the order they are handled.\<close>

definition triggers :: "u32 \<Rightarrow> nat list" where
  "triggers sl = filter (\<lambda>i. bit sl (22 + i)) [0..<9]"

lemma and_trigger_bit: "sl AND 2 ^ k = 0 \<longleftrightarrow> \<not> bit (sl :: u32) k"
  by (rule and_exp_eq_0_iff_not_bit)

lemma bit_clear: "bit (sl AND NOT (2 ^ k) :: u32) n \<longleftrightarrow> bit sl n \<and> n \<noteq> k"
  by (auto simp: bit_simps bit_not_iff bit_exp_iff dest: bit_imp_le_length)

lemma trig_vector_zero: "sl AND TRIG_VECTOR = 0 \<longleftrightarrow> (\<forall>j<9. \<not> bit sl (22 + j))"
proof -
  have v: "bit TRIG_VECTOR n \<longleftrightarrow> 22 \<le> n \<and> n < 31" for n
  proof -
    have e: "TRIG_VECTOR = push_bit 22 (mask 9)"
      by (simp add: TRIG_VECTOR_def mask_eq_exp_minus_1)
    show ?thesis unfolding e bit_push_bit_iff bit_mask_iff by auto
  qed
  have "sl AND TRIG_VECTOR = 0 \<longleftrightarrow> (\<forall>n. \<not> (bit sl n \<and> 22 \<le> n \<and> n < 31))"
  proof
    assume "sl AND TRIG_VECTOR = 0"
    then have "\<not> bit (sl AND TRIG_VECTOR) n" for n by simp
    then show "\<forall>n. \<not> (bit sl n \<and> 22 \<le> n \<and> n < 31)" by (simp add: bit_and_iff v)
  next
    assume "\<forall>n. \<not> (bit sl n \<and> 22 \<le> n \<and> n < 31)"
    then show "sl AND TRIG_VECTOR = 0" by (intro bit_word_eqI) (auto simp: bit_and_iff v)
  qed
  also have "\<dots> \<longleftrightarrow> (\<forall>j<9. \<not> bit sl (22 + j))"
  proof safe
    fix n assume a: "\<forall>j<9. \<not> bit sl (22 + j)" and n: "bit sl n" "22 \<le> n" "n < 31"
    from n obtain j where "n = 22 + j" by (metis le_Suc_ex)
    with a n show False by simp
  next
    fix j assume "\<forall>n. \<not> (bit sl n \<and> 22 \<le> n \<and> n < 31)" "j < (9::nat)" "bit sl (22 + j)"
    then show False by (auto dest!: spec [of _ "22 + j"])
  qed
  finally show ?thesis .
qed

lemma next_trigger_finds:
  assumes "i \<le> j" "j < 9" "bit sl (22 + j)" "\<forall>k. i \<le> k \<and> k < j \<longrightarrow> \<not> bit sl (22 + k)" "j - i < n"
  shows "next_trigger n sl (2 ^ (22 + i)) i = Some (2 ^ (22 + j), j)"
  using assms
proof (induction n arbitrary: i)
  case 0
  then show ?case by simp
next
  case (Suc n)
  show ?case
  proof (cases "i = j")
    case True
    then show ?thesis using Suc.prems by (simp add: and_trigger_bit)
  next
    case False
    with Suc.prems have "\<not> bit sl (22 + i)" "i + 1 \<le> j" by simp_all
    moreover have "push_bit 1 (2 ^ (22 + i) :: u32) = 2 ^ (22 + (i + 1))"
      by (simp add: push_bit_eq_mult power_add)
    moreover have "next_trigger n sl (2 ^ (22 + (i + 1))) (i + 1) =
        Some (2 ^ (22 + j), j)"
      using Suc.prems False by (intro Suc.IH) auto
    ultimately show ?thesis using and_trigger_bit [of sl "22 + i"] by simp
  qed
qed

lemma filter_upt_first:
  assumes "i \<le> j" "j < n" "P j" "\<forall>k. i \<le> k \<and> k < j \<longrightarrow> \<not> P k"
  shows "filter P [i..<n] = j # filter (\<lambda>k. P k \<and> k \<noteq> j) [j..<n]"
proof -
  have c: "[j..<n] = j # [Suc j..<n]" using assms(2) by (rule upt_conv_Cons)
  moreover have "[i..<n] = [i..<j] @ [j..<n]"
    using upt_add_eq_append [OF assms(1), of "n - j"] assms(2) by simp
  moreover have "filter P [i..<j] = []" using assms by (auto simp: filter_empty_conv)
  moreover have "filter P [Suc j..<n] = filter (\<lambda>k. P k \<and> k \<noteq> j) [Suc j..<n]"
    by (rule filter_cong) auto
  ultimately show ?thesis using assms(3) by simp
qed

lemma trig_loop_fold:
  assumes "\<forall>j<i. \<not> bit sl (22 + j)" "i \<le> 9"
    "length (filter (\<lambda>k. bit sl (22 + k)) [i..<9]) < n"
  shows "trig_loop n f sl (2 ^ (22 + i)) i s =
    Some (fold (\<lambda>k. f k (2 ^ (22 + k))) (filter (\<lambda>k. bit sl (22 + k)) [i..<9]) s)"
  using assms
proof (induction n arbitrary: sl i s)
  case 0
  then show ?case by simp
next
  case (Suc n)
  show ?case
  proof (cases "\<exists>j<9. bit sl (22 + j)")
    case False
    then have "filter (\<lambda>k. bit sl (22 + k)) [i..<9] = []" by (auto simp: filter_empty_conv)
    with False show ?thesis by (simp add: trig_vector_zero)
  next
    case True
    define j where "j = (LEAST j. j < 9 \<and> bit sl (22 + j))"
    from True have j: "j < 9" "bit sl (22 + j)" unfolding j_def by (metis (mono_tags, lifting) LeastI)+
    have least: "\<not> bit sl (22 + k)" if "k < j" for k
      using that not_less_Least [of k "\<lambda>j. j < 9 \<and> bit sl (22 + j)"] j(1) unfolding j_def
      by (metis (mono_tags, lifting) order.strict_trans)
    have ij: "i \<le> j" using Suc.prems(1) j(2) by (meson not_le)
    let ?sl = "sl AND NOT (2 ^ (22 + j))"
    have split: "filter (\<lambda>k. bit sl (22 + k)) [i..<9] = j # filter (\<lambda>k. bit ?sl (22 + k)) [j..<9]"
      using filter_upt_first [of i j 9 "\<lambda>k. bit sl (22 + k)"] ij j least by (simp add: bit_clear)
    have "next_trigger 32 sl (2 ^ (22 + i)) i = Some (2 ^ (22 + j), j)"
      using ij j least by (intro next_trigger_finds) auto
    moreover have "trig_loop n f ?sl (2 ^ (22 + j)) j (f j (2 ^ (22 + j)) s) =
        Some (fold (\<lambda>k. f k (2 ^ (22 + k))) (filter (\<lambda>k. bit ?sl (22 + k)) [j..<9])
          (f j (2 ^ (22 + j)) s))"
      using Suc.prems j least split by (intro Suc.IH) (auto simp: bit_clear)
    moreover have "sl AND TRIG_VECTOR \<noteq> 0" using True by (auto simp: trig_vector_zero)
    ultimately show ?thesis by (simp add: split)
  qed
qed

lemma trig_loop_vector:
  "trig_loop 10 f sl TRIG_ZERO 0 s = Some (fold (\<lambda>k. f k (2 ^ (22 + k))) (triggers sl) s)"
proof -
  have "length (filter (\<lambda>k. bit sl (22 + k)) [0..<9]) \<le> length [0..<9]" by (rule length_filter_le)
  then show ?thesis
    using trig_loop_fold [of 0 sl 10 f s] by (simp add: triggers_def TRIG_ZERO_def)
qed

section \<open>Draining the FIFO of a timing module\<close>

text \<open>
  What the FPGA promises: its status registers show the entry at the head of the module's FIFO, a
  size of zero once all entries have been taken, and reading the advance register takes one. The
  number of reads of that register in the history of accesses is the position.
\<close>

definition advances :: "u32 \<Rightarrow> io list \<Rightarrow> nat" where
  "advances a tr = length (filter (\<lambda>x. case x of Rd b _ \<Rightarrow> b = a | Wr _ _ \<Rightarrow> False) tr)"

definition timing_fifo ::
  "u32 \<Rightarrow> u32 \<Rightarrow> u32 \<Rightarrow> (u32 \<times> u32) list \<Rightarrow> (io list \<Rightarrow> u32 \<Rightarrow> u32) \<Rightarrow> io list \<Rightarrow> bool"
where
  "timing_fifo statusl statush fifoadv es f tr0 \<longleftrightarrow>
     (\<forall>e\<in>set es. T_FIFO_SIZE (fst e) \<noteq> 0) \<and>
     (\<forall>tr. let k = advances fifoadv tr - advances fifoadv tr0 in
        if k < length es then f tr statusl = fst (es ! k) \<and> f tr statush = snd (es ! k)
        else T_FIFO_SIZE (f tr statusl) = 0)"

text \<open>One pass of the loop, with its reads of the registers.\<close>

definition timing_pass ::
  "u32 \<Rightarrow> u32 \<Rightarrow> u32 \<Rightarrow> (u32 \<Rightarrow> u32 \<Rightarrow> libera \<Rightarrow> libera) \<Rightarrow> u32 \<times> u32 \<Rightarrow> libera \<Rightarrow> libera"
where
  "timing_pass statusl statush fifoadv act e s =
     (let s = snd (readl fifoadv (snd (readl statush s)));
          s = act (fst e) (snd e) s;
          s = snd (readl statusl (snd (readl SBC_IRQ s)))
      in snd (readl SBC_IRQ s))"

text \<open>
  An entry handler that always returns, never reads the advance register and leaves the FPGA
  alone handles every entry, once and in order, and the loop ends.
\<close>

locale timing_module =
  fixes statusl statush fifoadv :: u32
    and entry :: "u32 \<Rightarrow> u32 \<Rightarrow> libera \<Rightarrow> libera option"
    and act :: "u32 \<Rightarrow> u32 \<Rightarrow> libera \<Rightarrow> libera"
  assumes entry_act: "entry sl sh s = Some (act sl sh s)"
    and act_fpga: "fpga (act sl sh s) = fpga s"
    and act_advances: "advances fifoadv (trace (act sl sh s)) = advances fifoadv (trace s)"
    and regs_apart: "statusl \<noteq> fifoadv" "statush \<noteq> fifoadv" "SBC_IRQ \<noteq> fifoadv"
begin

abbreviation pass :: "u32 \<times> u32 \<Rightarrow> libera \<Rightarrow> libera" where
  "pass \<equiv> timing_pass statusl statush fifoadv act"

lemma pass_fpga: "fpga (pass e s) = fpga s"
  by (simp add: timing_pass_def Let_def act_fpga)

lemma pass_advances: "advances fifoadv (trace (pass e s)) = Suc (advances fifoadv (trace s))"
proof -
  have r: "advances fifoadv (Rd b v # tr) = (if b = fifoadv then Suc (advances fifoadv tr)
      else advances fifoadv tr)" for b v tr
    by (simp add: advances_def)
  show ?thesis by (simp add: timing_pass_def Let_def r act_advances regs_apart)
qed

lemma loop_drains:
  assumes "timing_fifo statusl statush fifoadv es (fpga s) tr0"
    and "advances fifoadv (trace s) = advances fifoadv tr0 + k" "k \<le> length es"
    and "k < length es \<Longrightarrow> sl = fst (es ! k)" "k = length es \<Longrightarrow> T_FIFO_SIZE sl = 0"
  shows "timing_loop statusl statush fifoadv entry sl s = Some (fold pass (drop k es) s)"
  using assms
proof (induction "length es - k" arbitrary: k s sl)
  case 0
  then have "k = length es" by simp
  with 0 show ?case by (subst timing_loop.simps) simp
next
  case (Suc n)
  then have k: "k < length es" by simp
  note fifo = Suc.prems(1) [unfolded timing_fifo_def]
  have ne: "T_FIFO_SIZE sl \<noteq> 0" using fifo k Suc.prems(4) by simp
  have sh: "fpga s (trace s) statush = snd (es ! k)"
    using fifo k Suc.prems(2) by (auto simp: Let_def dest!: spec [of _ "trace s"])
  have step: "timing_loop statusl statush fifoadv entry sl s =
      timing_loop statusl statush fifoadv entry
        (fst (readl statusl (snd (readl SBC_IRQ (act sl (snd (es ! k))
          (snd (readl fifoadv (snd (readl statush s)))))))))
        (pass (es ! k) s)"
    using ne Suc.prems(4) [OF k]
    by (subst timing_loop.simps) (simp add: case_prod_unfold Let_def entry_act sh timing_pass_def)
  let ?s3 = "snd (readl SBC_IRQ (act sl (snd (es ! k)) (snd (readl fifoadv (snd (readl statush s))))))"
  have r: "advances fifoadv (Rd b v # tr) = (if b = fifoadv then Suc (advances fifoadv tr)
      else advances fifoadv tr)" for b v tr
    by (simp add: advances_def)
  have adv3: "advances fifoadv (trace ?s3) = advances fifoadv tr0 + Suc k" "fpga ?s3 = fpga s"
    using Suc.prems(2) by (simp_all add: r act_advances act_fpga regs_apart)
  have "timing_loop statusl statush fifoadv entry (fst (readl statusl ?s3)) (pass (es ! k) s) =
      Some (fold pass (drop (Suc k) es) (pass (es ! k) s))"
  proof (rule Suc.hyps(1))
    show "n = length es - Suc k" using Suc.hyps(2) by simp
    show "timing_fifo statusl statush fifoadv es (fpga (pass (es ! k) s)) tr0"
      using Suc.prems(1) by (simp add: pass_fpga)
    show "advances fifoadv (trace (pass (es ! k) s)) = advances fifoadv tr0 + Suc k"
      using Suc.prems(2) by (simp add: pass_advances)
    show "Suc k \<le> length es" using k by simp
    have next_st: "let j = Suc k in if j < length es
        then fpga s (trace ?s3) statusl = fst (es ! j) \<and> fpga s (trace ?s3) statush = snd (es ! j)
        else T_FIFO_SIZE (fpga s (trace ?s3) statusl) = 0"
      using fifo adv3(1) by (auto simp: Let_def dest!: spec [of _ "trace ?s3"])
    show "fst (readl statusl ?s3) = fst (es ! Suc k)" if "Suc k < length es"
      using that next_st adv3(2) by (simp add: Let_def)
    show "T_FIFO_SIZE (fst (readl statusl ?s3)) = 0" if "Suc k = length es"
      using that next_st adv3(2) by (simp add: Let_def)
  qed
  moreover have "drop k es = es ! k # drop (Suc k) es" using k by (rule Cons_nth_drop_Suc [symmetric])
  ultimately show ?case using step by simp
qed

lemma handler_drains:
  assumes "timing_fifo statusl statush fifoadv es (fpga s) (trace s)"
  shows "timing_loop statusl statush fifoadv entry (fst (readl statusl s)) (snd (readl statusl s)) =
    Some (fold pass es (snd (readl statusl s)))"
proof -
  have "timing_loop statusl statush fifoadv entry (fst (readl statusl s)) (snd (readl statusl s)) =
      Some (fold pass (drop 0 es) (snd (readl statusl s)))"
  proof (rule loop_drains)
    show "timing_fifo statusl statush fifoadv es (fpga (snd (readl statusl s))) (trace s)"
      using assms by simp
    show "advances fifoadv (trace (snd (readl statusl s))) = advances fifoadv (trace s) + 0"
      using regs_apart by (simp add: advances_def)
  qed (use assms in \<open>auto simp: timing_fifo_def Let_def dest!: spec [of _ "trace s"]\<close>)
  then show ?thesis by simp
qed

end

section \<open>The entry handlers\<close>

text \<open>The 64-bit stamp of an entry: 26 bits from the FPGA, 38 from the driver's count.\<close>

definition stamp64 :: "u32 \<Rightarrow> u64 \<Rightarrow> u64" where
  "stamp64 sh t = ucast (sh AND 0x3FFFFFF) OR (t AND 0xFFFFFFFFFC000000)"

lemma mask26: "(0x3FFFFFF :: 'a::len word) = mask 26" by (simp add: mask_eq_exp_minus_1)

lemma stamp64_nat:
  "unat (stamp64 sh t) = unat t div 67108864 * 67108864 + unat sh mod 67108864"
proof -
  have hi: "t AND 0xFFFFFFFFFC000000 = push_bit 26 (drop_bit 26 t)"
  proof (rule bit_word_eqI)
    fix n assume "n < LENGTH(64)"
    have e: "(0xFFFFFFFFFC000000 :: u64) = NOT (mask 26)" by (simp add: mask_eq_exp_minus_1)
    show "bit (t AND 0xFFFFFFFFFC000000) n = bit (push_bit 26 (drop_bit 26 t)) n"
      using \<open>n < LENGTH(64)\<close> unfolding e by (auto simp: bit_simps)
  qed
  have lo: "unat (ucast (sh AND 0x3FFFFFF) :: u64) = unat sh mod 67108864"
    by (simp add: mask26 unat_and_mask)
  have "(ucast (sh AND 0x3FFFFFF) :: u64) AND push_bit 26 (drop_bit 26 t) = 0"
    by (rule bit_word_eqI) (auto simp: mask26 bit_simps)
  then have sum: "stamp64 sh t = ucast (sh AND 0x3FFFFFF) + push_bit 26 (drop_bit 26 t)"
    unfolding stamp64_def hi by (rule disjunctive_add_eq_or [symmetric])
  have "unat (push_bit 26 (drop_bit 26 t)) = unat t div 67108864 * 67108864"
  proof -
    have "unat (drop_bit 26 t) = unat t div 67108864"
      by (simp add: drop_bit_eq_div unat_div)
    moreover have "unat t div 67108864 * 67108864 < 18446744073709551616"
      using unat_lt_2p64 [of t] by linarith
    ultimately show ?thesis by (simp add: push_bit_eq_mult unat_mult_u64 unat_div)
  qed
  moreover have "unat t div 67108864 * 67108864 + unat sh mod 67108864 < 18446744073709551616"
  proof -
    have "unat t div 67108864 < 274877906944"
      using unat_lt_2p64 [of t] by (simp add: less_mult_imp_div_less)
    moreover have "unat sh mod 67108864 < 67108864" by simp
    ultimately show ?thesis by linarith
  qed
  ultimately show ?thesis using lo unfolding sum by (subst unat_add_u64_small) simp_all
qed

text \<open>The driver's count after an entry: a self-increment counts another period of 26 bits.\<close>

definition next_count :: "u32 \<Rightarrow> u64 \<Rightarrow> u64" where
  "next_count sl t = t + (if sl AND SELF_INC_TRIGGER \<noteq> 0 then 0x4000000 else 0)"

definition sc_act :: "u32 \<Rightarrow> u32 \<Rightarrow> libera \<Rightarrow> libera" where
  "sc_act sl sh s =
     (let t = next_count sl (sc_time (event s));
          raw = stamp64 sh t
      in fold (\<lambda>i. sc_trigger (raw + lst_off (set_time (event s))) raw i (2 ^ (22 + i))) (triggers sl)
           (s\<lparr>event := (event s)\<lparr>sc_time := t\<rparr>\<rparr>))"

definition mc_act :: "u32 \<Rightarrow> u32 \<Rightarrow> libera \<Rightarrow> libera" where
  "mc_act sl sh s =
     (let t = next_count sl (mc_time (event s));
          raw = stamp64 sh t;
          s = s\<lparr>event := (event s)\<lparr>mc_time := t\<rparr>\<rparr>;
          s = (if sl AND SELF_INC_TRIGGER \<noteq> 0 then libera_mc_selfinc_specific s else s)
      in fold (\<lambda>i. mc_trigger (raw + lmt_off (set_time (event s))) raw i (2 ^ (22 + i))) (triggers sl) s)"

lemma selfinc_event [simp]: "event (libera_mc_selfinc_specific s) = event s"
  by (simp add: libera_mc_selfinc_specific_def Let_def writel_def)

lemma sc_entry_act: "sc_entry sl sh s = Some (sc_act sl sh s)"
  by (simp add: sc_entry_def sc_act_def next_count_def trig_loop_vector stamp64_def libera_sc_selfinc_specific_def Let_def)

lemma mc_entry_act: "mc_entry sl sh s = Some (mc_act sl sh s)"
  by (simp add: mc_entry_def mc_act_def next_count_def trig_loop_vector stamp64_def Let_def)

text \<open>No handler changes the FPGA or reads a register.\<close>

definition quiet :: "libera \<Rightarrow> libera \<Rightarrow> bool" where
  "quiet s s' \<longleftrightarrow> fpga s' = fpga s \<and> (\<forall>a. advances a (trace s') = advances a (trace s))"

lemma quiet_refl: "fpga s' = fpga s \<Longrightarrow> trace s' = trace s \<Longrightarrow> quiet s s'"
  by (simp add: quiet_def)

lemma quiet_trans: "quiet s t \<Longrightarrow> quiet t u \<Longrightarrow> quiet s u"
  by (simp add: quiet_def)

lemma quiet_writel: "quiet s t \<Longrightarrow> quiet s (writel v a t)"
  by (simp add: quiet_def advances_def)

lemma quiet_fold: "(\<And>x s. quiet s (f x s)) \<Longrightarrow> quiet s (fold f xs s)"
  by (induction xs arbitrary: s) (auto simp: quiet_refl intro: quiet_trans)

lemma send_event_bus [simp]: "fpga (send_event i p s) = fpga s" "trace (send_event i p s) = trace s"
  by (simp_all add: libera_send_event_def Let_def case_prod_unfold printk_crit_def wake_up_interruptible_def)

lemma stamp_put_bus [simp]:
  "fpga (put_sc_stamp i m x s) = fpga s" "trace (put_sc_stamp i m x s) = trace s"
  "fpga (put_mc_stamp i m x s) = fpga s" "trace (put_mc_stamp i m x s) = trace s"
  "fpga (put_pair_lst i x s) = fpga s" "trace (put_pair_lst i x s) = trace s"
  "fpga (put_pair_lmt i x s) = fpga s" "trace (put_pair_lmt i x s) = trace s"
  by (simp_all add: put_sc_stamp_def put_mc_stamp_def put_pair_lst_def put_pair_lmt_def Let_def
      case_prod_unfold printk_crit_def)

lemma sc_trigger_quiet: "quiet s (sc_trigger x y i m s)"
  by (rule quiet_refl) (simp_all add: sc_trigger_def libera_SCtrig_specific_def)

lemma set_time_quiet: "quiet s (libera_set_time s)"
proof -
  have "quiet s (libera_set_LST s)" for s
    by (rule quiet_refl) (simp_all add: libera_set_LST_def Let_def)
  moreover have "quiet s (libera_set_LMT s)" for s
    by (simp add: libera_set_LMT_def Let_def quiet_def advances_def)
  ultimately show ?thesis
    by (simp add: libera_set_time_def Let_def quiet_def)
qed

lemma mc_trigger_quiet: "quiet s (mc_trigger x y i m s)"
  using set_time_quiet
  by (simp add: mc_trigger_def libera_MCtrig_specific_def Let_def quiet_def)

lemma sc_act_quiet: "quiet s (sc_act sl sh s)"
  unfolding sc_act_def Let_def
  by (rule quiet_trans [OF quiet_refl quiet_fold]) (simp_all add: sc_trigger_quiet)

lemma selfinc_quiet: "quiet s (libera_mc_selfinc_specific s)"
  by (simp add: libera_mc_selfinc_specific_def Let_def quiet_def advances_def)

lemma mc_act_quiet: "quiet s (mc_act sl sh s)"
proof -
  have "quiet s (let s = s\<lparr>event := (event s)\<lparr>mc_time := t\<rparr>\<rparr>
      in if b then libera_mc_selfinc_specific s else s)" for t b
    using selfinc_quiet [of "s\<lparr>event := (event s)\<lparr>mc_time := t\<rparr>\<rparr>"] by (simp add: quiet_def Let_def)
  then show ?thesis
    unfolding mc_act_def Let_def
    by (rule quiet_trans [OF _ quiet_fold]) (rule mc_trigger_quiet)
qed

interpretation sc: timing_module T_SC_STATUSL T_SC_STATUSH T_SC_FIFOADV sc_entry sc_act
  using sc_act_quiet
  by unfold_locales (auto simp: sc_entry_act quiet_def reg_defs)

interpretation mc: timing_module T_MC_STATUSL T_MC_STATUSH T_MC_FIFOADV mc_entry mc_act
  using mc_act_quiet
  by unfold_locales (auto simp: mc_entry_act quiet_def reg_defs)

section \<open>What the SC handler delivers\<close>

lemma event_readl [simp]: "event (snd (readl a s)) = event (s :: libera)"
  by (simp add: readl_def Let_def)

lemma event_writel [simp]: "event (writel v a s) = event (s :: libera)"
  by (simp add: writel_def)

lemma cfg_readl [simp]: "cfg (snd (readl a s)) = cfg (s :: libera)"
  by (simp add: readl_def Let_def)

lemma cfg_writel [simp]: "cfg (writel v a s) = cfg (s :: libera)"
  by (simp add: writel_def)

lemma event_wake [simp]: "event (wake_up_interruptible q s) = event s"
  by (simp add: wake_up_interruptible_def)

text \<open>The specification: the raw stamps of a list of entries with their triggers, in order.\<close>

fun sc_stamps :: "u64 \<Rightarrow> (u32 \<times> u32) list \<Rightarrow> (nat \<times> u64) list" where
  "sc_stamps t [] = []"
| "sc_stamps t ((sl, sh) # es) =
     (let t = next_count sl t
      in map (\<lambda>i. (i, stamp64 sh t)) (triggers sl) @ sc_stamps t es)"

text \<open>The prescaler triggers get the raw stamp, the others the stamp in Libera time.\<close>

definition sc_value :: "nat \<Rightarrow> u64 \<Rightarrow> u64 \<Rightarrow> u64" where
  "sc_value i off raw =
     (if i = T_TRIG_MC_PRESCALER \<or> i = T_TRIG_SC_PRESCALER then raw else raw + off)"

abbreviation sc_wf :: "event_dev \<Rightarrow> bool" where
  "sc_wf e \<equiv> \<forall>i. trig_wf (sc_timestamps e i)"

lemma put_sc_stamp_event:
  "event (put_sc_stamp i m x s) =
     (event s)\<lparr>sc_timestamps := (sc_timestamps (event s))
       (i := snd (putToFIFO x (sc_timestamps (event s) i)))\<rparr>"
  by (simp add: put_sc_stamp_def Let_def case_prod_unfold printk_crit_def)

lemma sc_trigger_frame:
  "set_time (event (sc_trigger x y i m s)) = set_time (event s)"
  "sc_time (event (sc_trigger x y i m s)) = sc_time (event s)"
  by (simp_all add: sc_trigger_def libera_SCtrig_specific_def put_pair_lst_def put_sc_stamp_event)

lemma sc_trigger_wf: "sc_wf (event s) \<Longrightarrow> sc_wf (event (sc_trigger x y i m s))"
  by (simp add: sc_trigger_def libera_SCtrig_specific_def put_pair_lst_def put_sc_stamp_event ts.wf_enq)

lemma sc_trigger_contents:
  assumes "sc_wf (event s)" "j \<noteq> T_TRIG_TRIGGER" "j \<noteq> T_TRIG_POST_MORTEM"
  shows "trig_contents (sc_timestamps (event (sc_trigger (raw + off) raw i m s)) j) =
    accept 4095 (trig_contents (sc_timestamps (event s) j)) (if i = j then [sc_value j off raw] else [])"
  using assms
  by (auto simp: sc_trigger_def libera_SCtrig_specific_def put_pair_lst_def put_sc_stamp_event
      ts.enq_accept ts.accept_empty sc_value_def)

lemma fold_sc_trigger:
  assumes "sc_wf (event s)" "j \<noteq> T_TRIG_TRIGGER" "j \<noteq> T_TRIG_POST_MORTEM"
    and s': "s' = fold (\<lambda>i. sc_trigger (raw + off) raw i (m i)) ks s"
  shows "trig_contents (sc_timestamps (event s') j) =
      accept 4095 (trig_contents (sc_timestamps (event s) j))
        (map (\<lambda>_. sc_value j off raw) (filter (\<lambda>i. i = j) ks)) \<and>
    sc_wf (event s') \<and> set_time (event s') = set_time (event s) \<and> sc_time (event s') = sc_time (event s)"
  using assms(1) unfolding s'
proof (induction ks arbitrary: s)
  case Nil
  then show ?case by (simp add: ts.accept_empty)
next
  case (Cons k ks)
  note IH = Cons.IH [OF sc_trigger_wf [OF Cons.prems, of "raw + off" raw k "m k"]]
  from sc_trigger_contents [OF Cons.prems assms(2,3)] IH show ?case
    by (simp add: sc_trigger_frame )
qed

lemma sc_act_delivers:
  assumes "sc_wf (event s)" "j \<noteq> T_TRIG_TRIGGER" "j \<noteq> T_TRIG_POST_MORTEM"
    and t: "t = next_count sl (sc_time (event s))"
  shows "trig_contents (sc_timestamps (event (sc_act sl sh s)) j) =
      accept 4095 (trig_contents (sc_timestamps (event s) j))
        (map (\<lambda>_. sc_value j (lst_off (set_time (event s))) (stamp64 sh t)) (filter (\<lambda>i. i = j) (triggers sl))) \<and>
    sc_wf (event (sc_act sl sh s)) \<and> set_time (event (sc_act sl sh s)) = set_time (event s) \<and>
    sc_time (event (sc_act sl sh s)) = t"
  using fold_sc_trigger [of "s\<lparr>event := (event s)\<lparr>sc_time := t\<rparr>\<rparr>" j _ "stamp64 sh t"
      "lst_off (set_time (event s))" "\<lambda>i. 2 ^ (22 + i)" "triggers sl", OF _ _ _ refl] assms(1-3)
  by (simp add: sc_act_def Let_def t)

lemma sc_passes_deliver:
  assumes "sc_wf (event s)" "j \<noteq> T_TRIG_TRIGGER" "j \<noteq> T_TRIG_POST_MORTEM"
  shows "trig_contents (sc_timestamps (event (fold sc.pass es s)) j) =
      accept 4095 (trig_contents (sc_timestamps (event s) j))
        (map (sc_value j (lst_off (set_time (event s))) \<circ> snd)
          (filter (\<lambda>(i, _). i = j) (sc_stamps (sc_time (event s)) es)))"
  using assms(1)
proof (induction es arbitrary: s)
  case Nil
  then show ?case by (simp add: ts.accept_empty)
next
  case (Cons e es)
  obtain sl sh where e: "e = (sl, sh)" by fastforce
  let ?s1 = "snd (readl T_SC_FIFOADV (snd (readl T_SC_STATUSH s)))"
  have ev: "event (sc.pass (sl, sh) s) = event (sc_act sl sh ?s1)"
    by (simp add: timing_pass_def Let_def)
  have d: "trig_contents (sc_timestamps (event (sc_act sl sh ?s1)) j) =
      accept 4095 (trig_contents (sc_timestamps (event s) j))
        (map (\<lambda>_. sc_value j (lst_off (set_time (event s))) (stamp64 sh (next_count sl (sc_time (event s)))))
          (filter (\<lambda>i. i = j) (triggers sl)))"
    and wf: "sc_wf (event (sc_act sl sh ?s1))"
    and st: "set_time (event (sc_act sl sh ?s1)) = set_time (event s)"
    and t: "sc_time (event (sc_act sl sh ?s1)) = next_count sl (sc_time (event s))"
    using sc_act_delivers [of ?s1 j _ sl sh, OF _ _ _ refl] Cons.prems assms(2,3) by auto
  have "sc_wf (event (sc.pass (sl, sh) s))" using wf unfolding ev .
  from Cons.IH [OF this] show ?case
    by (simp add: ev d st t e filter_map comp_def Let_def)
qed

text \<open>
  C1: the SC interrupt handler empties the timing FIFO of the FPGA and returns: for every list of
  entries the FPGA holds, and every trigger but the two whose stamps are paired, the stamps of
  that trigger are queued for the readers in order, each with the driver's 38-bit extension of
  the 26-bit count and the offset to Libera time (raw for the prescaler triggers); those that do
  not fit the 4095 places of the FIFO are the newest. Readers of the SC queue are woken.
\<close>

theorem sc_handler_delivers:
  assumes "timing_fifo T_SC_STATUSL T_SC_STATUSH T_SC_FIFOADV es (fpga s) (trace s)"
    and "\<forall>i. trig_wf (sc_timestamps (event s) i)"
    and "j \<noteq> T_TRIG_TRIGGER" "j \<noteq> T_TRIG_POST_MORTEM"
  shows "\<exists>s'. libera_sc_handler s = Some s' \<and>
    trig_contents (sc_timestamps (event s') j) =
      accept 4095 (trig_contents (sc_timestamps (event s) j))
        (map (sc_value j (lst_off (set_time (event s))) \<circ> snd)
          (filter (\<lambda>(i, _). i = j) (sc_stamps (sc_time (event s)) es))) \<and>
    hd (wakes s') = SC_queue"
proof -
  have "libera_sc_handler s =
      Some (wake_up_interruptible SC_queue (fold sc.pass es (snd (readl T_SC_STATUSL s))))"
    using sc.handler_drains [OF assms(1)]
    by (simp add: libera_sc_handler_def case_prod_unfold)
  moreover have "hd (wakes (wake_up_interruptible SC_queue x)) = SC_queue" for x
    by (simp add: wake_up_interruptible_def)
  ultimately show ?thesis
    using sc_passes_deliver [of "snd (readl T_SC_STATUSL s)" j es] assms(2-4) by auto
qed

text \<open>A concrete FPGA with a list of entries in its FIFO meets the promise.\<close>

definition fifo_fpga :: "u32 \<Rightarrow> u32 \<Rightarrow> u32 \<Rightarrow> (u32 \<times> u32) list \<Rightarrow> io list \<Rightarrow> u32 \<Rightarrow> u32" where
  "fifo_fpga statusl statush fifoadv es tr a =
     (let k = advances fifoadv tr in
      if k < length es then (if a = statusl then fst (es ! k) else if a = statush then snd (es ! k) else 0)
      else 0)"

lemma fifo_fpga_ok:
  assumes "\<forall>e\<in>set es. T_FIFO_SIZE (fst e) \<noteq> 0" "statusl \<noteq> statush"
  shows "timing_fifo statusl statush fifoadv es (fifo_fpga statusl statush fifoadv es) []"
proof -
  have "advances fifoadv [] = 0" by (simp add: advances_def)
  with assms show ?thesis
    by (auto simp: timing_fifo_def fifo_fpga_def Let_def T_FIFO_SIZE_def)
qed

text \<open>Two entries: trigger 5 at count 7, then trigger 5 again after a self-increment at count 9.\<close>

theorem sc_handler_delivers_witness:
  "\<exists>s'. libera_sc_handler (libera_bss (fifo_fpga T_SC_STATUSL T_SC_STATUSH T_SC_FIFOADV
        [(0x08000001, 7), (0x88000001, 9)])) = Some s' \<and>
     trig_contents (sc_timestamps (event s') T_TRIG_SC_PRESCALER) = [7, 0x4000009]"
proof -
  let ?es = "[(0x08000001, 7), (0x88000001, 9)] :: (u32 \<times> u32) list"
  let ?s = "libera_bss (fifo_fpga T_SC_STATUSL T_SC_STATUSH T_SC_FIFOADV ?es)"
  have tr: "triggers 0x08000001 = [5]" "triggers 0x88000001 = [5]"
    by (simp_all add: triggers_def upt_rec bit_iff_odd_drop_bit drop_bit_eq_div)
  have st: "sc_stamps 0 ?es = [(5, 7), (5, 0x4000009)]"
    by (simp add: tr next_count_def SELF_INC_TRIGGER_def stamp64_def)
  have "timing_fifo T_SC_STATUSL T_SC_STATUSH T_SC_FIFOADV ?es (fpga ?s) (trace ?s)"
    using fifo_fpga_ok [of ?es T_SC_STATUSL T_SC_STATUSH T_SC_FIFOADV]
    by (simp add: libera_bss_def T_FIFO_SIZE_def reg_defs)
  moreover have e: "event ?s = zero_event_dev" by (simp add: libera_bss_def)
  moreover have "\<forall>i. trig_wf (sc_timestamps (event ?s) i)"
    by (simp add: e zero_event_dev_def)
  moreover have "T_TRIG_SC_PRESCALER \<noteq> T_TRIG_TRIGGER" "T_TRIG_SC_PRESCALER \<noteq> T_TRIG_POST_MORTEM"
    by (simp_all add: reg_defs)
  ultimately obtain s' where s': "libera_sc_handler ?s = Some s'"
    "trig_contents (sc_timestamps (event s') T_TRIG_SC_PRESCALER) =
      accept 4095 (trig_contents (sc_timestamps (event ?s) T_TRIG_SC_PRESCALER))
        (map (sc_value T_TRIG_SC_PRESCALER (lst_off (set_time (event ?s))) \<circ> snd)
          (filter (\<lambda>(i, _). i = T_TRIG_SC_PRESCALER) (sc_stamps (sc_time (event ?s)) ?es)))"
    using sc_handler_delivers [of ?es ?s T_TRIG_SC_PRESCALER] by blast
  have "sc_stamps (sc_time (event ?s)) ?es = [(5, 7), (5, 0x4000009)]"
    using st by (simp add: e zero_event_dev_def)
  with s' show ?thesis
    by (intro exI [of _ s']) (simp add: e zero_event_dev_def sc_value_def accept_def T_TRIG_SC_PRESCALER_def)
qed

section \<open>The MC handler returns\<close>

lemma fold_advances:
  "(\<And>e s. advances a (trace (f e s)) = Suc (advances a (trace s))) \<Longrightarrow>
     advances a (trace (fold f es s)) = advances a (trace s) + length es"
  by (induction es arbitrary: s) simp_all

section \<open>Setting the time on a trigger\<close>

lemma send_event_frame [simp]:
  "cfg (send_event i p s) = cfg s"
  "set_time (event (send_event i p s)) = set_time (event s)"
  "paired_timestamps (event (send_event i p s)) = paired_timestamps (event s)"
  by (simp_all add: libera_send_event_def Let_def case_prod_unfold printk_crit_def wake_up_interruptible_def)

lemma set_time_frame [simp]:
  "cfg (libera_set_time s) = cfg s"
  "paired_timestamps (event (libera_set_time s)) = paired_timestamps (event s)"
  "update (set_time (event (libera_set_time s))) = 0"
  by (simp_all add: libera_set_time_def libera_set_LST_def libera_set_LMT_def Let_def writel_def)

lemma set_lst_value:
  assumes "update (set_time (event s)) AND LIBERA_SETTIME_ST \<noteq> 0"
  shows "lst (getFromCircBuf (paired_timestamps (event s) T_TRIG_TRIGGER)) +
      lst_off (set_time (event (libera_set_time s))) =
    lst_ref (set_time (event s)) - lst_scphi (set_time (event s))"
  using assms by (simp add: libera_set_time_def libera_set_LST_def libera_set_LMT_def Let_def)

lemma set_lmt_value:
  assumes "update (set_time (event s)) AND LIBERA_SETTIME_MT \<noteq> 0"
  defines "st \<equiv> set_time (event s)" and "st' \<equiv> set_time (event (libera_set_time s))"
    and "n \<equiv> g_d (lgbl s) * g_dfa (lgbl s)"
  shows "lmt (getFromCircBuf (paired_timestamps (event s) T_TRIG_TRIGGER)) + lmt_off st' =
      lmt_ref st - lmt_mcphi st + lmt_off_pll st - lmt_off_pll st'"
    and "n \<noteq> 0 \<Longrightarrow> unat (lmt_off_pll st') < unat n"
    and "n \<noteq> 0 \<Longrightarrow> unat n dvd unat (lmt_off st')"
proof -
  note defs = libera_set_time_def libera_set_LST_def libera_set_LMT_def Let_def
  show "lmt (getFromCircBuf (paired_timestamps (event s) T_TRIG_TRIGGER)) + lmt_off st' =
      lmt_ref st - lmt_mcphi st + lmt_off_pll st - lmt_off_pll st'"
    using assms(1) by (simp add: st_def st'_def defs)
  assume n: "n \<noteq> 0"
  then have dfa: "g_dfa (lgbl s) \<noteq> 0" by (auto simp: n_def)
  let ?all = "lmt_off_all st'"
  have pll: "lmt_off_pll st' = ucast (snd (div_u64_rem ?all n))"
    using assms(1) dfa by (simp add: st_def st'_def n_def defs)
  have off: "lmt_off st' = ?all - lmt_off_pll st'"
    using assms(1) by (simp add: st_def st'_def defs)
  have u: "unat (lmt_off_pll st') = unat ?all mod unat n"
    using n by (simp add: pll unat_div_u64_rem_rem)
  have pos: "0 < unat n" using n by (simp add: unat_gt_0)
  then show "unat (lmt_off_pll st') < unat n" by (simp add: u)
  have "lmt_off_pll st' \<le> ?all" by (simp add: word_le_nat_alt u)
  then have "unat (lmt_off st') = unat ?all - unat ?all mod unat n"
    by (simp add: off unat_sub_le u)
  then show "unat n dvd unat (lmt_off st')" by (simp add: minus_mod_eq_mult_div)
qed

text \<open>
  C8: a trigger in SET mode synchronises the clocks. When the two handlers have stamped the same
  TRIGGER pulse with the raw counts \<open>rawS\<close> and \<open>rawM\<close>, the pair is the last of the paired stamps,
  and the new offsets are such that the pulse lies at the requested system time less its phase,
  and at the requested machine time less its phase up to the change of the PLL offset, which stays
  below one FA period \<open>d * dfa\<close> while the driver's offset is a multiple of it; the mode is back to
  GET and no update remains armed.
\<close>

theorem set_trigger_synchronises:
  assumes mode: "param (cfg s) LIBERA_CFG_TRIGMODE = LIBERA_TRIGMODE_SET"
    and upd: "update (set_time (event s)) = LIBERA_SETTIME_ST OR LIBERA_SETTIME_MT"
    and bound: "unat (cb_put (paired_timestamps (event s) T_TRIG_TRIGGER)) < 4096"
    and n: "g_d (lgbl s) * g_dfa (lgbl s) \<noteq> 0"
  shows "let s' = mc_trigger stM rawM T_TRIG_TRIGGER m (sc_trigger stS rawS T_TRIG_TRIGGER m s);
      st = set_time (event s); st' = set_time (event s') in
    getFromCircBuf (paired_timestamps (event s') T_TRIG_TRIGGER) = \<lparr>lst = rawS, lmt = rawM\<rparr> \<and>
    rawS + lst_off st' = lst_ref st - lst_scphi st \<and>
    rawM + lmt_off st' = lmt_ref st - lmt_mcphi st + lmt_off_pll st - lmt_off_pll st' \<and>
    unat (lmt_off_pll st') < unat (g_d (lgbl s) * g_dfa (lgbl s)) \<and>
    unat (g_d (lgbl s) * g_dfa (lgbl s)) dvd unat (lmt_off st') \<and>
    param (cfg s') LIBERA_CFG_TRIGMODE = LIBERA_TRIGMODE_GET \<and> update st' = 0"
proof -
  define t where "t = put_pair_lmt T_TRIG_TRIGGER rawM (put_pair_lst T_TRIG_TRIGGER rawS s)"
  let ?s' = "mc_trigger stM rawM T_TRIG_TRIGGER m (sc_trigger stS rawS T_TRIG_TRIGGER m s)"
  have s1: "sc_trigger stS rawS T_TRIG_TRIGGER m s = put_pair_lst T_TRIG_TRIGGER rawS s"
    using mode by (simp add: sc_trigger_def)
  have cfg1: "cfg (put_pair_lst i x s) = cfg s" for i x by (simp add: put_pair_lst_def)
  have s': "set_time (event ?s') = set_time (event (libera_set_time t))"
    "paired_timestamps (event ?s') = paired_timestamps (event t)"
    "param (cfg ?s') LIBERA_CFG_TRIGMODE = LIBERA_TRIGMODE_GET"
    using mode by (simp_all add: s1 cfg1 mc_trigger_def t_def Let_def)
  have t: "set_time (event t) = set_time (event s)" "lgbl t = lgbl s"
    "getFromCircBuf (paired_timestamps (event t) T_TRIG_TRIGGER) = \<lparr>lst = rawS, lmt = rawM\<rparr>"
    using cb_last_after_pair [OF bound, of rawM rawS]
    by (simp_all add: t_def put_pair_lmt_def put_pair_lst_def)
  have u: "update (set_time (event t)) AND LIBERA_SETTIME_ST \<noteq> 0"
    "update (set_time (event t)) AND LIBERA_SETTIME_MT \<noteq> 0"
    by (simp_all add: t upd reg_defs)
  show ?thesis
    using set_lst_value [OF u(1)] set_lmt_value [OF u(2)] n
    by (simp add: s' t)
qed

section \<open>Generation of the slow acquisition start\<close>

definition program_event :: "nat \<Rightarrow> libera \<Rightarrow> libera" where
  "program_event off s =
     writel (of_nat off) T_MC_EVENTGENH (writel (eg_event (list_head (event s))) T_MC_EVENTGENL s)"

lemma ucast_low_word: "ucast (x AND 0xFFFFFFFF) = (of_nat (unat x) :: u32)" for x :: u64
proof -
  have e: "(0xFFFFFFFF :: u64) = mask 32" by (simp add: mask_eq_exp_minus_1)
  show ?thesis unfolding e
    by (intro word_eq_if_unat_eq)
      (simp only: unsigned_ucast_eq unsigned_of_nat unat_and_mask take_bit_eq_mod, simp)
qed

lemma window_div: "(k * (N::nat) \<le> t \<and> t < k * N + N) \<longleftrightarrow> t div N = k" if "0 < N"
proof
  assume "k * N \<le> t \<and> t < k * N + N"
  then show "t div N = k" by (intro div_nat_eqI) (simp_all add: algebra_simps)
next
  assume "t div N = k"
  moreover have "t div N * N + t mod N = t" by simp
  moreover have "t mod N < N" using that by simp
  ultimately show "k * N \<le> t \<and> t < k * N + N" by (metis add_less_cancel_left le_add1)
qed

text \<open>
  C23: the start event is programmed at most once, and never missed. Counting time in periods of
  \<open>2 ^ 26\<close> machine clocks, an event in the second half of period \<open>k\<close> is programmed by the
  self-increment at the start of period \<open>k\<close> and by no helper interrupt; an event in the first half
  of period \<open>k + 1\<close> is programmed by the helper interrupt during period \<open>k\<close> and by no
  self-increment; in every other period neither touches the event generator. The generator gets
  the position of the event within its period.
\<close>

theorem start_event_programmed_once:
  assumes T: "unat (mc_time (event s)) = k * 67108864" and room: "k * 67108864 + 134217728 < 18446744073709551616"
  defines "t \<equiv> unat (eg_time (list_head (event s)))"
  shows "libera_mc_selfinc_specific s =
      (if t div 67108864 = k \<and> t mod 67108864 \<ge> 33554432 then program_event (t mod 67108864) s else s) \<and>
    libera_mchelp_handler_specific s =
      (if t div 67108864 = k + 1 \<and> t mod 67108864 < 33554432 then program_event (t mod 67108864) s else s)"
proof -
  let ?T = "mc_time (event s)" let ?e = "eg_time (list_head (event s))"
  have u1: "unat (?T + 0x4000000) = k * 67108864 + 67108864"
    using T room by (subst unat_add_u64_small) simp_all
  have u2: "unat (?T + 0x8000000) = k * 67108864 + 134217728"
    using T room by (subst unat_add_u64_small) simp_all
  have self: "?T \<le> ?e \<and> ?T + 0x4000000 > ?e \<longleftrightarrow> t div 67108864 = k"
    using window_div [of 67108864 k t] by (simp add: word_le_nat_alt word_less_nat_alt u1 T t_def)
  have hlp: "?T + 0x4000000 \<le> ?e \<and> ?T + 0x8000000 > ?e \<longleftrightarrow> t div 67108864 = k + 1"
    using window_div [of 67108864 "k + 1" t]
    by (simp add: word_le_nat_alt word_less_nat_alt u1 u2 t_def algebra_simps)
  have o1: "unat (?e - ?T) = t mod 67108864" if "t div 67108864 = k"
    using that self T by (simp add: unat_sub_le t_def minus_div_mult_eq_mod [symmetric])
  have o2: "unat (?e - (?T + 0x4000000)) = t mod 67108864" if "t div 67108864 = k + 1"
    using that hlp u1 by (simp add: unat_sub_le t_def minus_div_mult_eq_mod [symmetric] algebra_simps)
  show ?thesis
  proof
    show "libera_mc_selfinc_specific s =
      (if t div 67108864 = k \<and> t mod 67108864 \<ge> 33554432 then program_event (t mod 67108864) s else s)"
      unfolding libera_mc_selfinc_specific_def Let_def ucast_low_word
      using self o1 by (cases "t div 67108864 = k") (auto simp: program_event_def word_le_nat_alt)
    show "libera_mchelp_handler_specific s =
      (if t div 67108864 = k + 1 \<and> t mod 67108864 < 33554432 then program_event (t mod 67108864) s else s)"
      unfolding libera_mchelp_handler_specific_def Let_def ucast_low_word
      using hlp o2 by (cases "t div 67108864 = k + 1") (auto simp: program_event_def word_less_nat_alt)
  qed
qed

theorem start_event_programmed_once_witness:
  "libera_mc_selfinc_specific (libera_bss (\<lambda>_ _. 0)\<lparr>event := zero_event_dev\<lparr>list_head := \<lparr>eg_time = 0x3000000, eg_event = 1\<rparr>\<rparr>\<rparr>) =
    program_event 0x3000000 (libera_bss (\<lambda>_ _. 0)\<lparr>event := zero_event_dev\<lparr>list_head := \<lparr>eg_time = 0x3000000, eg_event = 1\<rparr>\<rparr>\<rparr>)"
  using start_event_programmed_once [of "libera_bss (\<lambda>_ _. 0)\<lparr>event := zero_event_dev\<lparr>list_head := \<lparr>eg_time = 0x3000000, eg_event = 1\<rparr>\<rparr>\<rparr>" 0]
  by (simp add: zero_event_dev_def)

theorem set_trigger_synchronises_witness:
  "let s = libera_bss (\<lambda>_ _. 0)\<lparr>cfg := (cfg (libera_bss (\<lambda>_ _. 0)))\<lparr>param := (\<lambda>_. LIBERA_TRIGMODE_SET)\<rparr>,
      event := zero_event_dev\<lparr>set_time := zero_settime\<lparr>update := 3, lst_ref := 500, lmt_ref := 900\<rparr>\<rparr>,
      lgbl := (lgbl (libera_bss (\<lambda>_ _. 0)))\<lparr>g_d := 128, g_dfa := 80\<rparr>\<rparr>;
     s' = mc_trigger 0 700 T_TRIG_TRIGGER 0 (sc_trigger 0 40 T_TRIG_TRIGGER 0 s)
   in 40 + lst_off (set_time (event s')) = 500 \<and> update (set_time (event s')) = 0"
proof -
  let ?s = "libera_bss (\<lambda>_ _. 0)\<lparr>cfg := (cfg (libera_bss (\<lambda>_ _. 0)))\<lparr>param := (\<lambda>_. LIBERA_TRIGMODE_SET)\<rparr>,
      event := zero_event_dev\<lparr>set_time := zero_settime\<lparr>update := 3, lst_ref := 500, lmt_ref := 900\<rparr>\<rparr>,
      lgbl := (lgbl (libera_bss (\<lambda>_ _. 0)))\<lparr>g_d := 128, g_dfa := 80\<rparr>\<rparr>"
  have "unat (cb_put (paired_timestamps (event ?s) T_TRIG_TRIGGER)) < 4096"
    by (simp add: zero_event_dev_def flushCircBuf_def)
  then show ?thesis
    using set_trigger_synchronises [of ?s 0 700 0 0 40]
    by (simp add: Let_def reg_defs zero_settime_def)
qed

end
