(* ===== verification/Single_Writer.thy ===== *)
theory Single_Writer
  imports State
begin

text \<open>
  Opening and closing a device that admits one writer at a time. The configuration, FA and DSC
  devices and, with some additions, the event device have the same code for it
  (\<^verbatim>\<open>libera_cfg_open\<close>, \<^verbatim>\<open>libera_cfg_release\<close> and their copies). What follows from it for any sequence of
  opens and closes is proved once, in the locale \<open>single_writer\<close>, and interpreted for each device.
\<close>

section \<open>The code\<close>

text \<open>The lock is taken and released again, so it is free afterwards.\<close>

definition open_single :: "filep \<Rightarrow> common \<Rightarrow> int \<times> common" where
  "open_single f c =
     (let c = c\<lparr>sem := True\<rparr> in
      if f_write f \<and> master_filp c \<noteq> None then (- EBUSY, c\<lparr>sem := False\<rparr>)
      else
        let c = (if f_write f then c\<lparr>master_filp := Some (filp f), writers := writers c + 1\<rparr> else c);
            c = (if f_read f then c\<lparr>readers := readers c + 1\<rparr> else c);
            c = c\<lparr>open_count := open_count c + 1\<rparr>
        in (0, c\<lparr>sem := False\<rparr>))"

definition release_single :: "filep \<Rightarrow> common \<Rightarrow> int \<times> common" where
  "release_single f c =
     (let c = c\<lparr>open_count := open_count c - 1\<rparr>;
          c = (if f_read f then c\<lparr>readers := readers c - 1\<rparr> else c);
          c = (if f_write f then
                 let c = c\<lparr>writers := writers c - 1\<rparr>
                 in if writers c = 0 then c\<lparr>master_filp := None\<rparr> else c
               else c)
      in (0, c))"

section \<open>Sequences of opens and closes\<close>

datatype fileop = Open filep | Close filep

text \<open>
  A file is closed only if it is open, and once per open. The second component is the list of open
  files.
\<close>

fun fileop_run ::
  "(filep \<Rightarrow> 's \<Rightarrow> int \<times> 's) \<Rightarrow> (filep \<Rightarrow> 's \<Rightarrow> int \<times> 's) \<Rightarrow> fileop list \<Rightarrow> 's \<times> filep list
     \<Rightarrow> 's \<times> filep list"
where
  "fileop_run op rl [] (s, fs) = (s, fs)"
| "fileop_run op rl (Open f # ps) (s, fs) =
     (let (r, s) = op f s in fileop_run op rl ps (s, if r = 0 then f # fs else fs))"
| "fileop_run op rl (Close f # ps) (s, fs) =
     (if f \<in> set fs then fileop_run op rl ps (snd (rl f s), remove1 f fs)
      else fileop_run op rl ps (s, fs))"

text \<open>The counters count the open files, and the master is the only open writer.\<close>

definition writer_inv :: "common \<Rightarrow> filep list \<Rightarrow> bool" where
  "writer_inv c fs \<longleftrightarrow>
     (let ws = filter f_write fs in
      length ws \<le> 1 \<and>
      master_filp c = (case ws of [] \<Rightarrow> None | w # _ \<Rightarrow> Some (filp w)) \<and>
      writers c = of_nat (length ws) \<and> readers c = of_nat (length (filter f_read fs)) \<and>
      open_count c = int (length fs) \<and> \<not> sem c)"

lemma writer_inv_open:
  assumes "writer_inv c fs"
  shows "writer_inv (snd (open_single f c)) (if fst (open_single f c) = 0 then f # fs else fs)"
  using assms
  by (cases "filter f_write fs") (auto simp: writer_inv_def open_single_def Let_def EBUSY_def split: if_splits)

lemma writer_inv_release:
  assumes inv: "writer_inv c fs" and f: "f \<in> set fs"
  shows "writer_inv (snd (release_single f c)) (remove1 f fs)"
proof -
  have "length (remove1 f fs) = length fs - 1" "1 \<le> length fs"
    using f by (auto simp: length_remove1 Suc_le_eq)
  then have n: "int (length (remove1 f fs)) = int (length fs) - 1" by linarith
  have cnt: "length (filter P fs) = length (filter P (remove1 f fs)) + (if P f then 1 else 0)" for P
    using f by (induction fs) auto
  have "readers c = of_nat (length (filter f_read (remove1 f fs))) + (if f_read f then 1 else 0)"
    using inv unfolding writer_inv_def Let_def cnt [of f_read] by simp
  then have r: "readers (snd (release_single f c)) = of_nat (length (filter f_read (remove1 f fs)))"
    by (simp add: release_single_def Let_def)
  show ?thesis
  proof (cases "f_write f")
    case True
    then have "f \<in> set (filter f_write fs)" using f by simp
    with inv have ws: "filter f_write fs = [f]"
      by (cases "filter f_write fs") (auto simp: writer_inv_def Let_def)
    then have "filter f_write (remove1 f fs) = []"
      using cnt [of f_write] True by simp
    with inv True ws r n show ?thesis
      by (auto simp: writer_inv_def release_single_def Let_def)
  next
    case False
    then have "filter f_write (remove1 f fs) = filter f_write fs"
      by (simp add: filter_remove1)
    with inv False r n show ?thesis
      by (auto simp: writer_inv_def release_single_def Let_def)
  qed
qed

locale single_writer =
  fixes com :: "'s \<Rightarrow> common"
    and op :: "filep \<Rightarrow> 's \<Rightarrow> int \<times> 's"
    and rl :: "filep \<Rightarrow> 's \<Rightarrow> int \<times> 's"
  assumes op_code: "fst (op f s) = fst (open_single f (com s))"
    and op_com: "com (snd (op f s)) = snd (open_single f (com s))"
    and rl_com: "com (snd (rl f s)) = snd (release_single f (com s))"
begin

lemma run_inv:
  "writer_inv (com s) fs \<Longrightarrow>
     (case fileop_run op rl ps (s, fs) of (s', fs') \<Rightarrow> writer_inv (com s') fs')"
proof (induction ps arbitrary: s fs)
  case Nil
  then show ?case by simp
next
  case (Cons p ps)
  show ?case
  proof (cases p)
    case (Open f)
    have "writer_inv (com (snd (op f s))) (if fst (op f s) = 0 then f # fs else fs)"
      using writer_inv_open [OF Cons.prems, of f] by (simp add: op_code op_com)
    from Cons.IH [OF this] Open show ?thesis by (simp add: case_prod_unfold Let_def)
  next
    case (Close f)
    then show ?thesis
      using Cons.IH [of "snd (rl f s)" "remove1 f fs"] Cons.IH [OF Cons.prems]
        writer_inv_release [OF Cons.prems, of f]
      by (simp add: rl_com)
  qed
qed

end

end
