(* ===== verification/Cfg.thy ===== *)
theory Cfg
  imports Trigger Single_Writer
begin

text \<open>
  The configuration device: the ioctl interface of \<^verbatim>\<open>drivers/libera/libera_cfg.c\<close> and the EBPP
  parameters of \<^verbatim>\<open>ebpp.c\<close>, which are mirrored in an array and passed to the FPGA. The \<^verbatim>\<open>switch\<close> of
  \<^verbatim>\<open>libera_cfg_set_specific\<close> is split: its larger cases are definitions of their own.
\<close>

section \<open>The family member\<close>

definition LIBERA_INSTRUMENT :: "u32 \<Rightarrow> u32" where
  "LIBERA_INSTRUMENT c = drop_bit 28 (c AND push_bit 28 0xF)"

definition LIBERA_INS_TYPE :: "u32 \<Rightarrow> u32" where
  "LIBERA_INS_TYPE c = drop_bit 24 (c AND push_bit 24 0xF)"

definition LIBERA_IS_BPM :: "u32 \<Rightarrow> bool" where
  "LIBERA_IS_BPM c \<longleftrightarrow> LIBERA_INSTRUMENT c = 0"

definition LIBERA_IS_BRILLIANCE :: "u32 \<Rightarrow> bool" where
  "LIBERA_IS_BRILLIANCE c \<longleftrightarrow> LIBERA_IS_BPM c \<and> LIBERA_INS_TYPE c = 1"

definition MAXDUR :: u32 where [reg_defs]: "MAXDUR = 4095"
definition LIBERA_CFG_PARAMS_MAX :: nat where [reg_defs]: "LIBERA_CFG_PARAMS_MAX = 512"

section \<open>Reading a parameter\<close>

text \<open>The parameters whose value is the mirrored one.\<close>

definition mirrored :: "nat list" where
  "mirrored = [LIBERA_CFG_XOFFSET, LIBERA_CFG_YOFFSET, LIBERA_CFG_QOFFSET, LIBERA_CFG_KX,
     LIBERA_CFG_KY, LIBERA_CFG_ILK_XLOW, LIBERA_CFG_ILK_XHIGH, LIBERA_CFG_ILK_YLOW,
     LIBERA_CFG_ILK_YHIGH, LIBERA_CFG_ILK_MODE, LIBERA_CFG_ILK_OVERFLOW_LIMIT,
     LIBERA_CFG_ILK_OVERFLOW_DUR, LIBERA_CFG_ILK_GAIN_LIMIT, LIBERA_CFG_ILKSTATUS,
     LIBERA_CFG_PMOFFSET, LIBERA_CFG_PMDEC, LIBERA_CFG_EXTSWITCH, LIBERA_CFG_SWDELAY,
     LIBERA_CFG_TRIGDELAY, LIBERA_CFG_BCD_XOFFSET, LIBERA_CFG_BCD_YOFFSET, LIBERA_CFG_PM_XLOW,
     LIBERA_CFG_PM_XHIGH, LIBERA_CFG_PM_YLOW, LIBERA_CFG_PM_YHIGH, LIBERA_CFG_PM_MODE,
     LIBERA_CFG_PM_OVERFLOW_LIMIT, LIBERA_CFG_PM_OVERFLOW_DUR, LIBERA_CFG_SR_ENABLE,
     LIBERA_CFG_SR_CSPI_ENABLE, LIBERA_CFG_SR_AVERAGING_STOP, LIBERA_CFG_SR_AVERAGE_WINDOW,
     LIBERA_CFG_SR_START, LIBERA_CFG_SR_WINDOW, LIBERA_CFG_SP_THRESHOLD, LIBERA_CFG_SP_N_BEFORE,
     LIBERA_CFG_SP_N_AFTER]"

text \<open>On an invalid index the value is not set; the model returns the one passed in.\<close>

definition libera_cfg_get_specific :: "nat \<Rightarrow> u32 \<Rightarrow> libera \<Rightarrow> int \<times> u32 \<times> libera" where
  "libera_cfg_get_specific idx val s =
     (if idx \<in> set mirrored then (0, param (cfg s) idx, s)
      else if idx = LIBERA_CFG_DEC_DDC then (0, g_d (lgbl s), s)
      else if idx = LIBERA_CFG_DFA then (0, g_dfa (lgbl s), s)
      else if idx = LIBERA_CFG_DDC_MAFLENGTH then (let (v, s) = readl DDC_MAF_LENGTH s in (0, v, s))
      else if idx = LIBERA_CFG_DDC_MAFDELAY then (let (v, s) = readl DDC_MAF_DELAY s in (0, v, s))
      else if idx = LIBERA_CFG_MAX_ADC then
        (let (v, s) = readl ADC_MAX s in (0, v AND 0xFFFF, s))
      else if idx = LIBERA_CFG_AVERAGE_SUM then
        (let (denominator, s) = readl FA_NSUMS s in
         if denominator > 0 then
           let (dividend1, s) = readl FA_SUMSUMS_LSW s;
               (dividend2, s) = readl FA_SUMSUMS_MSW s
           in (0, ucast (div_u64 (ucast dividend1 + push_bit 32 (ucast dividend2)) denominator), s)
         else (0, 0, s))
      else (- EINVAL, val, s))"

section \<open>Setting a parameter\<close>

definition set_param :: "nat \<Rightarrow> u32 \<Rightarrow> libera \<Rightarrow> libera" where
  "set_param i v s = s\<lparr>cfg := (cfg s)\<lparr>param := (param (cfg s))(i := v)\<rparr>\<rparr>"

definition scale_kadc :: "u32 \<Rightarrow> u32 \<Rightarrow> u32" where
  "scale_kadc k limit =
     ucast (div_u64 (ucast (limit AND 0x0000ffff) * ucast (k * k)) 1000000)"

text \<open>The ADC limits: the count in the upper half, its square over 256 in the lower half.\<close>

definition cfg_set_limit :: "nat \<Rightarrow> u32 \<Rightarrow> libera \<Rightarrow> int \<times> libera" where
  "cfg_set_limit idx val s =
     (let max_count = (if LIBERA_IS_BRILLIANCE (feature (lgbl s)) then 32767 else 2047) in
      if val \<le> max_count then
        let adc_count = drop_bit (if LIBERA_IS_BRILLIANCE (feature (lgbl s)) then 4 else 0) val;
            adc_count = adc_count * adc_count
        in (0, set_param idx (push_bit 16 val OR (drop_bit 8 adc_count AND 0x0000ffff)) s)
      else (- EINVAL, s))"

text \<open>The interlock atom goes to the FPGA when the gain limit, its last member, is set.\<close>

definition cfg_set_ilk_gain :: "u32 \<Rightarrow> libera \<Rightarrow> int \<times> libera" where
  "cfg_set_ilk_gain val s =
     (let s = set_param LIBERA_CFG_ILK_GAIN_LIMIT val s;
          p = param (cfg s);
          overflow_limit = scale_kadc (kadc (modp s)) (p LIBERA_CFG_ILK_OVERFLOW_LIMIT);
          attn_sum = p LIBERA_CFG_ILK_GAIN_LIMIT AND 0x0000ffff;
          s = writel (p LIBERA_CFG_ILK_XLOW) ILK_XLOW s;
          s = writel (p LIBERA_CFG_ILK_XHIGH) ILK_XHIGH s;
          s = writel (p LIBERA_CFG_ILK_YLOW) ILK_YLOW s;
          s = writel (p LIBERA_CFG_ILK_YHIGH) ILK_YHIGH s;
          s = writel attn_sum DSC_ILK_GAIN_LIMIT s;
          s = writel overflow_limit DSC_ILK_OVERFLOW_LIMIT s;
          s = writel (p LIBERA_CFG_ILK_OVERFLOW_DUR) DSC_ILK_OVERFLOW_DUR s
      in (0, writel (p LIBERA_CFG_ILK_MODE) ILK_CONTROL s))"

definition cfg_set_extswitch :: "u32 \<Rightarrow> libera \<Rightarrow> int \<times> libera" where
  "cfg_set_extswitch val s =
     (let (source, s) = readl DSC_SW_SOURCE s;
          source = (if val \<noteq> 0 then source OR DSC_SW_EXTERNAL else source AND NOT DSC_SW_EXTERNAL);
          s = writel source DSC_SW_SOURCE s
      in (0, set_param LIBERA_CFG_EXTSWITCH val s))"

definition cfg_set_trigdelay :: "u32 \<Rightarrow> libera \<Rightarrow> int \<times> libera" where
  "cfg_set_trigdelay val s =
     (let s = set_param LIBERA_CFG_TRIGDELAY val s;
          (v, s) = readl T_TRIG_DELAY s;
          v = v AND 0xc000ffff;
          v = v OR push_bit 16 (val AND 0x3fff)
      in (0, writel v T_TRIG_DELAY s))"

text \<open>The post-mortem atom goes to the FPGA when the overflow duration, its last member, is set.\<close>

definition cfg_set_pm_dur :: "u32 \<Rightarrow> libera \<Rightarrow> int \<times> libera" where
  "cfg_set_pm_dur val s =
     (if val \<le> pmdur (modp s) \<and> val \<le> MAXDUR then
        let s = set_param LIBERA_CFG_PM_OVERFLOW_DUR val s;
            p = param (cfg s);
            overflow_limit = scale_kadc (kadc (modp s)) (p LIBERA_CFG_PM_OVERFLOW_LIMIT);
            (v, s) = readl T_TRIG_DELAY s;
            v = v AND 0xFFFF3FFF;
            v = v OR push_bit 14 (p LIBERA_CFG_PM_MODE AND 3);
            s = writel v T_TRIG_DELAY s;
            s = writel (p LIBERA_CFG_PM_XLOW) PM_XLOW s;
            s = writel (p LIBERA_CFG_PM_XHIGH) PM_XHIGH s;
            s = writel (p LIBERA_CFG_PM_YLOW) PM_YLOW s;
            s = writel (p LIBERA_CFG_PM_YHIGH) PM_YHIGH s;
            s = writel overflow_limit DSC_PM_OVERFLOW_LIMIT s;
            s = writel (p LIBERA_CFG_PM_OVERFLOW_DUR) DSC_PM_OVERFLOW_DUR s
        in (0, s\<lparr>cfg := (cfg s)\<lparr>pm_freezed := False\<rparr>\<rparr>)
      else (- EINVAL, s))"

text \<open>The coefficients of a filter are written at once when the last of them is set.\<close>

definition write_coeffs :: "nat \<Rightarrow> nat \<Rightarrow> u32 \<Rightarrow> libera \<Rightarrow> libera" where
  "write_coeffs base n reg s =
     fold (\<lambda>i s. writel (param (cfg s) (base + i)) reg s) [0..<n] (writel 1 FA_FIFO_RESET s)"

definition cfg_set_coeff :: "nat \<Rightarrow> u32 \<Rightarrow> libera \<Rightarrow> int \<times> libera" where
  "cfg_set_coeff idx val s =
     (if idx \<ge> LIBERA_CFG_COEFF \<and> idx < LIBERA_CFG_POLYPHASE_FIR + LIBERA_CFG_FIR_MAX then
        let s = set_param idx val s in
        if idx = LIBERA_CFG_NOTCH1 + LIBERA_CFG_NOTCH_MAX - 1 then
          (0, write_coeffs LIBERA_CFG_NOTCH1 LIBERA_CFG_NOTCH_MAX FA_NOTCH1 s)
        else if idx = LIBERA_CFG_NOTCH2 + LIBERA_CFG_NOTCH_MAX - 1 then
          (0, write_coeffs LIBERA_CFG_NOTCH2 LIBERA_CFG_NOTCH_MAX FA_NOTCH2 s)
        else if of_nat idx = of_nat LIBERA_CFG_POLYPHASE_FIR + num_dfir (lgbl s) - 1 then
          (0, write_coeffs LIBERA_CFG_POLYPHASE_FIR (unat (num_dfir (lgbl s))) FA_POLYPHASE_FIR s)
        else (0, s)
      else (- EINVAL, s))"

text \<open>The second half of \<^verbatim>\<open>libera_cfg_set_specific\<close>: the cases from \<^verbatim>\<open>LIBERA_CFG_DDC_MAFDELAY\<close> on.\<close>

definition cfg_set_specific_rest :: "nat \<Rightarrow> u32 \<Rightarrow> libera \<Rightarrow> int \<times> libera" where
  "cfg_set_specific_rest idx val s =
     (if idx = LIBERA_CFG_DDC_MAFDELAY then (0, writel val DDC_MAF_DELAY s)
      else if idx = LIBERA_CFG_TRIGDELAY then cfg_set_trigdelay val s
      else if idx = LIBERA_CFG_PM_OVERFLOW_DUR then cfg_set_pm_dur val s
      else if idx = LIBERA_CFG_SR_ENABLE then (0, writel val FA_ENABLE (set_param idx val s))
      else if idx = LIBERA_CFG_SR_CSPI_ENABLE then (0, set_param idx val s)
      else if idx = LIBERA_CFG_SR_AVERAGING_STOP then
        (0, writel (val AND 0x1F) FA_AVE_STOP (set_param idx val s))
      else if idx = LIBERA_CFG_SR_AVERAGE_WINDOW then
        (0, writel (val AND 0x1F) FA_AVE_WIN (set_param idx val s))
      else if idx = LIBERA_CFG_SR_START then
        (0, writel (val AND 0x1F) FA_START (set_param idx val s))
      else if idx = LIBERA_CFG_SR_WINDOW then
        (0, writel (val AND 0x7F) FA_WINDOW (set_param idx val s))
      else if idx \<in> {LIBERA_CFG_SP_THRESHOLD, LIBERA_CFG_SP_N_BEFORE, LIBERA_CFG_SP_N_AFTER} then
        (0, set_param idx val s)
      else cfg_set_coeff idx val s)"

definition libera_cfg_set_specific :: "nat \<Rightarrow> u32 \<Rightarrow> libera \<Rightarrow> int \<times> libera" where
  "libera_cfg_set_specific idx val s =
     (if idx = LIBERA_CFG_XOFFSET then
        (let s = set_param idx val s
         in (0, writel (val + param (cfg s) LIBERA_CFG_BCD_XOFFSET) FA_OFFSET s))
      else if idx = LIBERA_CFG_YOFFSET then
        (let s = set_param idx val s
         in (0, writel (val + param (cfg s) LIBERA_CFG_BCD_YOFFSET) (FA_OFFSET + 4) s))
      else if idx \<in> {LIBERA_CFG_QOFFSET, LIBERA_CFG_KX, LIBERA_CFG_KY} then
        (let s = set_param idx val s
         in (0, writel (param (cfg s) idx)
                  (FA_OFFSET + of_nat (idx - LIBERA_CFG_CUSTOM_FIRST) * 4) s))
      else if idx \<in> {LIBERA_CFG_ILK_XLOW, LIBERA_CFG_ILK_XHIGH, LIBERA_CFG_ILK_YLOW,
          LIBERA_CFG_ILK_YHIGH, LIBERA_CFG_ILK_MODE, LIBERA_CFG_PM_MODE, LIBERA_CFG_PM_XLOW,
          LIBERA_CFG_PM_XHIGH, LIBERA_CFG_PM_YLOW, LIBERA_CFG_PM_YHIGH} then
        (0, set_param idx val s)
      else if idx \<in> {LIBERA_CFG_PM_OVERFLOW_LIMIT, LIBERA_CFG_ILK_OVERFLOW_LIMIT} then
        cfg_set_limit idx val s
      else if idx = LIBERA_CFG_ILK_OVERFLOW_DUR then
        (if val \<le> ilkdur (modp s) \<and> val \<le> MAXDUR then (0, set_param idx val s) else (- EINVAL, s))
      else if idx = LIBERA_CFG_ILK_GAIN_LIMIT then cfg_set_ilk_gain val s
      else if idx = LIBERA_CFG_ILKSTATUS then (0, set_param idx 0 s)
      else if idx \<in> {LIBERA_CFG_PMOFFSET, LIBERA_CFG_PMDEC} then (0, set_param idx val s)
      else if idx = LIBERA_CFG_EXTSWITCH then cfg_set_extswitch val s
      else if idx = LIBERA_CFG_SWDELAY then
        (let s = set_param idx val s in (0, writel (param (cfg s) idx) DSC_SW_DELAY s))
      else if idx = LIBERA_CFG_DDC_MAFLENGTH then (0, writel val DDC_MAF_LENGTH s)
      else cfg_set_specific_rest idx val s)"

section \<open>Initial values\<close>

text \<open>The ADC transformation of the non-Brilliance members; the channels are signed.\<close>

definition transform_channel :: "u16 \<Rightarrow> u16" where
  "transform_channel x = (if 2048 <s x then x - 4096 else x)"

definition ebpp_transform_adc :: "adc_atom \<Rightarrow> int \<times> adc_atom" where
  "ebpp_transform_adc p =
     (let p = p\<lparr>ChA := transform_channel (ChA p)\<rparr>;
          p = p\<lparr>ChB := transform_channel (ChB p)\<rparr>;
          p = p\<lparr>ChC := transform_channel (ChC p)\<rparr>;
          p = p\<lparr>ChD := transform_channel (ChD p)\<rparr>
      in (0, p))"

definition get_adc_transform :: "libera \<Rightarrow> (adc_atom \<Rightarrow> int \<times> adc_atom) option" where
  "get_adc_transform s =
     (if LIBERA_IS_BRILLIANCE (feature (lgbl s)) then None else Some ebpp_transform_adc)"

definition LIBERA_ILK_ADC_12 :: u32 where [reg_defs]: "LIBERA_ILK_ADC_12 = 1900"
definition LIBERA_ILK_ADC_16 :: u32 where [reg_defs]: "LIBERA_ILK_ADC_16 = 30000"

definition set_param_from :: "nat \<Rightarrow> u32 \<Rightarrow> libera \<Rightarrow> libera" where
  "set_param_from i reg s = (let (v, s) = readl reg s in set_param i v s)"

definition libera_init_specific :: "libera \<Rightarrow> int \<times> libera" where
  "libera_init_specific s =
     (let s = s\<lparr>adc := (adc s)\<lparr>adc_op := get_adc_transform s\<rparr>\<rparr>;
          brilliance = LIBERA_IS_BRILLIANCE (feature (lgbl s));
          ilk_adc = (if brilliance then LIBERA_ILK_ADC_16 else LIBERA_ILK_ADC_12);
          s = set_param LIBERA_CFG_XOFFSET 0 s;
          s = set_param LIBERA_CFG_YOFFSET 0 s;
          s = set_param LIBERA_CFG_QOFFSET 0 s;
          s = set_param LIBERA_CFG_KX 10000000 s;
          s = set_param LIBERA_CFG_KY 10000000 s;
          s = set_param LIBERA_CFG_ILK_XLOW (- 1000000) s;
          s = set_param LIBERA_CFG_ILK_XHIGH 1000000 s;
          s = set_param LIBERA_CFG_ILK_YLOW (- 1000000) s;
          s = set_param LIBERA_CFG_ILK_YHIGH 1000000 s;
          s = set_param LIBERA_CFG_ILK_MODE 3 s;
          s = set_param LIBERA_CFG_ILK_OVERFLOW_LIMIT ilk_adc s;
          s = set_param LIBERA_CFG_ILK_OVERFLOW_DUR 5 s;
          s = set_param LIBERA_CFG_ILK_GAIN_LIMIT
                (if brilliance then push_bit 16 (- 40) OR (0 + 0)
                 else push_bit 16 (- 40) OR (16 + 16)) s;
          s = snd (readl ADC_MAX s);
          s = set_param LIBERA_CFG_PMDEC 1 s;
          s = set_param LIBERA_CFG_PM_XLOW (- 1000000) s;
          s = set_param LIBERA_CFG_PM_XHIGH 1000000 s;
          s = set_param LIBERA_CFG_PM_YLOW (- 1000000) s;
          s = set_param LIBERA_CFG_PM_YHIGH 1000000 s;
          s = set_param LIBERA_CFG_PM_OVERFLOW_LIMIT ilk_adc s;
          s = set_param LIBERA_CFG_PM_OVERFLOW_DUR 5 s;
          s = set_param_from LIBERA_CFG_SR_ENABLE FA_ENABLE s;
          s = set_param LIBERA_CFG_SR_CSPI_ENABLE 1 s;
          s = set_param_from LIBERA_CFG_SR_AVERAGING_STOP FA_AVE_STOP s;
          s = set_param_from LIBERA_CFG_SR_AVERAGE_WINDOW FA_AVE_WIN s;
          s = set_param_from LIBERA_CFG_SR_START FA_START s;
          s = set_param_from LIBERA_CFG_SR_WINDOW FA_WINDOW s;
          s = set_param LIBERA_CFG_SP_THRESHOLD (if brilliance then 400 else 100) s;
          s = set_param LIBERA_CFG_SP_N_BEFORE 1 s;
          s = set_param LIBERA_CFG_SP_N_AFTER (g_d (lgbl s) div 3) s;
          s = fold (\<lambda>i s. snd (libera_cfg_set_specific i (param (cfg s) i) s))
                [LIBERA_CFG_CUSTOM_FIRST..<LIBERA_CFG_CUSTOM_LAST] s
      in libera_sctrig_enable (TRIGGER_BIT T_TRIG_POST_MORTEM) s)"

section \<open>The device\<close>

text \<open>What an ioctl call leaves in user memory.\<close>

datatype uout = No_out | Out_words "u32 list" | Out_desc u32 string string

definition libera_cfg_cmd :: "u32 \<Rightarrow> ucopy \<Rightarrow> libera \<Rightarrow> int \<times> uout \<times> libera" where
  "libera_cfg_cmd cmd u s =
     (if cmd = LIBERA_IOC_GET_CFG then
        (if from_left u \<noteq> 0 then (int (from_left u), No_out, s)
         else
           let idx = unat (uword u 0); val = uword u 1 in
           if idx \<ge> LIBERA_CFG_PARAMS_MAX then (- EINVAL, No_out, s)
           else
             let (ret, val, s) =
               (if idx \<in> {LIBERA_CFG_TRIGMODE, LIBERA_CFG_MCPLL, LIBERA_CFG_SCPLL}
                then (0, param (cfg s) idx, s)
                else if idx = LIBERA_CFG_FEATURE_CUSTOMER
                then (let (v, s) = readl FPGA_FEATURE_CUSTOMER s in (0, v, s))
                else if idx = LIBERA_CFG_FEATURE_ITECH then (0, feature (lgbl s), s)
                else libera_cfg_get_specific idx val s)
             in if ret \<noteq> 0 then (ret, No_out, s)
                else if to_left u \<noteq> 0 then (int (to_left u), No_out, s)
                else (0, Out_words [of_nat idx, val], s))
      else if cmd = LIBERA_IOC_SET_CFG then
        (if from_left u \<noteq> 0 then (int (from_left u), No_out, s)
         else
           let idx = unat (uword u 0); val = uword u 1 in
           if idx \<ge> LIBERA_CFG_PARAMS_MAX then (- EINVAL, No_out, s)
           else if idx \<in> {LIBERA_CFG_MCPLL, LIBERA_CFG_SCPLL} then (- EINVAL, No_out, s)
           else
             let (ret, s) =
               (if idx = LIBERA_CFG_TRIGMODE then (0, set_param idx val s)
                else libera_cfg_set_specific idx val s)
             in if ret \<noteq> 0 then (ret, No_out, s)
                else (0, No_out, send_event LIBERA_EVENT_CFG (of_nat idx) s))
      else if cmd = LIBERA_IOC_GET_MAGIC then
        (if to_left u \<noteq> 0 then (int (to_left u), No_out, s) else (0, Out_words [LIBERA_MAGIC], s))
      else if cmd = LIBERA_IOC_GET_DESC then
        (if to_left u \<noteq> 0 then (int (to_left u), No_out, s)
         else (0, Out_desc LIBERA_MAGIC ''EBPP'' ''Unknown'', s))
      else (- ENOTTY, No_out, s))"

definition IOC_NR :: "u32 \<Rightarrow> u32" where
  "IOC_NR cmd = cmd AND 0xff"

definition LIBERA_IOC_MASK :: u32 where [reg_defs]: "LIBERA_IOC_MASK = 0xE0"
definition LIBERA_IOC_CFG :: u32 where [reg_defs]: "LIBERA_IOC_CFG = 0"

text \<open>
  The range check the ioctl entries make: a command that transfers data is refused when its user
  range is not accessible.
\<close>

definition range_error :: "u32 \<Rightarrow> ucopy \<Rightarrow> bool" where
  "range_error cmd u =
     (if IOC_DIR cmd AND IOC_READ \<noteq> 0 then \<not> u_ok u
      else if IOC_DIR cmd AND IOC_WRITE \<noteq> 0 then \<not> u_ok u
      else False)"

definition libera_cfg_ioctl :: "filep \<Rightarrow> u32 \<Rightarrow> ucopy \<Rightarrow> libera \<Rightarrow> int \<times> uout \<times> libera" where
  "libera_cfg_ioctl f cmd u s =
     (if IOC_TYPE cmd \<noteq> LIBERA_IOC_MAGIC then (- ENOTTY, No_out, s)
      else if IOC_NR cmd AND LIBERA_IOC_MASK \<noteq> LIBERA_IOC_CFG then (- ENOTTY, No_out, s)
      else if range_error cmd u then (- EFAULT, No_out, s)
      else if IOC_DIR cmd = IOC_WRITE \<and> master_filp (cfg_com (cfg s)) \<noteq> Some (filp f)
      then (- EPERM, No_out, s)
      else libera_cfg_cmd cmd u s)"

definition libera_cfg_open :: "filep \<Rightarrow> libera \<Rightarrow> int \<times> libera" where
  "libera_cfg_open f s =
     (let (r, c) = open_single f (cfg_com (cfg s)) in (r, s\<lparr>cfg := (cfg s)\<lparr>cfg_com := c\<rparr>\<rparr>))"

definition libera_cfg_release :: "filep \<Rightarrow> libera \<Rightarrow> int \<times> libera" where
  "libera_cfg_release f s =
     (let (r, c) = release_single f (cfg_com (cfg s)) in (r, s\<lparr>cfg := (cfg s)\<lparr>cfg_com := c\<rparr>\<rparr>))"

section \<open>What is stored is what is read\<close>

text \<open>The stored form of a value: the limits are encoded, setting the interlock status clears it.\<close>

definition limit_code :: "bool \<Rightarrow> u32 \<Rightarrow> u32" where
  "limit_code brilliance v =
     (let c = drop_bit (if brilliance then 4 else 0) v
      in push_bit 16 v OR (drop_bit 8 (c * c) AND 0xffff))"

definition stored :: "libera \<Rightarrow> nat \<Rightarrow> u32 \<Rightarrow> u32" where
  "stored s idx v =
     (if idx = LIBERA_CFG_PM_OVERFLOW_LIMIT \<or> idx = LIBERA_CFG_ILK_OVERFLOW_LIMIT
      then limit_code (LIBERA_IS_BRILLIANCE (feature (lgbl s))) v
      else if idx = LIBERA_CFG_ILKSTATUS then 0 else v)"

lemmas cfg_cases = libera_cfg_set_specific_def cfg_set_specific_rest_def cfg_set_limit_def cfg_set_ilk_gain_def
  cfg_set_extswitch_def cfg_set_trigdelay_def cfg_set_pm_dur_def set_param_def

lemma lgbl_io [simp]:
  "lgbl (snd (readl a s)) = lgbl (s :: libera)" "lgbl (writel v a s) = lgbl (s :: libera)"
  "modp (snd (readl a s)) = modp (s :: libera)" "modp (writel v a s) = modp (s :: libera)"
  by (simp_all add: readl_def writel_def Let_def)

lemma set_specific_param:
  assumes "idx \<in> set mirrored" "idx \<noteq> LIBERA_CFG_BCD_XOFFSET" "idx \<noteq> LIBERA_CFG_BCD_YOFFSET"
    and "libera_cfg_set_specific idx v s = (0, s')"
  shows "param (cfg s') = (param (cfg s))(idx := stored s idx v)"
  using assms(1) unfolding mirrored_def set_simps insert_iff empty_iff
  by (elim disjE; insert assms(2-4))
    (auto simp: cfg_cases stored_def limit_code_def Let_def case_prod_unfold reg_defs errno_defs
      split: if_splits)



section \<open>The overflow limits\<close>

lemma mask16: "(0xffff :: 'a::len word) = mask 16" by (simp add: mask_eq_exp_minus_1)

text \<open>
  The encoded limit loses nothing: for every accepted count (at most 2047 of a 12-bit
  converter, 32767 of a 16-bit one) the upper half is the count, the lower half is the square of
  the count on the 12-bit scale divided by 256, without overflow; every larger count is refused
  and changes nothing.
\<close>

lemma limit_encoding:
  fixes s v
  assumes "idx = LIBERA_CFG_PM_OVERFLOW_LIMIT \<or> idx = LIBERA_CFG_ILK_OVERFLOW_LIMIT"
  defines "br \<equiv> LIBERA_IS_BRILLIANCE (feature (lgbl s))"
  defines "c \<equiv> (if br then unat v div 16 else unat v)"
  shows "if unat v \<le> (if br then 32767 else 2047)
    then fst (libera_cfg_set_specific idx v s) = 0 \<and>
      unat (param (cfg (snd (libera_cfg_set_specific idx v s))) idx) = unat v * 65536 + c * c div 256
    else libera_cfg_set_specific idx v s = (- EINVAL, s)"
proof -
  have set: "libera_cfg_set_specific idx v s = cfg_set_limit idx v s"
    using assms(1) by (auto simp: libera_cfg_set_specific_def cfg_set_specific_rest_def reg_defs)
  have le: "v \<le> (if br then 32767 else 2047) \<longleftrightarrow> unat v \<le> (if br then 32767 else 2047)"
    by (simp add: word_le_nat_alt)
  show ?thesis
  proof (cases "unat v \<le> (if br then 32767 else 2047)")
    case True
    let ?d = "drop_bit (if br then 4 else 0) v"
    have d: "unat ?d = c" by (simp add: c_def drop_bit_eq_div unat_div)
    have c: "c \<le> 2047" using True by (auto simp: c_def split: if_splits)
    then have cc: "c * c \<le> 2047 * 2047" by (rule mult_le_mono [OF _ c])
    then have "unat (?d * ?d) = c * c" by (simp add: unat_word_ariths d)
    then have lo: "unat (drop_bit 8 (?d * ?d) AND 0xffff) = c * c div 256"
      using cc unfolding mask16 by (simp add: unat_and_mask drop_bit_eq_div unat_div)
    have hi: "unat (push_bit 16 v) = unat v * 65536"
      using True by (simp add: push_bit_eq_mult unat_word_ariths split: if_splits)
    have "push_bit 16 v AND (drop_bit 8 (?d * ?d) AND 0xffff) = 0"
      unfolding mask16 by (rule bit_word_eqI) (auto simp: bit_simps)
    then have "push_bit 16 v OR (drop_bit 8 (?d * ?d) AND 0xffff) =
        push_bit 16 v + (drop_bit 8 (?d * ?d) AND 0xffff)"
      by (rule disjunctive_add_eq_or [symmetric])
    moreover have "unat v * 65536 + c * c div 256 < 4294967296"
      using True cc by (auto split: if_splits)
    ultimately have "unat (limit_code br v) = unat v * 65536 + c * c div 256"
      by (simp add: limit_code_def Let_def unat_add_u32 hi lo)
    then show ?thesis
      using True le by (simp add: set cfg_set_limit_def Let_def limit_code_def set_param_def br_def)
  next
    case False
    then show ?thesis using le by (simp add: set cfg_set_limit_def Let_def br_def)
  qed
qed

text \<open>The scaling by the ADC factor does not overflow for any 16-bit factor.\<close>

lemma scale_kadc_exact:
  assumes "unat k < 65536"
  shows "unat (scale_kadc k limit) = unat limit mod 65536 * (unat k * unat k) div 1000000"
proof -
  have le: "unat k \<le> 65535" using assms by linarith
  have kk: "unat k * unat k \<le> 65535 * 65535" by (rule mult_le_mono [OF le le])
  then have "unat k * unat k < 4294967296" by linarith
  then have k: "unat (k * k) = unat k * unat k" by (simp add: unat_word_ariths)
  have l: "unat (limit AND 0xffff) = unat limit mod 65536"
    unfolding mask16 by (simp add: unat_and_mask)
  have "unat limit mod 65536 * (unat k * unat k) \<le> 65535 * (65535 * 65535)"
    by (rule mult_le_mono [OF _ kk]) simp
  then have p: "unat limit mod 65536 * (unat k * unat k) \<le> 281462092005375" by simp
  have "unat limit mod 65536 * (unat k * unat k) div 1000000 \<le> 281462092005375 div 1000000"
    using p by (rule div_le_mono)
  with p k l show ?thesis
    by (simp add: scale_kadc_def unat_div_u64 unat_mult_u64_small unsigned_ucast_eq take_bit_nat_eq_self)
qed

section \<open>Loading a filter\<close>

lemma set_param_frame [simp]:
  "trace (set_param i v s) = trace s" "fpga (set_param i v s) = fpga s" "lgbl (set_param i v s) = lgbl s"
  "param (cfg (set_param i v s)) = (param (cfg s))(i := v)"
  by (simp_all add: set_param_def)

lemma write_coeffs_writes:
  "writes_of (trace (write_coeffs base n reg s)) =
     writes_of (trace s) @ (FA_FIFO_RESET, 1) # map (\<lambda>i. (reg, param (cfg s) (base + i))) [0..<n]"
proof -
  have "writes_of (trace (fold (\<lambda>i s. writel (param (cfg s) (base + i)) reg s) is s)) =
      writes_of (trace s) @ map (\<lambda>i. (reg, param (cfg s) (base + i))) is" for "is" and s :: libera
    by (induction "is" arbitrary: s) simp_all
  then show ?thesis by (simp add: write_coeffs_def)
qed

text \<open>A filter: where its coefficients are mirrored, how many there are, and their register.\<close>

definition filter_of :: "libera \<Rightarrow> (nat \<times> nat \<times> u32) set" where
  "filter_of s =
     {(LIBERA_CFG_NOTCH1, LIBERA_CFG_NOTCH_MAX, FA_NOTCH1),
      (LIBERA_CFG_NOTCH2, LIBERA_CFG_NOTCH_MAX, FA_NOTCH2),
      (LIBERA_CFG_POLYPHASE_FIR, unat (num_dfir (lgbl s)), FA_POLYPHASE_FIR)}"

definition load_filter :: "nat \<Rightarrow> u32 list \<Rightarrow> libera \<Rightarrow> libera" where
  "load_filter base vs s =
     fold (\<lambda>i s. snd (libera_cfg_set_specific (base + i) (vs ! i) s)) [0..<length vs] s"

lemma fir_last_index:
  assumes "unat n \<le> 192" "idx < 4294967296"
  shows "of_nat idx = (of_nat LIBERA_CFG_POLYPHASE_FIR + n - 1 :: u32) \<longleftrightarrow> idx = 265 + unat n"
proof -
  have "unat (265 + n) = 265 + unat n" using assms by (simp add: unat_add_u32)
  moreover have "unat (of_nat idx :: u32) = idx"
    using assms(2) by (simp add: unsigned_of_nat take_bit_nat_eq_self)
  ultimately show ?thesis by (simp add: reg_defs word_unat_eq_iff)
qed

lemma coeff_set:
  assumes "256 \<le> idx" "idx < 458"
  shows "libera_cfg_set_specific idx v s = cfg_set_coeff idx v s"
  using assms by (simp add: libera_cfg_set_specific_def cfg_set_specific_rest_def reg_defs)

lemma coeff_before_last:
  assumes f: "(base, n, reg) \<in> filter_of s" and fir: "unat (num_dfir (lgbl s)) \<le> 192"
    and i: "Suc i < n"
  shows "libera_cfg_set_specific (base + i) v s = (0, set_param (base + i) v s)"
proof -
  let ?m = "num_dfir (lgbl s)"
  have c: "base = 256 \<and> n = 5 \<or> base = 261 \<and> n = 5 \<or> base = 266 \<and> n = unat ?m"
    using f by (auto simp: filter_of_def reg_defs)
  with i fir have r: "256 \<le> base + i" "base + i < 458" by auto
  have "base + i \<noteq> 260" "base + i \<noteq> 265" "base + i \<noteq> 265 + unat ?m" using c i by auto
  moreover have "of_nat (base + i) \<noteq> (of_nat LIBERA_CFG_POLYPHASE_FIR + ?m - 1 :: u32)"
    using fir_last_index [OF fir, of "base + i"] r calculation(3) by simp
  ultimately show ?thesis
    unfolding coeff_set [OF r] cfg_set_coeff_def Let_def using r
    by (simp add: reg_defs del: of_nat_add)
qed

lemma coeff_last:
  assumes f: "(base, n, reg) \<in> filter_of s" and fir: "unat (num_dfir (lgbl s)) \<le> 192" and n: "n = Suc i"
  shows "libera_cfg_set_specific (base + i) v s = (0, write_coeffs base n reg (set_param (base + i) v s))"
proof -
  let ?m = "num_dfir (lgbl s)"
  have c: "base = 256 \<and> n = 5 \<and> reg = FA_NOTCH1 \<or> base = 261 \<and> n = 5 \<and> reg = FA_NOTCH2 \<or>
      base = 266 \<and> n = unat ?m \<and> reg = FA_POLYPHASE_FIR"
    using f by (auto simp: filter_of_def LIBERA_CFG_NOTCH1_def LIBERA_CFG_NOTCH2_def
        LIBERA_CFG_POLYPHASE_FIR_def LIBERA_CFG_COEFF_def LIBERA_CFG_NOTCH_MAX_def)
  with n fir have r: "256 \<le> base + i" "base + i < 458" by auto
  have "base = 266 \<Longrightarrow> of_nat (base + i) = (of_nat LIBERA_CFG_POLYPHASE_FIR + ?m - 1 :: u32)"
    using fir_last_index [OF fir, of "base + i"] r c n by auto
  then show ?thesis
    unfolding coeff_set [OF r] cfg_set_coeff_def Let_def using r c n
    by (auto simp: LIBERA_CFG_NOTCH1_def LIBERA_CFG_NOTCH2_def LIBERA_CFG_COEFF_def
        LIBERA_CFG_POLYPHASE_FIR_def LIBERA_CFG_NOTCH_MAX_def LIBERA_CFG_FIR_MAX_def
        simp del: of_nat_add)
qed

lemma load_prefix:
  assumes "(base, n, reg) \<in> filter_of s" "unat (num_dfir (lgbl s)) \<le> 192" "k < n"
  shows "let s' = fold (\<lambda>i s. snd (libera_cfg_set_specific (base + i) (vs ! i) s)) [0..<k] s in
    trace s' = trace s \<and> lgbl s' = lgbl s \<and> (\<forall>i<k. param (cfg s') (base + i) = vs ! i)"
  using assms(3)
proof (induction k)
  case 0
  then show ?case by simp
next
  case (Suc k)
  let ?t = "fold (\<lambda>i s. snd (libera_cfg_set_specific (base + i) (vs ! i) s)) [0..<k] s"
  have t: "trace ?t = trace s" "lgbl ?t = lgbl s" "\<forall>i<k. param (cfg ?t) (base + i) = vs ! i"
    using Suc by (auto simp: Let_def)
  have "filter_of ?t = filter_of s" by (simp add: filter_of_def t(2))
  then have "libera_cfg_set_specific (base + k) (vs ! k) ?t = (0, set_param (base + k) (vs ! k) ?t)"
    using assms Suc.prems t(2) by (intro coeff_before_last) simp_all
  then show ?case using t by (simp add: Let_def less_Suc_eq)
qed

text \<open>
  Loading a filter programs exactly its coefficients. Setting the \<open>n\<close> coefficients of one of
  the three filters in order (five for each notch filter, the number the FPGA reports for the
  polyphase filter, at most 192) writes nothing until the last, and then resets the coefficient
  FIFO once and writes the \<open>n\<close> values, in order, to the filter's register.
\<close>

lemma load_filter_writes:
  assumes "(base, length vs, reg) \<in> filter_of s" "unat (num_dfir (lgbl s)) \<le> 192" "vs \<noteq> []"
  shows "writes_of (trace (load_filter base vs s)) =
    writes_of (trace s) @ (FA_FIFO_RESET, 1) # map (Pair reg) vs"
proof -
  obtain k where k: "length vs = Suc k" using assms(3) by (cases vs) simp_all
  let ?t = "fold (\<lambda>i s. snd (libera_cfg_set_specific (base + i) (vs ! i) s)) [0..<k] s"
  have t: "trace ?t = trace s" "lgbl ?t = lgbl s" "\<forall>i<k. param (cfg ?t) (base + i) = vs ! i"
    using load_prefix [OF assms(1,2), of k vs] k by (auto simp: Let_def)
  have "(base, length vs, reg) \<in> filter_of ?t" using assms(1) by (simp add: filter_of_def t(2))
  then have last: "libera_cfg_set_specific (base + k) (vs ! k) ?t =
      (0, write_coeffs base (length vs) reg (set_param (base + k) (vs ! k) ?t))"
    using assms(2) t(2) k by (intro coeff_last) simp_all
  have p: "map (\<lambda>i. (reg, param (cfg (set_param (base + k) (vs ! k) ?t)) (base + i))) [0..<length vs] =
      map (Pair reg) vs"
    using t(3) by (intro nth_equalityI) (auto simp: k less_Suc_eq simp del: upt_Suc)
  show ?thesis
    using last p t(1) by (simp add: load_filter_def k write_coeffs_writes)
qed

section \<open>Single writer\<close>

interpretation cfg_sw: single_writer "\<lambda>s. cfg_com (cfg s)" libera_cfg_open libera_cfg_release
  by unfold_locales (simp_all add: libera_cfg_open_def libera_cfg_release_def case_prod_unfold Let_def)

section \<open>The interlock atom\<close>

text \<open>
  C22: the interlock thresholds reach the FPGA together. Setting any other member of the interlock
  atom writes no register; setting the gain limit writes the eight registers of the atom, each
  once: the four position limits, the attenuation (without the dBm half), the scaled ADC limit
  (without the count half), the duration, and the mode last, so that the interlock is armed only
  after its thresholds.
\<close>

theorem interlock_atom_written_last:
  "(idx \<in> {LIBERA_CFG_ILK_XLOW, LIBERA_CFG_ILK_XHIGH, LIBERA_CFG_ILK_YLOW, LIBERA_CFG_ILK_YHIGH,
      LIBERA_CFG_ILK_MODE, LIBERA_CFG_ILK_OVERFLOW_LIMIT, LIBERA_CFG_ILK_OVERFLOW_DUR} \<longrightarrow>
      trace (snd (libera_cfg_set_specific idx v s)) = trace s) \<and>
    writes_of (trace (snd (libera_cfg_set_specific LIBERA_CFG_ILK_GAIN_LIMIT v s))) =
      writes_of (trace s) @
      (let p = param (cfg s) in
       [(ILK_XLOW, p LIBERA_CFG_ILK_XLOW), (ILK_XHIGH, p LIBERA_CFG_ILK_XHIGH),
        (ILK_YLOW, p LIBERA_CFG_ILK_YLOW), (ILK_YHIGH, p LIBERA_CFG_ILK_YHIGH),
        (DSC_ILK_GAIN_LIMIT, v AND 0xffff),
        (DSC_ILK_OVERFLOW_LIMIT, scale_kadc (kadc (modp s)) (p LIBERA_CFG_ILK_OVERFLOW_LIMIT)),
        (DSC_ILK_OVERFLOW_DUR, p LIBERA_CFG_ILK_OVERFLOW_DUR), (ILK_CONTROL, p LIBERA_CFG_ILK_MODE)])"
proof
  have m: "modp (set_param i x s) = modp s" for i x by (simp add: set_param_def)
  show "idx \<in> {LIBERA_CFG_ILK_XLOW, LIBERA_CFG_ILK_XHIGH, LIBERA_CFG_ILK_YLOW, LIBERA_CFG_ILK_YHIGH,
      LIBERA_CFG_ILK_MODE, LIBERA_CFG_ILK_OVERFLOW_LIMIT, LIBERA_CFG_ILK_OVERFLOW_DUR} \<longrightarrow>
      trace (snd (libera_cfg_set_specific idx v s)) = trace s"
    by (auto simp: libera_cfg_set_specific_def cfg_set_specific_rest_def cfg_set_limit_def Let_def reg_defs)
  show "writes_of (trace (snd (libera_cfg_set_specific LIBERA_CFG_ILK_GAIN_LIMIT v s))) =
      writes_of (trace s) @
      (let p = param (cfg s) in
       [(ILK_XLOW, p LIBERA_CFG_ILK_XLOW), (ILK_XHIGH, p LIBERA_CFG_ILK_XHIGH),
        (ILK_YLOW, p LIBERA_CFG_ILK_YLOW), (ILK_YHIGH, p LIBERA_CFG_ILK_YHIGH),
        (DSC_ILK_GAIN_LIMIT, v AND 0xffff),
        (DSC_ILK_OVERFLOW_LIMIT, scale_kadc (kadc (modp s)) (p LIBERA_CFG_ILK_OVERFLOW_LIMIT)),
        (DSC_ILK_OVERFLOW_DUR, p LIBERA_CFG_ILK_OVERFLOW_DUR), (ILK_CONTROL, p LIBERA_CFG_ILK_MODE)])"
    by (simp add: libera_cfg_set_specific_def cfg_set_specific_rest_def cfg_set_ilk_gain_def Let_def m reg_defs)
qed

theorem interlock_atom_written_last_witness:
  "trace (snd (libera_cfg_set_specific LIBERA_CFG_ILK_MODE 3 (libera_bss (\<lambda>_ _. 0)))) = []"
  using interlock_atom_written_last [of LIBERA_CFG_ILK_MODE 3 "libera_bss (\<lambda>_ _. 0)"]
  by (simp add: libera_bss_def)

section \<open>Shared register\<close>

text \<open>
  The trigger delay (bits 16 to 29) and the post-mortem mode (bits 14 and 15) live in one register;
  each is set by reading the register back and keeps the other's bits.
\<close>

lemma trigdelay_keeps_rest:
  assumes "n < 16 \<or> n \<ge> 30"
  shows "case trace (snd (cfg_set_trigdelay v s)) of
    Wr a w # Rd b r # _ \<Rightarrow> a = T_TRIG_DELAY \<and> b = T_TRIG_DELAY \<and> bit w n = bit r n | _ \<Rightarrow> False"
proof -
  have m: "(0x3fff :: u32) = mask 14" by (simp add: mask_eq_exp_minus_1)
  have k: "(0xc000ffff :: u32) = mask 16 OR push_bit 30 (mask 2)" by (simp add: mask_eq_exp_minus_1)
  show ?thesis using assms
    by (simp add: cfg_set_trigdelay_def Let_def case_prod_unfold m k del: push_bit_mask_eq)
      (auto simp: bit_simps dest: bit_imp_le_length)
qed

section \<open>Access control\<close>

definition same_events :: "libera \<Rightarrow> libera \<Rightarrow> bool" where
  "same_events s s' \<longleftrightarrow> event s' = event s \<and> lgbl s' = lgbl s"

lemma same_events_if:
  "same_events s (snd a) \<Longrightarrow> same_events s (snd b) \<Longrightarrow> same_events s (snd (if c then a else b))"
  by simp

lemma same_events_coeffs: "same_events s t \<Longrightarrow> same_events s (write_coeffs base n reg t)"
proof -
  have "same_events s (fold (\<lambda>i s. writel (param (cfg s) (b + i)) reg s) xs t)"
    if "same_events s t" for b xs t
    using that by (induction xs arbitrary: t) (simp_all add: same_events_def)
  then show "same_events s t \<Longrightarrow> same_events s (write_coeffs base n reg t)"
    by (simp add: write_coeffs_def same_events_def)
qed

lemma same_events_parts:
  "same_events s (set_param i v s)" "same_events s (snd (cfg_set_limit i v s))"
  "same_events s (snd (cfg_set_ilk_gain v s))" "same_events s (snd (cfg_set_extswitch v s))"
  "same_events s (snd (cfg_set_trigdelay v s))" "same_events s (snd (cfg_set_pm_dur v s))"
  by (simp_all add: cfg_cases Let_def case_prod_unfold same_events_def)

lemma same_events_coeff: "same_events s (snd (cfg_set_coeff i v s))"
  unfolding cfg_set_coeff_def Let_def
  by (intro same_events_if) (simp_all add: same_events_coeffs same_events_parts, simp add: same_events_def)

lemma set_specific_frame: "same_events s (snd (libera_cfg_set_specific i v s))"
  unfolding libera_cfg_set_specific_def cfg_set_specific_rest_def
  by (intro same_events_if same_events_parts same_events_coeff)
    (simp_all add: same_events_def Let_def set_param_def)

text \<open>
  Only the master changes parameters. A set request of a file that is not the writer of the
  device is refused with \<^verbatim>\<open>-EPERM\<close> (or earlier for a malformed command or an inaccessible range)
  and changes nothing; a successful set request is announced by a configuration event that carries
  the index of the parameter.
\<close>

lemma cfg_set_needs_master:
  "(master_filp (cfg_com (cfg s)) \<noteq> Some (filp f) \<longrightarrow>
      libera_cfg_ioctl f LIBERA_IOC_SET_CFG u s = (if u_ok u then - EPERM else - EFAULT, No_out, s)) \<and>
    (libera_cfg_ioctl f LIBERA_IOC_SET_CFG u s = (0, out, s') \<longrightarrow>
      (\<exists>t. s' = send_event LIBERA_EVENT_CFG (uword u 0) t \<and> from_left u = 0 \<and>
        unat (uword u 0) < LIBERA_CFG_PARAMS_MAX \<and> event t = event s \<and> lgbl t = lgbl s))"
proof
  have c: "IOC_TYPE LIBERA_IOC_SET_CFG = LIBERA_IOC_MAGIC" "IOC_DIR LIBERA_IOC_SET_CFG = IOC_WRITE"
    "IOC_NR LIBERA_IOC_SET_CFG AND LIBERA_IOC_MASK = LIBERA_IOC_CFG" "IOC_WRITE AND IOC_READ = 0"
    "IOC_WRITE \<noteq> 0" "LIBERA_IOC_SET_CFG \<noteq> LIBERA_IOC_GET_CFG"
    by (simp_all add: reg_defs ioc_defs IOC_NR_def)
  show "master_filp (cfg_com (cfg s)) \<noteq> Some (filp f) \<longrightarrow>
      libera_cfg_ioctl f LIBERA_IOC_SET_CFG u s = (if u_ok u then - EPERM else - EFAULT, No_out, s)"
    by (simp add: libera_cfg_ioctl_def range_error_def c)
  note fr = set_specific_frame [unfolded same_events_def]
  show "libera_cfg_ioctl f LIBERA_IOC_SET_CFG u s = (0, out, s') \<longrightarrow>
      (\<exists>t. s' = send_event LIBERA_EVENT_CFG (uword u 0) t \<and> from_left u = 0 \<and>
        unat (uword u 0) < LIBERA_CFG_PARAMS_MAX \<and> event t = event s \<and> lgbl t = lgbl s)"
  proof
    assume a: "libera_cfg_ioctl f LIBERA_IOC_SET_CFG u s = (0, out, s')"
    let ?i = "unat (uword u 0)"
    let ?r = "if ?i = LIBERA_CFG_TRIGMODE then (0, set_param ?i (uword u 1) s)
      else libera_cfg_set_specific ?i (uword u 1) s"
    from a have "libera_cfg_cmd LIBERA_IOC_SET_CFG u s = (0, out, s')"
      by (simp add: libera_cfg_ioctl_def errno_defs split: if_splits)
    then have "from_left u = 0" "?i < LIBERA_CFG_PARAMS_MAX"
      "s' = send_event LIBERA_EVENT_CFG (uword u 0) (snd ?r)"
      by (auto simp: libera_cfg_cmd_def c Let_def case_prod_unfold errno_defs split: if_splits)
    moreover have "event (snd ?r) = event s" "lgbl (snd ?r) = lgbl s"
      using fr by (auto simp: set_param_def)
    ultimately show "\<exists>t. s' = send_event LIBERA_EVENT_CFG (uword u 0) t \<and> from_left u = 0 \<and>
        ?i < LIBERA_CFG_PARAMS_MAX \<and> event t = event s \<and> lgbl t = lgbl s" by blast
  qed
qed

end
