(* ===== verification/Block_Dev.thy ===== *)
theory Block_Dev
  imports Cfg
begin

text \<open>
  The fast application (\<^verbatim>\<open>drivers/libera/libera_fa.c\<close>) and digital signal conditioning
  (\<^verbatim>\<open>libera_dsc.c\<close>) devices: seekable blocks of 32-bit registers of the FPGA. The two files are copies
  up to the position and size of the block and the ioctl commands of the DSC device, so seeking,
  reading and writing are defined once, over the block.
\<close>

section \<open>Seeking, reading and writing a block\<close>

text \<open>File positions are integers; the block is \<open>bsize\<close> bytes.\<close>

definition seek_to :: "nat \<Rightarrow> filep \<Rightarrow> int \<Rightarrow> int \<times> filep" where
  "seek_to bsize f newpos =
     (if newpos < 0 \<or> newpos > int bsize then (- EINVAL, f)
      else if newpos mod 4 \<noteq> 0 then (- EINVAL, f)
      else (newpos, f\<lparr>f_pos := newpos\<rparr>))"

definition block_llseek :: "nat \<Rightarrow> filep \<Rightarrow> int \<Rightarrow> int \<Rightarrow> int \<times> filep" where
  "block_llseek bsize f off whence =
     (if whence = 0 then seek_to bsize f off
      else if whence = 1 then seek_to bsize f (f_pos f + off)
      else if whence = 2 then seek_to bsize f (int bsize + off)
      else (- EINVAL, f))"

text \<open>
  Reading \<open>count\<close> bytes at position \<open>pos\<close>. \<open>left\<close> is the number of bytes the copy to user memory
  fails to transfer. The result is the return value, the new position, the words that reach the
  user, the buffer and the bus.
\<close>

definition block_read ::
  "u32 \<Rightarrow> nat \<Rightarrow> int \<Rightarrow> nat \<Rightarrow> nat \<Rightarrow> u32 list \<Rightarrow> 'a bus_scheme
     \<Rightarrow> int \<times> int \<times> u32 list \<times> u32 list \<times> 'a bus_scheme"
where
  "block_read base bsize pos count left buf s =
     (if pos \<ge> int bsize then (0, pos, [], buf, s)
      else
        let count = (if int count > int bsize - pos then nat (int bsize - pos) else count) in
        if count mod 4 \<noteq> 0 then (- EINVAL, pos, [], buf, s)
        else
          let u32_count = count div 4;
              (vs, s) = libera_readlBlock (base + of_int pos) u32_count s;
              buf = vs @ drop u32_count buf
          in if left \<noteq> 0 then (- EFAULT, pos, [], buf, s)
             else (int count, pos + int count, take u32_count buf, buf, s))"

text \<open>Writing the words \<open>ws\<close>, of which \<open>count\<close> bytes were requested.\<close>

definition block_write ::
  "u32 \<Rightarrow> nat \<Rightarrow> int \<Rightarrow> nat \<Rightarrow> nat \<Rightarrow> u32 list \<Rightarrow> u32 list \<Rightarrow> 'a bus_scheme
     \<Rightarrow> int \<times> int \<times> u32 list \<times> 'a bus_scheme"
where
  "block_write base bsize pos count left ws buf s =
     (if pos \<ge> int bsize then (0, pos, buf, s)
      else
        let count = (if int count > int bsize - pos then nat (int bsize - pos) else count) in
        if count mod 4 \<noteq> 0 then (- EINVAL, pos, buf, s)
        else
          let u32_count = count div 4 in
          if left \<noteq> 0 then (- EFAULT, pos, buf, s)
          else
            let buf = take u32_count ws @ drop u32_count buf;
                s = libera_writelBlock (base + of_int pos) (take u32_count buf) s
            in (int count, pos + int count, buf, s))"

section \<open>The FA device\<close>

definition libera_fa_open :: "filep \<Rightarrow> libera \<Rightarrow> int \<times> libera" where
  "libera_fa_open f s =
     (let (r, c) = open_single f (blk_com (fa s)) in (r, s\<lparr>fa := (fa s)\<lparr>blk_com := c\<rparr>\<rparr>))"

definition libera_fa_release :: "filep \<Rightarrow> libera \<Rightarrow> int \<times> libera" where
  "libera_fa_release f s =
     (let (r, c) = release_single f (blk_com (fa s)) in (r, s\<lparr>fa := (fa s)\<lparr>blk_com := c\<rparr>\<rparr>))"

definition libera_fa_llseek :: "filep \<Rightarrow> int \<Rightarrow> int \<Rightarrow> int \<times> filep" where
  "libera_fa_llseek = block_llseek FAI_BLOCKSIZE"

definition libera_fa_read :: "ctx \<Rightarrow> filep \<Rightarrow> nat \<Rightarrow> nat \<Rightarrow> libera \<Rightarrow> int \<times> filep \<times> u32 list \<times> libera" where
  "libera_fa_read c f count left s =
     (if lock_intr c s then (- ERESTARTSYS, f, [], s)
      else
        let (r, pos, out, buf, s) =
              block_read FAI_BLOCK FAI_BLOCKSIZE (f_pos f) count left (blk_buf (fa s)) s
        in (r, f\<lparr>f_pos := pos\<rparr>, out, s\<lparr>fa := (fa s)\<lparr>blk_buf := buf\<rparr>\<rparr>))"

definition libera_fa_write ::
  "ctx \<Rightarrow> filep \<Rightarrow> nat \<Rightarrow> nat \<Rightarrow> u32 list \<Rightarrow> libera \<Rightarrow> int \<times> filep \<times> libera"
where
  "libera_fa_write c f count left ws s =
     (if lock_intr c s then (- ERESTARTSYS, f, s)
      else
        let (r, pos, buf, s) =
              block_write FAI_BLOCK FAI_BLOCKSIZE (f_pos f) count left ws (blk_buf (fa s)) s
        in (r, f\<lparr>f_pos := pos\<rparr>, s\<lparr>fa := (fa s)\<lparr>blk_buf := buf\<rparr>\<rparr>))"

definition LIBERA_IOC_FA :: u32 where [reg_defs]: "LIBERA_IOC_FA = 64"
definition LIBERA_IOC_DSC :: u32 where [reg_defs]: "LIBERA_IOC_DSC = 160"

definition libera_fa_ioctl :: "filep \<Rightarrow> u32 \<Rightarrow> ucopy \<Rightarrow> libera \<Rightarrow> int \<times> libera" where
  "libera_fa_ioctl f cmd u s =
     (if IOC_TYPE cmd \<noteq> LIBERA_IOC_MAGIC then (- ENOTTY, s)
      else if IOC_NR cmd AND LIBERA_IOC_MASK \<noteq> LIBERA_IOC_FA then (- ENOTTY, s)
      else if range_error cmd u then (- EFAULT, s)
      else if IOC_DIR cmd = IOC_WRITE \<and> master_filp (blk_com (fa s)) \<noteq> Some (filp f) then (- EPERM, s)
      else (- ENOTTY, s))"

section \<open>The DSC device\<close>

definition libera_dsc_open :: "filep \<Rightarrow> libera \<Rightarrow> int \<times> libera" where
  "libera_dsc_open f s =
     (let (r, c) = open_single f (blk_com (dsc s)) in (r, s\<lparr>dsc := (dsc s)\<lparr>blk_com := c\<rparr>\<rparr>))"

definition libera_dsc_release :: "filep \<Rightarrow> libera \<Rightarrow> int \<times> libera" where
  "libera_dsc_release f s =
     (let (r, c) = release_single f (blk_com (dsc s)) in (r, s\<lparr>dsc := (dsc s)\<lparr>blk_com := c\<rparr>\<rparr>))"

definition libera_dsc_llseek :: "filep \<Rightarrow> int \<Rightarrow> int \<Rightarrow> int \<times> filep" where
  "libera_dsc_llseek = block_llseek DSC_BLOCKSIZE"

definition libera_dsc_read :: "ctx \<Rightarrow> filep \<Rightarrow> nat \<Rightarrow> nat \<Rightarrow> libera \<Rightarrow> int \<times> filep \<times> u32 list \<times> libera" where
  "libera_dsc_read c f count left s =
     (if lock_intr c s then (- ERESTARTSYS, f, [], s)
      else
        let (r, pos, out, buf, s) =
              block_read DSC_BLOCK DSC_BLOCKSIZE (f_pos f) count left (blk_buf (dsc s)) s
        in (r, f\<lparr>f_pos := pos\<rparr>, out, s\<lparr>dsc := (dsc s)\<lparr>blk_buf := buf\<rparr>\<rparr>))"

definition libera_dsc_write ::
  "ctx \<Rightarrow> filep \<Rightarrow> nat \<Rightarrow> nat \<Rightarrow> u32 list \<Rightarrow> libera \<Rightarrow> int \<times> filep \<times> libera"
where
  "libera_dsc_write c f count left ws s =
     (if lock_intr c s then (- ERESTARTSYS, f, s)
      else
        let (r, pos, buf, s) =
              block_write DSC_BLOCK DSC_BLOCKSIZE (f_pos f) count left ws (blk_buf (dsc s)) s
        in (r, f\<lparr>f_pos := pos\<rparr>, s\<lparr>dsc := (dsc s)\<lparr>blk_buf := buf\<rparr>\<rparr>))"

definition check_and_update :: "u32 \<Rightarrow> nat \<Rightarrow> nat \<Rightarrow> libera \<Rightarrow> int \<times> libera" where
  "check_and_update bcd_val bcd_idx fix_idx s =
     (if bcd_val \<noteq> param (cfg s) bcd_idx then
        let s = set_param bcd_idx bcd_val s
        in (1, writel (bcd_val + param (cfg s) fix_idx)
                 (FA_OFFSET + of_nat (fix_idx - LIBERA_CFG_CUSTOM_FIRST) * 4) s)
      else (0, s))"

text \<open>The commands go on with what is in the kernel's variable when the copy was incomplete.\<close>

definition libera_dsc_ioctl :: "filep \<Rightarrow> u32 \<Rightarrow> ucopy \<Rightarrow> libera \<Rightarrow> int \<times> libera" where
  "libera_dsc_ioctl f cmd u s =
     (if IOC_TYPE cmd \<noteq> LIBERA_DSC_MAGIC then (- ENOTTY, s)
      else if IOC_NR cmd AND LIBERA_IOC_MASK \<noteq> LIBERA_IOC_DSC then (- ENOTTY, s)
      else if range_error cmd u then (- EFAULT, s)
      else if IOC_DIR cmd = IOC_WRITE \<and> master_filp (blk_com (dsc s)) \<noteq> Some (filp f) then (- EPERM, s)
      else if cmd = LIBERA_DSC_SET_DSC then
        (int (from_left u), send_event LIBERA_EVENT_CFG (uword u 0) s)
      else if cmd = LIBERA_DSC_BCD_OFFSETS then
        (let s = snd (check_and_update (uword u 0) LIBERA_CFG_BCD_XOFFSET LIBERA_CFG_XOFFSET s);
             s = snd (check_and_update (uword u 1) LIBERA_CFG_BCD_YOFFSET LIBERA_CFG_YOFFSET s)
         in (int (from_left u), s))
      else (- ENOTTY, s))"

interpretation fa_sw: single_writer "\<lambda>s. blk_com (fa s)" libera_fa_open libera_fa_release
  by unfold_locales (simp_all add: libera_fa_open_def libera_fa_release_def case_prod_unfold Let_def)

interpretation dsc_sw: single_writer "\<lambda>s. blk_com (dsc s)" libera_dsc_open libera_dsc_release
  by unfold_locales (simp_all add: libera_dsc_open_def libera_dsc_release_def case_prod_unfold Let_def)

section \<open>Accesses stay inside the block\<close>

text \<open>A position the file can have: inside the block and on a word.\<close>

definition pos_ok :: "nat \<Rightarrow> int \<Rightarrow> bool" where
  "pos_ok bsize pos \<longleftrightarrow> 0 \<le> pos \<and> pos \<le> int bsize \<and> pos mod 4 = 0"

text \<open>The words of the block.\<close>

definition block_words :: "u32 \<Rightarrow> nat \<Rightarrow> u32 set" where
  "block_words base bsize = {base + 4 * of_nat i | i. i < bsize div 4}"

lemma seek_err: "p < 0 \<or> p > int bsize \<or> p mod 4 \<noteq> 0 \<Longrightarrow> seek_to bsize f p = (- EINVAL, f)"
  unfolding seek_to_def by (elim disjE) (simp_all only: if_True if_False simp_thms if_cancel)

lemma seek_fine: "\<not> (p < 0 \<or> p > int bsize) \<Longrightarrow> \<not> p mod 4 \<noteq> 0 \<Longrightarrow> seek_to bsize f p = (p, f\<lparr>f_pos := p\<rparr>)"
  unfolding seek_to_def by (simp only: if_False)

lemma seek_to_ok:
  assumes "pos_ok bsize (f_pos f)"
  shows "pos_ok bsize (f_pos (snd (seek_to bsize f p)))"
proof (cases "p < 0 \<or> p > int bsize \<or> p mod 4 \<noteq> 0")
  case True
  show ?thesis using assms by (simp only: seek_err [OF True] snd_conv)
next
  case False
  then have "pos_ok bsize p" unfolding pos_ok_def by linarith
  moreover have "seek_to bsize f p = (p, f\<lparr>f_pos := p\<rparr>)"
    using False by (intro seek_fine) blast+
  ultimately show ?thesis by simp
qed

lemma seek_ok: "pos_ok bsize (f_pos f) \<Longrightarrow> pos_ok bsize (f_pos (snd (block_llseek bsize f off whence)))"
  by (simp add: block_llseek_def seek_to_ok)

lemma word_of_pos:
  assumes "0 \<le> pos" "pos mod 4 = 0"
  shows "base + of_int pos + 4 * of_nat i = (base + 4 * of_nat (nat pos div 4 + i) :: u32)"
proof -
  define n where "n = nat pos div 4"
  have "pos = 4 * (pos div 4)" using assms(2) by presburger
  then have "pos = int (4 * n)" using assms(1) by (simp add: n_def nat_div_distrib zdiv_int)
  then have "of_int pos = (of_nat (4 * n) :: u32)" by simp
  then show ?thesis by (simp add: n_def [symmetric] algebra_simps)
qed

lemma writelBlock_trace:
  "trace (libera_writelBlock a vs s) =
     rev (map (\<lambda>(i, v). Wr (a + 4 * of_nat i) v) (zip [0..<length vs] vs)) @ trace s"
proof (induction a vs s rule: libera_writelBlock.induct)
  case (1 a s)
  then show ?case by simp
next
  case (2 a v vs s)
  have "zip [0..<length (v # vs)] (v # vs) = (0, v) # map (\<lambda>(i, x). (Suc i, x)) (zip [0..<length vs] vs)"
    by (simp add: upt_conv_Cons map_Suc_upt [symmetric] zip_map1 del: upt_Suc)
  with 2 show ?case by (simp add: case_prod_unfold algebra_simps comp_def)
qed

text \<open>Every access of \<open>s'\<close> that \<open>s\<close> had not made is to one of the addresses \<open>A\<close>.\<close>

definition touches :: "u32 set \<Rightarrow> 'a bus_scheme \<Rightarrow> 'a bus_scheme \<Rightarrow> bool" where
  "touches A s s' \<longleftrightarrow> (\<exists>new. trace s' = new @ trace s \<and> (\<forall>x\<in>set new. io_addr x \<in> A))"

lemma touches_refl: "trace s' = trace s \<Longrightarrow> touches A s s'"
  by (simp add: touches_def)

lemma touches_trans: "touches A s t \<Longrightarrow> touches A t u \<Longrightarrow> touches A s u"
  unfolding touches_def by (metis Un_iff append_assoc set_append)

lemma block_transfer_touches:
  assumes "pos_ok bsize pos" "pos + 4 * int n \<le> int bsize"
  shows "touches (block_words base bsize) s (snd (libera_readlBlock (base + of_int pos) n s))"
    and "length vs = n \<Longrightarrow> touches (block_words base bsize) s (libera_writelBlock (base + of_int pos) vs s)"
proof -
  have "nat pos div 4 + i < bsize div 4" if "i < n" for i
    using assms that by (simp add: pos_ok_def) linarith
  moreover have "base + of_int pos + 4 * of_nat i = base + 4 * of_nat (nat pos div 4 + i)" for i
    using assms(1) by (intro word_of_pos) (simp_all add: pos_ok_def)
  ultimately have "base + of_int pos + 4 * of_nat i \<in> block_words base bsize" if "i < n" for i
    using that unfolding block_words_def by blast
  then show "touches (block_words base bsize) s (snd (libera_readlBlock (base + of_int pos) n s))"
    and "length vs = n \<Longrightarrow> touches (block_words base bsize) s (libera_writelBlock (base + of_int pos) vs s)"
    unfolding touches_def readlBlock_addrs writelBlock_trace by (auto dest: set_zip_leftD)
qed

lemma clamp_count:
  assumes "pos_ok bsize pos" "pos < int bsize"
    and "c = (if int count > int bsize - pos then nat (int bsize - pos) else count)"
  shows "c mod 4 = 0 \<longrightarrow> pos + 4 * int (c div 4) \<le> int bsize" "pos + int c \<le> int bsize"
proof -
  show le: "pos + int c \<le> int bsize" using assms by (auto split: if_splits)
  have "4 * (c div 4) \<le> c" by simp
  with le show "c mod 4 = 0 \<longrightarrow> pos + 4 * int (c div 4) \<le> int bsize" by linarith
qed

lemma block_read_safe:
  assumes "pos_ok bsize pos" "block_read base bsize pos count left buf s = (r, pos', out, buf', s')"
  shows "pos_ok bsize pos' \<and> touches (block_words base bsize) s s' \<and>
    (length buf = bsize div 4 \<longrightarrow> length buf' = length buf)"
proof (cases "pos \<ge> int bsize")
  case True
  then show ?thesis using assms by (auto simp: block_read_def touches_refl)
next
  case False
  define c where "c = (if int count > int bsize - pos then nat (int bsize - pos) else count)"
  have c: "c mod 4 = 0 \<Longrightarrow> pos + 4 * int (c div 4) \<le> int bsize" "pos + int c \<le> int bsize"
    using clamp_count [OF assms(1) _ c_def] False by simp_all
  note p = assms(1) [unfolded pos_ok_def]
  show ?thesis
  proof (cases "c mod 4 = 0")
    case False
    with assms(2) \<open>\<not> pos \<ge> int bsize\<close> assms(1) show ?thesis
      by (auto simp: block_read_def c_def [symmetric] Let_def touches_refl)
  next
    case True
    have t: "touches (block_words base bsize) s (snd (libera_readlBlock (base + of_int pos) (c div 4) s))"
      using block_transfer_touches(1) [OF assms(1) c(1) [OF True]] .
    have "c div 4 \<le> bsize div 4" using p c(2) by linarith
    moreover have "int c mod 4 = 0" using True by presburger
    then have "(pos + int c) mod 4 = 0" using p by presburger
    ultimately show ?thesis
      using assms(2) \<open>\<not> pos \<ge> int bsize\<close> True t p c(2) readlBlock_length [of "base + of_int pos" "c div 4" s]
      by (auto simp: block_read_def c_def [symmetric] Let_def case_prod_unfold pos_ok_def split: if_splits)
  qed
qed

lemma block_write_safe:
  assumes "pos_ok bsize pos" "block_write base bsize pos count left ws buf s = (r, pos', buf', s')"
    and "length buf = bsize div 4" "count \<le> 4 * length ws"
  shows "pos_ok bsize pos' \<and> touches (block_words base bsize) s s' \<and> length buf' = length buf"
proof (cases "pos \<ge> int bsize")
  case True
  then show ?thesis using assms by (auto simp: block_write_def touches_refl)
next
  case False
  define c where "c = (if int count > int bsize - pos then nat (int bsize - pos) else count)"
  have c: "c mod 4 = 0 \<Longrightarrow> pos + 4 * int (c div 4) \<le> int bsize" "pos + int c \<le> int bsize"
    using clamp_count [OF assms(1) _ c_def] False by simp_all
  note p = assms(1) [unfolded pos_ok_def]
  have "c \<le> count" by (auto simp: c_def)
  then have w: "c div 4 \<le> length ws" using assms(4) by linarith
  show ?thesis
  proof (cases "c mod 4 = 0")
    case False
    with assms(2) \<open>\<not> pos \<ge> int bsize\<close> assms(1) show ?thesis
      by (auto simp: block_write_def c_def [symmetric] Let_def touches_refl)
  next
    case True
    have le: "c div 4 \<le> bsize div 4" using p c(2) by linarith
    let ?vs = "take (c div 4) (take (c div 4) ws @ drop (c div 4) buf)"
    have "length ?vs = c div 4" using w by simp
    then have t: "touches (block_words base bsize) s (libera_writelBlock (base + of_int pos) ?vs s)"
      by (rule block_transfer_touches(2) [OF assms(1) c(1) [OF True]])
    have "int c mod 4 = 0" using True by presburger
    then have "(pos + int c) mod 4 = 0" using p by presburger
    with assms(2,3) \<open>\<not> pos \<ge> int bsize\<close> True t p c(2) le w show ?thesis
      by (auto simp: block_write_def c_def [symmetric] Let_def pos_ok_def touches_refl split: if_splits)
  qed
qed

section \<open>Sessions\<close>

datatype blkop = Seek int int | ReadB nat nat | WriteB nat nat "u32 list"

text \<open>What a session does to the file, the buffer and the registers.\<close>

fun blk_run ::
  "(filep \<Rightarrow> int \<Rightarrow> int \<Rightarrow> int \<times> filep) \<Rightarrow> (filep \<Rightarrow> nat \<Rightarrow> nat \<Rightarrow> libera \<Rightarrow> int \<times> filep \<times> u32 list \<times> libera) \<Rightarrow>
     (filep \<Rightarrow> nat \<Rightarrow> nat \<Rightarrow> u32 list \<Rightarrow> libera \<Rightarrow> int \<times> filep \<times> libera) \<Rightarrow> blkop list \<Rightarrow> filep \<times> libera
     \<Rightarrow> filep \<times> libera"
where
  "blk_run sk rd wr [] (f, s) = (f, s)"
| "blk_run sk rd wr (Seek off whence # ps) (f, s) = blk_run sk rd wr ps (snd (sk f off whence), s)"
| "blk_run sk rd wr (ReadB count left # ps) (f, s) =
     (let (r, f, out, s) = rd f count left s in blk_run sk rd wr ps (f, s))"
| "blk_run sk rd wr (WriteB count left ws # ps) (f, s) =
     (let (r, f, s) = wr f count left ws s in blk_run sk rd wr ps (f, s))"

fun blkop_ok :: "blkop \<Rightarrow> bool" where
  "blkop_ok (WriteB count left ws) \<longleftrightarrow> count \<le> 4 * length ws"
| "blkop_ok _ \<longleftrightarrow> True"

locale block_device =
  fixes base :: u32 and bsize :: nat
    and sk :: "filep \<Rightarrow> int \<Rightarrow> int \<Rightarrow> int \<times> filep"
    and rd :: "filep \<Rightarrow> nat \<Rightarrow> nat \<Rightarrow> libera \<Rightarrow> int \<times> filep \<times> u32 list \<times> libera"
    and wr :: "filep \<Rightarrow> nat \<Rightarrow> nat \<Rightarrow> u32 list \<Rightarrow> libera \<Rightarrow> int \<times> filep \<times> libera"
    and buf :: "libera \<Rightarrow> u32 list"
  assumes sk_pos: "pos_ok bsize (f_pos f) \<Longrightarrow> pos_ok bsize (f_pos (snd (sk f off whence)))"
    and rd_safe: "pos_ok bsize (f_pos f) \<Longrightarrow> length (buf s) = bsize div 4 \<Longrightarrow>
      rd f count left s = (r, f', out, s') \<Longrightarrow>
      pos_ok bsize (f_pos f') \<and> touches (block_words base bsize) s s' \<and> length (buf s') = bsize div 4"
    and wr_safe: "pos_ok bsize (f_pos f) \<Longrightarrow> length (buf s) = bsize div 4 \<Longrightarrow> count \<le> 4 * length ws \<Longrightarrow>
      wr f count left ws s = (r, f', s') \<Longrightarrow>
      pos_ok bsize (f_pos f') \<and> touches (block_words base bsize) s s' \<and> length (buf s') = bsize div 4"
begin

lemma session_safe:
  assumes "pos_ok bsize (f_pos f)" "length (buf s) = bsize div 4" "list_all blkop_ok ps"
    and "blk_run sk rd wr ps (f, s) = (f', s')"
  shows "pos_ok bsize (f_pos f') \<and> touches (block_words base bsize) s s' \<and> length (buf s') = bsize div 4"
  using assms
proof (induction ps arbitrary: f s)
  case Nil
  then show ?case by (simp add: touches_refl)
next
  case (Cons p ps)
  show ?case
  proof (cases p)
    case (Seek off whence)
    then show ?thesis
      using Cons.IH [of "snd (sk f off whence)" s] Cons.prems sk_pos [OF Cons.prems(1), of off whence]
      by simp
  next
    case (ReadB count left)
    obtain r f1 out s1 where e: "rd f count left s = (r, f1, out, s1)" by (metis surj_pair)
    from rd_safe [OF Cons.prems(1,2) e] Cons.IH [of f1 s1] Cons.prems ReadB e show ?thesis
      by (auto intro: touches_trans)
  next
    case (WriteB count left ws)
    obtain r f1 s1 where e: "wr f count left ws s = (r, f1, s1)" by (metis surj_pair)
    have "count \<le> 4 * length ws" using Cons.prems(3) WriteB by simp
    from wr_safe [OF Cons.prems(1,2) this e] Cons.IH [of f1 s1] Cons.prems WriteB e show ?thesis
      by (auto intro: touches_trans)
  qed
qed

end

lemma touches_same_trace: "touches A s t \<Longrightarrow> trace u = trace t \<Longrightarrow> touches A s u"
  by (simp add: touches_def)

lemma blk_more [simp]:
  "lgbl (snd (libera_readlBlock a n s)) = lgbl (s :: libera)" "fa (snd (libera_readlBlock a n s)) = fa (s :: libera)"
  "dsc (snd (libera_readlBlock a n s)) = dsc (s :: libera)"
  "fa (libera_writelBlock a vs s) = fa (s :: libera)" "dsc (libera_writelBlock a vs s) = dsc (s :: libera)"
proof -
  show "lgbl (snd (libera_readlBlock a n s)) = lgbl (s :: libera)" "fa (snd (libera_readlBlock a n s)) = fa (s :: libera)"
    "dsc (snd (libera_readlBlock a n s)) = dsc (s :: libera)"
    by (induction n arbitrary: a s) (simp_all add: Let_def case_prod_unfold readl_def)
  show "fa (libera_writelBlock a vs s) = fa (s :: libera)" "dsc (libera_writelBlock a vs s) = dsc (s :: libera)"
    by (induction a vs s rule: libera_writelBlock.induct) (simp_all add: writel_def)
qed

interpretation fa_blk: block_device FAI_BLOCK FAI_BLOCKSIZE libera_fa_llseek "libera_fa_read c"
  "libera_fa_write c" "\<lambda>s. blk_buf (fa s)" for c
proof
  fix f :: filep and off whence :: int
  assume "pos_ok FAI_BLOCKSIZE (f_pos f)"
  then show "pos_ok FAI_BLOCKSIZE (f_pos (snd (libera_fa_llseek f off whence)))"
    unfolding libera_fa_llseek_def by (rule seek_ok)
next
  fix f f' :: filep and s s' :: libera and count left r out
  assume a: "pos_ok FAI_BLOCKSIZE (f_pos f)" "length (blk_buf (fa s)) = FAI_BLOCKSIZE div 4"
    "libera_fa_read c f count left s = (r, f', out, s')"
  then show "pos_ok FAI_BLOCKSIZE (f_pos f') \<and> touches (block_words FAI_BLOCK FAI_BLOCKSIZE) s s' \<and>
      length (blk_buf (fa s')) = FAI_BLOCKSIZE div 4"
    using block_read_safe [OF a(1), of FAI_BLOCK count left "blk_buf (fa s)" s]
    by (auto simp: libera_fa_read_def touches_refl split: if_splits prod.splits intro: touches_same_trace)
next
  fix f f' :: filep and s s' :: libera and count left r ws
  assume a: "pos_ok FAI_BLOCKSIZE (f_pos f)" "length (blk_buf (fa s)) = FAI_BLOCKSIZE div 4"
    "count \<le> 4 * length ws" "libera_fa_write c f count left ws s = (r, f', s')"
  then show "pos_ok FAI_BLOCKSIZE (f_pos f') \<and> touches (block_words FAI_BLOCK FAI_BLOCKSIZE) s s' \<and>
      length (blk_buf (fa s')) = FAI_BLOCKSIZE div 4"
    using block_write_safe [OF a(1) _ a(2,3), of FAI_BLOCK left s]
    by (auto simp: libera_fa_write_def touches_refl split: if_splits prod.splits intro: touches_same_trace)
qed

interpretation dsc_blk: block_device DSC_BLOCK DSC_BLOCKSIZE libera_dsc_llseek "libera_dsc_read c"
  "libera_dsc_write c" "\<lambda>s. blk_buf (dsc s)" for c
proof
  fix f :: filep and off whence :: int
  assume "pos_ok DSC_BLOCKSIZE (f_pos f)"
  then show "pos_ok DSC_BLOCKSIZE (f_pos (snd (libera_dsc_llseek f off whence)))"
    unfolding libera_dsc_llseek_def by (rule seek_ok)
next
  fix f f' :: filep and s s' :: libera and count left r out
  assume a: "pos_ok DSC_BLOCKSIZE (f_pos f)" "length (blk_buf (dsc s)) = DSC_BLOCKSIZE div 4"
    "libera_dsc_read c f count left s = (r, f', out, s')"
  then show "pos_ok DSC_BLOCKSIZE (f_pos f') \<and> touches (block_words DSC_BLOCK DSC_BLOCKSIZE) s s' \<and>
      length (blk_buf (dsc s')) = DSC_BLOCKSIZE div 4"
    using block_read_safe [OF a(1), of DSC_BLOCK count left "blk_buf (dsc s)" s]
    by (auto simp: libera_dsc_read_def touches_refl split: if_splits prod.splits intro: touches_same_trace)
next
  fix f f' :: filep and s s' :: libera and count left r ws
  assume a: "pos_ok DSC_BLOCKSIZE (f_pos f)" "length (blk_buf (dsc s)) = DSC_BLOCKSIZE div 4"
    "count \<le> 4 * length ws" "libera_dsc_write c f count left ws s = (r, f', s')"
  then show "pos_ok DSC_BLOCKSIZE (f_pos f') \<and> touches (block_words DSC_BLOCK DSC_BLOCKSIZE) s s' \<and>
      length (blk_buf (dsc s')) = DSC_BLOCKSIZE div 4"
    using block_write_safe [OF a(1) _ a(2,3), of DSC_BLOCK left s]
    by (auto simp: libera_dsc_write_def touches_refl split: if_splits prod.splits intro: touches_same_trace)
qed

text \<open>
  C25: the FA device never leaves its block. Whatever sequence of seeks, reads and writes is made on
  an open file (with a user buffer as long as the count of each write), from a position inside the
  block every register accessed is one of the block's 32-bit words, the position stays inside the
  block and on a word, and the internal copy of the block keeps its size, so the block transfers
  never overrun it.
\<close>

theorem fa_session_safe:
  assumes "pos_ok FAI_BLOCKSIZE (f_pos f)" "length (blk_buf (fa s)) = FAI_BLOCKSIZE div 4"
    and "list_all blkop_ok ps"
    and "blk_run libera_fa_llseek (libera_fa_read c) (libera_fa_write c) ps (f, s) = (f', s')"
  shows "pos_ok FAI_BLOCKSIZE (f_pos f') \<and> touches (block_words FAI_BLOCK FAI_BLOCKSIZE) s s' \<and>
    length (blk_buf (fa s')) = FAI_BLOCKSIZE div 4"
  using assms by (rule fa_blk.session_safe)

definition calm_ctx :: ctx where
  "calm_ctx = \<lparr>wake = (\<lambda>s. s), sigpend = (\<lambda>_. False), lock_intr = (\<lambda>_. False), timeleft = (\<lambda>_ n. n - 1),
      jiffies = (\<lambda>_. 0), dma_waiter = (\<lambda>_. False)\<rparr>"

theorem fa_session_safe_witness:
  "pos_ok FAI_BLOCKSIZE (f_pos (fst (blk_run libera_fa_llseek (libera_fa_read calm_ctx) (libera_fa_write calm_ctx)
     [Seek (-8) 2, WriteB 16 0 [1, 2, 3, 4], Seek (-8) 2, ReadB 400 0]
     (\<lparr>filp = 1, f_read = True, f_write = True, f_nonblock = False, f_pos = 0\<rparr>, libera_bss (\<lambda>_ _. 0)))))"
proof -
  obtain f' s' where r: "blk_run libera_fa_llseek (libera_fa_read calm_ctx) (libera_fa_write calm_ctx)
     [Seek (-8) 2, WriteB 16 0 [1, 2, 3, 4], Seek (-8) 2, ReadB 400 0]
     (\<lparr>filp = 1, f_read = True, f_write = True, f_nonblock = False, f_pos = 0\<rparr>, libera_bss (\<lambda>_ _. 0)) = (f', s')"
    by (metis surj_pair)
  have "length (blk_buf (fa (libera_bss (\<lambda>_ _. 0)))) = FAI_BLOCKSIZE div 4"
    by (simp add: libera_bss_def)
  moreover have "pos_ok FAI_BLOCKSIZE (f_pos \<lparr>filp = 1, f_read = True, f_write = True, f_nonblock = False, f_pos = 0\<rparr>)"
    by (simp add: pos_ok_def)
  ultimately have "pos_ok FAI_BLOCKSIZE (f_pos f')"
    using fa_session_safe [OF _ _ _ r] by simp
  then show ?thesis unfolding r by simp
qed

section \<open>Writing and reading back\<close>

text \<open>What was last written to an address.\<close>

fun last_write :: "io list \<Rightarrow> u32 \<Rightarrow> u32 option" where
  "last_write [] a = None"
| "last_write (Rd b v # tr) a = last_write tr a"
| "last_write (Wr b v # tr) a = (if b = a then Some v else last_write tr a)"

text \<open>A block of the FPGA that keeps what is written to it.\<close>

definition remembers :: "u32 set \<Rightarrow> (io list \<Rightarrow> u32 \<Rightarrow> u32) \<Rightarrow> bool" where
  "remembers A f \<longleftrightarrow> (\<forall>tr. \<forall>a\<in>A. \<forall>v. last_write tr a = Some v \<longrightarrow> f tr a = v)"

lemma last_write_reads: "last_write (trace (snd (libera_readlBlock a n s))) b = last_write (trace s) b"
  by (induction n arbitrary: a s) (simp_all add: Let_def case_prod_unfold)

lemma last_write_other:
  assumes "\<forall>i < length vs. a + 4 * of_nat i \<noteq> b"
  shows "last_write (trace (libera_writelBlock a vs s)) b = last_write (trace s) b"
  using assms
proof (induction a vs s rule: libera_writelBlock.induct)
  case (1 a s)
  then show ?case by simp
next
  case (2 a v vs s)
  have "\<forall>i < length vs. a + 4 + 4 * of_nat i \<noteq> b"
  proof (intro allI impI)
    fix i assume "i < length vs"
    then show "a + 4 + 4 * of_nat i \<noteq> b"
      using "2.prems" [rule_format, of "Suc i"] by (simp add: algebra_simps)
  qed
  moreover have "a \<noteq> b" using "2.prems" [rule_format, of 0] by simp
  ultimately show ?case using "2.IH" by simp
qed

lemma word4_inj:
  assumes "4 * i < 4294967296" "4 * j < 4294967296" "4 * of_nat i = (4 * of_nat j :: u32)"
  shows "i = j"
proof -
  have "unat (of_nat (4 * k) :: u32) = 4 * k" if "4 * k < 4294967296" for k
    using that by (simp only: unsigned_of_nat) (simp add: take_bit_nat_eq_self)
  with assms have "4 * i = 4 * j" by (metis of_nat_mult of_nat_numeral)
  then show ?thesis by simp
qed

lemma last_write_block:
  assumes "4 * length vs < 4294967296" "i < length vs"
  shows "last_write (trace (libera_writelBlock a vs s)) (a + 4 * of_nat i) = Some (vs ! i)"
  using assms
proof (induction a vs s arbitrary: i rule: libera_writelBlock.induct)
  case (1 a s)
  then show ?case by simp
next
  case (2 a v vs s)
  show ?case
  proof (cases i)
    case 0
    have "\<forall>j < length vs. a + 4 + 4 * of_nat j \<noteq> a"
    proof (intro allI impI notI)
      fix j assume j: "j < length vs" "a + 4 + 4 * of_nat j = a"
      then have "4 * of_nat (Suc j) = (4 * of_nat 0 :: u32)" by (simp add: algebra_simps)
      then have "Suc j = 0" using "2.prems"(1) j(1) by (intro word4_inj) simp_all
      then show False by simp
    qed
    then show ?thesis using 0 last_write_other [of vs "a + 4" a "writel v a s"] by simp
  next
    case (Suc j)
    then have "last_write (trace (libera_writelBlock (a + 4) vs (writel v a s))) (a + 4 + 4 * of_nat j) =
        Some (vs ! j)"
      using "2.prems" by (intro "2.IH") simp_all
    then show ?thesis using Suc by (simp add: algebra_simps)
  qed
qed

lemma readlBlock_memory:
  assumes "remembers A (fpga s)" "\<forall>i<length vs. a + 4 * of_nat i \<in> A \<and>
      last_write (trace s) (a + 4 * of_nat i) = Some (vs ! i)"
  shows "fst (libera_readlBlock a (length vs) s) = vs"
  using assms
proof (induction vs arbitrary: a s)
  case Nil
  then show ?case by simp
next
  case (Cons v vs)
  have "\<forall>i<length vs. a + 4 + 4 * of_nat i \<in> A \<and>
      last_write (trace (snd (readl a s))) (a + 4 + 4 * of_nat i) = Some (vs ! i)"
  proof (intro allI impI)
    fix i assume "i < length vs"
    then show "a + 4 + 4 * of_nat i \<in> A \<and>
        last_write (trace (snd (readl a s))) (a + 4 + 4 * of_nat i) = Some (vs ! i)"
      using Cons.prems(2) [rule_format, of "Suc i"] by (simp add: algebra_simps)
  qed
  then have "fst (libera_readlBlock (a + 4) (length vs) (snd (readl a s))) = vs"
    using Cons.prems(1) by (intro Cons.IH) simp_all
  moreover have "fpga s (trace s) a = v"
    using Cons.prems(2) [rule_format, of 0] Cons.prems(1) by (auto simp: remembers_def)
  ultimately show ?case by (simp add: Let_def case_prod_unfold)
qed

lemma writelBlock_fpga: "fpga (libera_writelBlock a vs s) = fpga s"
  by (induction a vs s rule: libera_writelBlock.induct) simp_all

text \<open>
  C26: what is written to the FA block is what is read back from the same position, for any number
  of whole words that fits between the position and the end of the block, if the FPGA keeps what
  is written to the block; both calls move the position by the number of bytes they report.
\<close>

theorem fa_write_read:
  assumes pos: "pos_ok FAI_BLOCKSIZE (f_pos f)" "f_pos f < int FAI_BLOCKSIZE"
    and fits: "f_pos f + 4 * int (length ws) \<le> int FAI_BLOCKSIZE"
    and mem: "remembers (block_words FAI_BLOCK FAI_BLOCKSIZE) (fpga s)"
    and intr: "\<And>s. \<not> lock_intr c s"
    and w: "libera_fa_write c f (4 * length ws) 0 ws s = (r, f1, s1)"
  shows "r = 4 * int (length ws) \<and> f_pos f1 = f_pos f + r \<and>
    (\<exists>f2 s2. libera_fa_read c f (4 * length ws) 0 s1 = (r, f2, ws, s2) \<and> f_pos f2 = f_pos f1)"
proof -
  let ?n = "length ws" let ?a = "FAI_BLOCK + of_int (f_pos f) :: u32"
  let ?s = "libera_writelBlock ?a ws s"
  have clamp: "\<not> int (4 * ?n) > int FAI_BLOCKSIZE - f_pos f" "(4 * ?n) mod 4 = 0" using fits by auto
  from w have r: "r = 4 * int ?n" "f_pos f1 = f_pos f + r" and s1: "s1 = ?s\<lparr>fa := (fa ?s)\<lparr>blk_buf := blk_buf (fa s1)\<rparr>\<rparr>"
    using pos(2) clamp intr by (auto simp: libera_fa_write_def block_write_def Let_def)
  have s1': "trace s1 = trace ?s" "fpga s1 = fpga s"
    by (subst s1, simp add: writelBlock_fpga)+
  have len: "4 * ?n < 4294967296" using fits pos by (simp add: pos_ok_def FAI_BLOCKSIZE_def)
  have "?a + 4 * of_nat i \<in> block_words FAI_BLOCK FAI_BLOCKSIZE" if "i < ?n" for i
  proof -
    have "nat (f_pos f) div 4 + i < FAI_BLOCKSIZE div 4"
      using that fits pos(1) by (simp add: pos_ok_def) linarith
    moreover have "?a + 4 * of_nat i = FAI_BLOCK + 4 * of_nat (nat (f_pos f) div 4 + i)"
      using pos(1) by (intro word_of_pos) (simp_all add: pos_ok_def)
    ultimately show ?thesis unfolding block_words_def by blast
  qed
  then have "fst (libera_readlBlock ?a ?n s1) = ws"
    using mem last_write_block [OF len, of _ ?a s]
    by (intro readlBlock_memory [of "block_words FAI_BLOCK FAI_BLOCKSIZE"]) (simp_all add: s1')
  then have "libera_fa_read c f (4 * ?n) 0 s1 =
      (r, f\<lparr>f_pos := f_pos f + r\<rparr>, ws, (snd (libera_readlBlock ?a ?n s1))
        \<lparr>fa := (fa (snd (libera_readlBlock ?a ?n s1)))\<lparr>blk_buf := ws @ drop ?n (blk_buf (fa s1))\<rparr>\<rparr>)"
    using pos(2) clamp intr r(1)
    by (simp add: libera_fa_read_def block_read_def Let_def case_prod_unfold)
  with r show ?thesis by simp
qed

definition ram_fpga :: "io list \<Rightarrow> u32 \<Rightarrow> u32" where
  "ram_fpga tr a = (case last_write tr a of None \<Rightarrow> 0 | Some v \<Rightarrow> v)"

theorem fa_write_read_witness:
  "\<exists>f1 s1. libera_fa_write calm_ctx \<lparr>filp = 1, f_read = True, f_write = True, f_nonblock = False, f_pos = 8\<rparr>
      12 0 [7, 8, 9] (libera_bss ram_fpga) = (12, f1, s1) \<and>
    (\<exists>f2 s2. libera_fa_read calm_ctx \<lparr>filp = 1, f_read = True, f_write = True, f_nonblock = False, f_pos = 8\<rparr>
      12 0 s1 = (12, f2, [7, 8, 9], s2))"
proof -
  let ?f = "\<lparr>filp = 1, f_read = True, f_write = True, f_nonblock = False, f_pos = 8\<rparr>"
  obtain r f1 s1 where w: "libera_fa_write calm_ctx ?f (4 * length [7 :: u32, 8, 9]) 0 [7, 8, 9] (libera_bss ram_fpga) = (r, f1, s1)"
    by (metis surj_pair)
  have "pos_ok FAI_BLOCKSIZE (f_pos ?f)" "f_pos ?f < int FAI_BLOCKSIZE"
    "f_pos ?f + 4 * int (length [7 :: u32, 8, 9]) \<le> int FAI_BLOCKSIZE"
    by (simp_all add: pos_ok_def FAI_BLOCKSIZE_def)
  moreover have "remembers (block_words FAI_BLOCK FAI_BLOCKSIZE) (fpga (libera_bss ram_fpga))"
    by (simp add: remembers_def ram_fpga_def libera_bss_def)
  moreover have "\<And>s. \<not> lock_intr calm_ctx s" by (simp add: calm_ctx_def)
  ultimately show ?thesis
    using fa_write_read [OF _ _ _ _ _ w] w by auto
qed

end
