(* ===== verification/Sa.thy ===== *)
theory Sa
  imports Trigger
begin

text \<open>
  Slow acquisition: the pipes of the readers (\<^verbatim>\<open>drivers/libera/libera_sa.c\<close>, \<^verbatim>\<open>libera_sa.h\<close>), the
  interrupt handler that reads atoms from the FPGA into a circular buffer and the tasklet that
  dispatches them to the pipes (\<^verbatim>\<open>ebpp.c\<close>, \<^verbatim>\<open>libera_main.c\<close>).
\<close>

definition LIBERA_SA_MAX_READERS :: nat where [reg_defs]: "LIBERA_SA_MAX_READERS = 16"
definition SA_FIFO_DEPTH :: nat where [reg_defs]: "SA_FIFO_DEPTH = 32"

text \<open>The size of an atom in bytes.\<close>

definition atom_bytes :: nat where [reg_defs]: "atom_bytes = 64"

section \<open>Pipes\<close>

text \<open>The pipe at an address. The invariant below shows that only allocated addresses are used.\<close>

definition pipe_at :: "nat \<Rightarrow> libera \<Rightarrow> sa_local" where
  "pipe_at a s = (case sa_heap (sa s) a of None \<Rightarrow> \<lparr>sl_sem = False, sl_pipe = zero_ring []\<rparr> | Some p \<Rightarrow> p)"

definition set_pipe :: "nat \<Rightarrow> sa_local \<Rightarrow> libera \<Rightarrow> libera" where
  "set_pipe a p s = s\<lparr>sa := (sa s)\<lparr>sa_heap := (sa_heap (sa s))(a := Some p)\<rparr>\<rparr>"

fun pipe_put_atoms :: "sa_atom list \<Rightarrow> int \<Rightarrow> sa_atom ring \<Rightarrow> int \<times> sa_atom ring" where
  "pipe_put_atoms [] wr q = (wr, q)"
| "pipe_put_atoms (d # ds) wr q =
     (let (r, q) = putTo_saFIFO d q
      in if r \<noteq> 0 then (wr, q) else pipe_put_atoms ds (wr + int atom_bytes) q)"

definition libera_pipe_write :: "sa_atom ring \<Rightarrow> sa_atom list \<Rightarrow> nat \<Rightarrow> int \<times> sa_atom ring" where
  "libera_pipe_write q buf count =
     (if count = 0 then (0, q)
      else if count mod atom_bytes \<noteq> 0 then (- EINVAL, q)
      else
        let sa_count = count div atom_bytes in
        if unat (free_saFIFO q) < sa_count then (- EFAULT, q)
        else pipe_put_atoms (take sa_count buf) 0 q)"

section \<open>Registration\<close>

definition libera_register_pipe :: "nat \<Rightarrow> registered_pipes \<Rightarrow> int \<times> registered_pipes" where
  "libera_register_pipe a p =
     (let p = p\<lparr>sa_pipe := (sa_pipe p)(next_pipe p := Some a)\<rparr>;
          p = p\<lparr>registered := registered p + 1\<rparr>;
          p = (case find (\<lambda>i. sa_pipe p i = None) [0..<LIBERA_SA_MAX_READERS] of
                 None \<Rightarrow> p | Some i \<Rightarrow> p\<lparr>next_pipe := i\<rparr>)
      in (-1, p))"

definition libera_unregister_pipe :: "nat \<Rightarrow> registered_pipes \<Rightarrow> int \<times> registered_pipes" where
  "libera_unregister_pipe a p =
     (case find (\<lambda>i. sa_pipe p i = Some a) [0..<LIBERA_SA_MAX_READERS] of
        Some i \<Rightarrow> (0, p\<lparr>registered := registered p - 1, sa_pipe := (sa_pipe p)(i := None), next_pipe := i\<rparr>)
      | None \<Rightarrow> (-1, p))"

text \<open>
  Opening allocates a pipe, whose address (\<open>mem\<close>, what \<^verbatim>\<open>kmalloc\<close> returns) is kept in the file: the
  second component of the result. Closing gets the address from the file.
\<close>

definition libera_sa_open :: "nat option \<Rightarrow> filep \<Rightarrow> libera \<Rightarrow> int \<times> nat option \<times> libera" where
  "libera_sa_open mem f s =
     (let fail = (\<lambda>e. (e, None, s\<lparr>sa := (sa s)\<lparr>sa_com := (sa_com (sa s))\<lparr>sem := False\<rparr>\<rparr>\<rparr>)) in
      if f_write f then fail (- EACCES)
      else if registered (pipes (sa s)) < int LIBERA_SA_MAX_READERS then
        (case mem of
           None \<Rightarrow> fail (- ENOMEM)
         | Some a \<Rightarrow>
             let s = set_pipe a \<lparr>sl_sem = False, sl_pipe = flush_saFIFO (zero_ring [])\<rparr> s;
                 s = s\<lparr>sa := (sa s)\<lparr>pipes := snd (libera_register_pipe a (pipes (sa s)))\<rparr>\<rparr>;
                 c = sa_com (sa s);
                 c = (if f_read f \<and> master_filp c = None then c\<lparr>master_filp := Some (filp f)\<rparr> else c);
                 c = c\<lparr>readers := readers c + 1\<rparr>;
                 c = c\<lparr>open_count := open_count c + 1\<rparr>
             in (0, Some a, s\<lparr>sa := (sa s)\<lparr>sa_com := c\<lparr>sem := False\<rparr>\<rparr>\<rparr>))
      else fail (- EBUSY))"

definition libera_sa_release :: "nat \<Rightarrow> libera \<Rightarrow> int \<times> libera" where
  "libera_sa_release a s =
     (let (r, p) = libera_unregister_pipe a (pipes (sa s));
          s = s\<lparr>sa := (sa s)\<lparr>pipes := p\<rparr>\<rparr>;
          s = (if r < 0 then s else s\<lparr>sa := (sa s)\<lparr>sa_heap := (sa_heap (sa s))(a := None)\<rparr>\<rparr>);
          c = sa_com (sa s);
          c = c\<lparr>open_count := open_count c - 1\<rparr>;
          c = c\<lparr>readers := readers c - 1\<rparr>;
          c = (if readers c = 0 then c\<lparr>master_filp := None\<rparr> else c)
      in (0, s\<lparr>sa := (sa s)\<lparr>sa_com := c\<lparr>sem := False\<rparr>\<rparr>\<rparr>))"

section \<open>Reading a pipe\<close>

definition lock_pipe :: "nat \<Rightarrow> bool \<Rightarrow> libera \<Rightarrow> libera" where
  "lock_pipe a b s = set_pipe a ((pipe_at a s)\<lparr>sl_sem := b\<rparr>) s"

partial_function (option) wait_pipe :: "ctx \<Rightarrow> nat \<Rightarrow> libera \<Rightarrow> (int \<times> libera) option" where
  "wait_pipe c a s =
     (if not_empty_saFIFO (sl_pipe (pipe_at a s)) then Some (0, s)
      else if \<not> sigpend c s then wait_pipe c a (lock_pipe a True (schedule c (lock_pipe a False s)))
      else Some (- ERESTARTSYS, s))"

text \<open>
  The copying loop: \<open>n\<close> atoms to go, of which the user's buffer takes \<open>room\<close> before a copy fails.
\<close>

definition sa_copy_atoms :: "nat \<Rightarrow> nat \<Rightarrow> int \<Rightarrow> sa_atom list \<Rightarrow> sa_atom ring \<Rightarrow> int \<times> sa_atom list \<times> sa_atom ring" where
  "sa_copy_atoms = copy_out getFrom_saFIFO (int atom_bytes)"

definition libera_sa_read ::
  "ctx \<Rightarrow> filep \<Rightarrow> nat \<Rightarrow> nat \<Rightarrow> nat \<Rightarrow> int \<Rightarrow> libera \<Rightarrow> (int \<times> sa_atom list \<times> libera) option"
where
  "libera_sa_read c f a count room pos s =
     (if pos \<noteq> f_pos f then Some (- ESPIPE, [], s)
      else if count = 0 then Some (0, [], s)
      else if lock_intr c s then Some (- ERESTARTSYS, [], s)
      else
        let s = lock_pipe a True s in
        if count mod atom_bytes \<noteq> 0 then Some (- EINVAL, [], lock_pipe a False s)
        else if empty_saFIFO (sl_pipe (pipe_at a s)) \<and> f_nonblock f
        then Some (- EAGAIN, [], lock_pipe a False s)
        else
          case (if empty_saFIFO (sl_pipe (pipe_at a s)) then wait_pipe c a s else Some (0, s)) of
            None \<Rightarrow> None
          | Some (ret, s) \<Rightarrow>
              if ret \<noteq> 0 then Some (ret, [], lock_pipe a False s)
              else
                let len = unat (len_saFIFO (sl_pipe (pipe_at a s)));
                    sa_count = count div atom_bytes;
                    sa_count = (if sa_count < len then sa_count else len);
                    (ret, out, q) = sa_copy_atoms sa_count room 0 [] (sl_pipe (pipe_at a s));
                    s = set_pipe a ((pipe_at a s)\<lparr>sl_pipe := q\<rparr>) s
                in Some (ret, out, lock_pipe a False s))"

section \<open>Interrupt and tasklet\<close>

definition libera_sa_incr_atom :: "nat \<Rightarrow> nat" where
  "libera_sa_incr_atom p = (if p = SA_FIFO_DEPTH - 1 then 0 else p + 1)"

definition sa_check_overrun :: "u32 \<Rightarrow> libera \<Rightarrow> libera" where
  "sa_check_overrun FIFOstatus s =
     (if SA_INOVR FIFOstatus \<noteq> 0 then s\<lparr>sa := (sa s)\<lparr>inputovr := True\<rparr>\<rparr> else s)"

text \<open>One atom: eight words of slow acquisition data and eight of the FAI.\<close>

definition sa_read_atom :: "libera \<Rightarrow> libera" where
  "sa_read_atom s =
     (let (va, s) = libera_readlBlock SA_FIFO_BASE 8 s;
          (vb, s) = libera_readlBlock FAI_CORR_BASE 8 s;
          d = sa s
      in s\<lparr>sa := d\<lparr>sa_buf := (sa_buf d)(buf_head d := va @ vb),
                   buf_head := libera_sa_incr_atom (buf_head d)\<rparr>\<rparr>)"

partial_function (option) sa_handler_loop :: "libera \<Rightarrow> libera option" where
  "sa_handler_loop s =
     (let s = sa_read_atom s;
          (FIFOstatus, s) = readl SA_STATUS s;
          s = sa_check_overrun FIFOstatus s
      in if SA_SIZE FIFOstatus \<noteq> 0 then sa_handler_loop s else Some s)"

definition libera_sa_handler_specific :: "libera \<Rightarrow> libera option" where
  "libera_sa_handler_specific s =
     (let (FIFOstatus, s) = readl SA_STATUS s;
          s = sa_check_overrun FIFOstatus s
      in sa_handler_loop s)"

text \<open>The handler returns with the tasklet scheduled.\<close>

definition libera_sa_handler :: "libera \<Rightarrow> libera option" where
  "libera_sa_handler s = libera_sa_handler_specific s"

text \<open>Dispatching the atom at the tail to the pipe in slot \<open>i\<close>.\<close>

definition sa_dispatch :: "nat \<Rightarrow> libera \<Rightarrow> libera" where
  "sa_dispatch i s =
     (case sa_pipe (pipes (sa s)) i of
        None \<Rightarrow> s
      | Some a \<Rightarrow>
          let (ret, q) = libera_pipe_write (sl_pipe (pipe_at a s)) [sa_buf (sa s) (buf_tail (sa s))] atom_bytes;
              s = set_pipe a ((pipe_at a s)\<lparr>sl_pipe := q\<rparr>) s
          in if ret = - EFAULT then send_event LIBERA_EVENT_OVERFLOW LIBERA_OVERFLOW_SA_DRV s
             else wake_up_interruptible (SA_wait a) s)"

definition sa_dispatch_atom :: "libera \<Rightarrow> libera" where
  "sa_dispatch_atom s =
     (let s = fold sa_dispatch [0..<LIBERA_SA_MAX_READERS] s;
          s = s\<lparr>sa := (sa s)\<lparr>buf_tail := libera_sa_incr_atom (buf_tail (sa s))\<rparr>\<rparr>
      in send_event LIBERA_EVENT_SA 1 s)"

partial_function (option) sa_tasklet_loop :: "libera \<Rightarrow> libera option" where
  "sa_tasklet_loop s =
     (let s = sa_dispatch_atom s
      in if buf_tail (sa s) \<noteq> buf_head (sa s) then sa_tasklet_loop s else Some s)"

definition libera_sa_do_tasklet_specific :: "libera \<Rightarrow> libera option" where
  "libera_sa_do_tasklet_specific s =
     (let s = (if inputovr (sa s) then
                 send_event LIBERA_EVENT_OVERFLOW LIBERA_OVERFLOW_SA_FPGA
                   (s\<lparr>sa := (sa s)\<lparr>inputovr := False\<rparr>\<rparr>)
               else s)
      in sa_tasklet_loop s)"

definition libera_sa_do_tasklet :: "libera \<Rightarrow> libera option" where
  "libera_sa_do_tasklet s = libera_sa_do_tasklet_specific s"

section \<open>Writing an atom to a pipe\<close>

lemma pipe_write_one:
  assumes "sa_wf q"
  shows "libera_pipe_write q [d] atom_bytes =
      (if length (sa_contents q) < 63 then int atom_bytes else 0, snd (putTo_saFIFO d q))"
proof -
  have b: "length (sa_contents q) \<le> 63" using sa.bounded [OF assms] .
  have l: "unat (len_saFIFO q) = length (sa_contents q)" using sa.len_contents [OF assms] .
  have "unat (free_saFIFO q) = 64 - length (sa_contents q)"
  proof -
    have "len_saFIFO q \<le> 64" using b l by (simp add: word_le_nat_alt)
    then show ?thesis using l by (simp add: free_saFIFO_def SA_LOG_def unat_sub_le)
  qed
  then have f: "\<not> unat (free_saFIFO q) < 1" using b by simp
  have r: "fst (putTo_saFIFO d q) = (if length (sa_contents q) < 63 then 0 else -1)"
    using sa.enq_room [OF assms, of d] sa.enq_full [OF assms, of d] b by fastforce
  then show ?thesis
    using f by (simp add: libera_pipe_write_def Let_def case_prod_unfold atom_bytes_def)
qed

section \<open>The registration invariant\<close>

text \<open>
  Every occupied slot of the table names an allocated pipe with indices inside its array, no pipe
  is in two slots and none is allocated without a slot; the counters agree with the table; while a
  slot is free, \<open>next_pipe\<close> is one.
\<close>

definition sa_slots :: "libera \<Rightarrow> nat set" where
  "sa_slots s = {i. sa_pipe (pipes (sa s)) i \<noteq> None}"

definition sa_inv :: "libera \<Rightarrow> bool" where
  "sa_inv s \<longleftrightarrow>
     sa_slots s \<subseteq> {..<LIBERA_SA_MAX_READERS} \<and>
     inj_on (sa_pipe (pipes (sa s))) (sa_slots s) \<and>
     sa_pipe (pipes (sa s)) ` sa_slots s = Some ` dom (sa_heap (sa s)) \<and>
     (\<forall>p\<in>ran (sa_heap (sa s)). sa_wf (sl_pipe p)) \<and>
     registered (pipes (sa s)) = int (card (sa_slots s)) \<and>
     open_count (sa_com (sa s)) = int (card (sa_slots s)) \<and>
     readers (sa_com (sa s)) = of_nat (card (sa_slots s)) \<and>
     (card (sa_slots s) < LIBERA_SA_MAX_READERS \<longrightarrow>
        next_pipe (pipes (sa s)) < LIBERA_SA_MAX_READERS \<and> next_pipe (pipes (sa s)) \<notin> sa_slots s)"

lemma find_upt_Some: "find P [0..<n] = Some i \<Longrightarrow> i < n \<and> P i"
  by (auto simp: find_Some_iff)

lemma find_upt_None: "find P [0..<n] = None \<longleftrightarrow> (\<forall>i<n. \<not> P i)"
  by (auto simp: find_None_iff)

lemma full_card: "A \<subseteq> {..<n} \<Longrightarrow> card A < n \<longleftrightarrow> (\<exists>i<n. i \<notin> (A::nat set))"
proof
  assume A: "A \<subseteq> {..<n}" and "card A < n"
  then have "A \<noteq> {..<n}" by auto
  with A show "\<exists>i<n. i \<notin> A" by auto
next
  assume A: "A \<subseteq> {..<n}" and "\<exists>i<n. i \<notin> A"
  then have "A \<subset> {..<n}" by auto
  then have "card A < card {..<n}" by (intro psubset_card_mono) simp_all
  then show "card A < n" by simp
qed

lemma register_slots:
  "sa_pipe (snd (libera_register_pipe a p)) = (sa_pipe p)(next_pipe p := Some a)"
  "registered (snd (libera_register_pipe a p)) = registered p + 1"
  by (simp_all add: libera_register_pipe_def Let_def split: option.split)

lemma register_next:
  assumes "i < LIBERA_SA_MAX_READERS" "sa_pipe (snd (libera_register_pipe a p)) i = None"
  shows "next_pipe (snd (libera_register_pipe a p)) < LIBERA_SA_MAX_READERS \<and>
    sa_pipe (snd (libera_register_pipe a p)) (next_pipe (snd (libera_register_pipe a p))) = None"
proof (cases "find (\<lambda>i. ((sa_pipe p)(next_pipe p := Some a)) i = None) [0..<LIBERA_SA_MAX_READERS]")
  case None
  with assms show ?thesis by (auto simp: find_upt_None register_slots)
next
  case (Some j)
  then show ?thesis
    using find_upt_Some [OF Some] by (simp add: libera_register_pipe_def Let_def)
qed

lemma open_frame:
  assumes "fst (libera_sa_open mem f s) \<noteq> 0"
  shows "\<exists>c. snd (snd (libera_sa_open mem f s)) = s\<lparr>sa := (sa s)\<lparr>sa_com := (sa_com (sa s))\<lparr>sem := c\<rparr>\<rparr>\<rparr>"
  using assms by (auto simp: libera_sa_open_def Let_def split: if_splits option.splits)

lemma open_ok:
  assumes "fst (libera_sa_open mem f s) = 0"
  obtains a where "mem = Some a" "registered (pipes (sa s)) < 16" "\<not> f_write f"
    "fst (snd (libera_sa_open mem f s)) = Some a"
    "sa_heap (sa (snd (snd (libera_sa_open mem f s)))) =
       (sa_heap (sa s))(a \<mapsto> \<lparr>sl_sem = False, sl_pipe = flush_saFIFO (zero_ring [])\<rparr>)"
    "pipes (sa (snd (snd (libera_sa_open mem f s)))) = snd (libera_register_pipe a (pipes (sa s)))"
    "readers (sa_com (sa (snd (snd (libera_sa_open mem f s))))) = readers (sa_com (sa s)) + 1"
    "open_count (sa_com (sa (snd (snd (libera_sa_open mem f s))))) = open_count (sa_com (sa s)) + 1"
  using assms
  by (auto simp: libera_sa_open_def Let_def set_pipe_def LIBERA_SA_MAX_READERS_def errno_defs
      split: if_splits option.splits)


lemma inj_on_insert_upd:
  "inj_on f A \<Longrightarrow> x \<notin> A \<Longrightarrow> y \<notin> f ` A \<Longrightarrow> inj_on (f(x := y)) (insert x A)"
  by (auto simp: inj_on_def)

lemma inj_on_delete_upd: "inj_on f A \<Longrightarrow> inj_on (f(x := y)) (A - {x})"
  by (auto simp: inj_on_def)

lemma sa_inv_com: "sa_inv (s\<lparr>sa := (sa s)\<lparr>sa_com := (sa_com (sa s))\<lparr>sem := c\<rparr>\<rparr>\<rparr>) = sa_inv s"
  by (simp add: sa_inv_def sa_slots_def)

text \<open>The invariant depends on the table, the pipes and the counters only.\<close>

lemma sa_inv_cong:
  assumes "pipes (sa t) = pipes (sa s)" "sa_com (sa t) = sa_com (sa s)"
    and "dom (sa_heap (sa t)) = dom (sa_heap (sa s))" "\<forall>p\<in>ran (sa_heap (sa t)). sa_wf (sl_pipe p)"
    and "sa_inv s"
  shows "sa_inv t"
  using assms by (simp add: sa_inv_def sa_slots_def)

lemma ring_new: "sa_wf (flush_saFIFO (zero_ring []))" "sa_contents (flush_saFIFO (zero_ring [])) = []"
proof -
  have "sa_wf (zero_ring [])" by (simp add: sa_wf_def ring_wf_def zero_ring_def)
  then show "sa_wf (flush_saFIFO (zero_ring []))" "sa_contents (flush_saFIFO (zero_ring [])) = []"
    by (simp_all add: sa.wf_flush sa.contents_flush)
qed

lemma sa_inv_open:
  assumes inv: "sa_inv s" and fresh: "\<forall>a. mem = Some a \<longrightarrow> sa_heap (sa s) a = None"
  shows "sa_inv (snd (snd (libera_sa_open mem f s)))"
proof (cases "fst (libera_sa_open mem f s) = 0")
  case False
  then show ?thesis using open_frame [OF False] inv by (auto simp: sa_inv_com)
next
  case True
  then obtain a where a: "mem = Some a" and lt: "registered (pipes (sa s)) < 16"
    and heap: "sa_heap (sa (snd (snd (libera_sa_open mem f s)))) =
       (sa_heap (sa s))(a \<mapsto> \<lparr>sl_sem = False, sl_pipe = flush_saFIFO (zero_ring [])\<rparr>)"
    and pip: "pipes (sa (snd (snd (libera_sa_open mem f s)))) = snd (libera_register_pipe a (pipes (sa s)))"
    and rd: "readers (sa_com (sa (snd (snd (libera_sa_open mem f s))))) = readers (sa_com (sa s)) + 1"
    and oc: "open_count (sa_com (sa (snd (snd (libera_sa_open mem f s))))) = open_count (sa_com (sa s)) + 1"
    by (rule open_ok)
  let ?t = "snd (snd (libera_sa_open mem f s))"
  let ?p = "pipes (sa s)" let ?n = "next_pipe ?p" let ?S = "sa_slots s"
  from inv have sub: "?S \<subseteq> {..<LIBERA_SA_MAX_READERS}" and inj: "inj_on (sa_pipe ?p) ?S"
    and img: "sa_pipe ?p ` ?S = Some ` dom (sa_heap (sa s))"
    and wf: "\<forall>p\<in>ran (sa_heap (sa s)). sa_wf (sl_pipe p)"
    and cnt: "registered ?p = int (card ?S)" "open_count (sa_com (sa s)) = int (card ?S)"
      "readers (sa_com (sa s)) = of_nat (card ?S)"
    and nx: "card ?S < LIBERA_SA_MAX_READERS \<Longrightarrow> ?n < LIBERA_SA_MAX_READERS \<and> ?n \<notin> ?S"
    by (auto simp: sa_inv_def)
  have fin: "finite ?S" using sub finite_subset by blast
  have n: "?n < LIBERA_SA_MAX_READERS" "?n \<notin> ?S"
    using nx lt cnt(1) by (auto simp: LIBERA_SA_MAX_READERS_def)
  have S: "sa_slots ?t = insert ?n ?S"
    by (auto simp: sa_slots_def pip register_slots)
  have new: "Some a \<notin> sa_pipe ?p ` ?S" using fresh a by (auto simp: img dom_def)
  have same: "((sa_pipe ?p)(?n := Some a)) ` ?S = sa_pipe ?p ` ?S"
    using n(2) by (intro image_cong) auto
  show ?thesis
    unfolding sa_inv_def
  proof (intro conjI impI)
    show "sa_slots ?t \<subseteq> {..<LIBERA_SA_MAX_READERS}" using sub n by (simp add: S)
    show "inj_on (sa_pipe (pipes (sa ?t))) (sa_slots ?t)"
      unfolding S pip register_slots by (rule inj_on_insert_upd [OF inj n(2) new])
    show "sa_pipe (pipes (sa ?t)) ` sa_slots ?t = Some ` dom (sa_heap (sa ?t))"
      unfolding S pip register_slots image_insert same heap by (auto simp: img)
    show "\<forall>p\<in>ran (sa_heap (sa ?t)). sa_wf (sl_pipe p)"
      using wf unfolding heap by (auto simp: ran_def ring_new split: if_splits)
    show "registered (pipes (sa ?t)) = int (card (sa_slots ?t))"
      "open_count (sa_com (sa ?t)) = int (card (sa_slots ?t))"
      "readers (sa_com (sa ?t)) = of_nat (card (sa_slots ?t))"
      using fin n(2) by (simp_all add: S pip register_slots rd oc cnt)
    assume "card (sa_slots ?t) < LIBERA_SA_MAX_READERS"
    then obtain i where "i < LIBERA_SA_MAX_READERS" "i \<notin> sa_slots ?t"
      using full_card [of "sa_slots ?t"] sub n by (auto simp: S)
    then have "i < LIBERA_SA_MAX_READERS" "sa_pipe (snd (libera_register_pipe a ?p)) i = None"
      by (simp_all add: sa_slots_def pip)
    from register_next [OF this]
    show "next_pipe (pipes (sa ?t)) < LIBERA_SA_MAX_READERS" "next_pipe (pipes (sa ?t)) \<notin> sa_slots ?t"
      by (simp_all add: sa_slots_def pip)
  qed
qed

lemma registered_slot:
  assumes "sa_inv s" "sa_heap (sa s) a \<noteq> None"
  obtains i where "i \<in> sa_slots s" "i < LIBERA_SA_MAX_READERS" "sa_pipe (pipes (sa s)) i = Some a"
proof -
  have "Some a \<in> sa_pipe (pipes (sa s)) ` sa_slots s" using assms by (auto simp: sa_inv_def dom_def)
  then obtain i where "i \<in> sa_slots s" "sa_pipe (pipes (sa s)) i = Some a" by auto
  then show ?thesis using that assms(1) by (auto simp: sa_inv_def)
qed

lemma sa_inv_release:
  assumes inv: "sa_inv s" and al: "sa_heap (sa s) a \<noteq> None"
  shows "sa_inv (snd (libera_sa_release a s))"
    and "fst (libera_sa_release a s) = 0"
    and "sa_heap (sa (snd (libera_sa_release a s))) = (sa_heap (sa s))(a := None)"
proof -
  let ?p = "pipes (sa s)" let ?S = "sa_slots s" let ?t = "snd (libera_sa_release a s)"
  from inv have sub: "?S \<subseteq> {..<LIBERA_SA_MAX_READERS}" and inj: "inj_on (sa_pipe ?p) ?S"
    and img: "sa_pipe ?p ` ?S = Some ` dom (sa_heap (sa s))"
    and wf: "\<forall>p\<in>ran (sa_heap (sa s)). sa_wf (sl_pipe p)"
    and cnt: "registered ?p = int (card ?S)" "open_count (sa_com (sa s)) = int (card ?S)"
      "readers (sa_com (sa s)) = of_nat (card ?S)"
    by (auto simp: sa_inv_def)
  have fin: "finite ?S" using sub finite_subset by blast
  obtain i0 where i0: "i0 < LIBERA_SA_MAX_READERS" "sa_pipe ?p i0 = Some a"
    using registered_slot [OF inv al] by metis
  then obtain i where i: "find (\<lambda>i. sa_pipe ?p i = Some a) [0..<LIBERA_SA_MAX_READERS] = Some i"
    by (cases "find (\<lambda>i. sa_pipe ?p i = Some a) [0..<LIBERA_SA_MAX_READERS]")
      (auto simp: find_upt_None)
  note ip = find_upt_Some [OF i]
  have iS: "i \<in> ?S" using ip by (simp add: sa_slots_def)
  have u: "libera_unregister_pipe a ?p =
      (0, ?p\<lparr>registered := registered ?p - 1, sa_pipe := (sa_pipe ?p)(i := None), next_pipe := i\<rparr>)"
    by (simp add: libera_unregister_pipe_def i)
  have t: "pipes (sa ?t) = ?p\<lparr>registered := registered ?p - 1, sa_pipe := (sa_pipe ?p)(i := None), next_pipe := i\<rparr>"
    "open_count (sa_com (sa ?t)) = open_count (sa_com (sa s)) - 1"
    "readers (sa_com (sa ?t)) = readers (sa_com (sa s)) - 1"
    by (simp_all add: libera_sa_release_def u Let_def)
  show heap: "sa_heap (sa ?t) = (sa_heap (sa s))(a := None)"
    by (simp add: libera_sa_release_def u Let_def)
  show "fst (libera_sa_release a s) = 0" by (simp add: libera_sa_release_def Let_def case_prod_unfold)
  have S: "sa_slots ?t = ?S - {i}" by (auto simp: sa_slots_def t(1))
  have c: "card ?S = Suc (card (?S - {i}))" using card.remove [OF fin iS] .
  have same: "((sa_pipe ?p)(i := None)) ` (?S - {i}) = sa_pipe ?p ` (?S - {i})"
    by (intro image_cong) auto
  have rest: "sa_pipe ?p ` (?S - {i}) = sa_pipe ?p ` ?S - {Some a}"
    using inj iS ip by (auto simp: inj_on_def)
  show "sa_inv ?t"
    unfolding sa_inv_def
  proof (intro conjI impI)
    show "sa_slots ?t \<subseteq> {..<LIBERA_SA_MAX_READERS}" using sub by (auto simp: S)
    show "inj_on (sa_pipe (pipes (sa ?t))) (sa_slots ?t)"
      using inj_on_delete_upd [OF inj] by (simp add: S t(1))
    show "sa_pipe (pipes (sa ?t)) ` sa_slots ?t = Some ` dom (sa_heap (sa ?t))"
      unfolding S t(1) heap by (auto simp: same rest img)
    show "\<forall>p\<in>ran (sa_heap (sa ?t)). sa_wf (sl_pipe p)"
      using wf by (auto simp: heap ran_def split: if_splits)
    show "registered (pipes (sa ?t)) = int (card (sa_slots ?t))"
      "open_count (sa_com (sa ?t)) = int (card (sa_slots ?t))"
      "readers (sa_com (sa ?t)) = of_nat (card (sa_slots ?t))"
      by (simp_all add: S t cnt c)
    show "next_pipe (pipes (sa ?t)) < LIBERA_SA_MAX_READERS" "next_pipe (pipes (sa ?t)) \<notin> sa_slots ?t"
      using ip by (simp_all add: t(1) S)
  qed
qed


text \<open>What the open and close calls, with fresh memory and files that are open, can reach.\<close>

inductive sa_step :: "libera \<Rightarrow> libera \<Rightarrow> bool" where
  sa_step_open: "\<forall>a. mem = Some a \<longrightarrow> sa_heap (sa s) a = None \<Longrightarrow>
    sa_step s (snd (snd (libera_sa_open mem f s)))"
| sa_step_release: "sa_heap (sa s) a \<noteq> None \<Longrightarrow> sa_step s (snd (libera_sa_release a s))"

lemma sa_step_inv: "sa_step s t \<Longrightarrow> sa_inv s \<Longrightarrow> sa_inv t"
  by (induction rule: sa_step.induct) (simp_all add: sa_inv_open sa_inv_release)

lemma sa_inv_bss: "sa_inv (libera_bss f)"
  by (simp add: sa_inv_def sa_slots_def libera_bss_def zero_common_def LIBERA_SA_MAX_READERS_def)

section \<open>Dispatching\<close>

definition pipe_contents :: "nat \<Rightarrow> libera \<Rightarrow> sa_atom list" where
  "pipe_contents a s = sa_contents (sl_pipe (pipe_at a s))"

lemma send_event_sa [simp]: "sa (send_event i p s) = sa s" "lgbl (send_event i p s) = lgbl s"
  by (simp_all add: libera_send_event_def Let_def case_prod_unfold printk_crit_def wake_up_interruptible_def)

lemma wake_sa [simp]: "sa (wake_up_interruptible q s) = sa s" "lgbl (wake_up_interruptible q s) = lgbl s"
  by (simp_all add: wake_up_interruptible_def)

lemma set_pipe_frame [simp]:
  "pipes (sa (set_pipe a p s)) = pipes (sa s)" "sa_com (sa (set_pipe a p s)) = sa_com (sa s)"
  "buf_tail (sa (set_pipe a p s)) = buf_tail (sa s)" "buf_head (sa (set_pipe a p s)) = buf_head (sa s)"
  "sa_buf (sa (set_pipe a p s)) = sa_buf (sa s)" "inputovr (sa (set_pipe a p s)) = inputovr (sa s)"
  "sa_heap (sa (set_pipe a p s)) = (sa_heap (sa s))(a \<mapsto> p)"
  "event (set_pipe a p s) = event s" "lgbl (set_pipe a p s) = lgbl s"
  by (simp_all add: set_pipe_def)

text \<open>The atom at the tail goes to the pipe of slot \<open>i\<close>; overflow is never reported.\<close>

lemma sa_dispatch_eq:
  assumes "sa_inv s"
  shows "sa_dispatch i s =
    (case sa_pipe (pipes (sa s)) i of
       None \<Rightarrow> s
     | Some a \<Rightarrow> wake_up_interruptible (SA_wait a)
         (set_pipe a ((pipe_at a s)\<lparr>sl_pipe :=
           snd (putTo_saFIFO (sa_buf (sa s) (buf_tail (sa s))) (sl_pipe (pipe_at a s)))\<rparr>) s))"
proof (cases "sa_pipe (pipes (sa s)) i")
  case None
  then show ?thesis by (simp add: sa_dispatch_def)
next
  case (Some a)
  then have "Some a \<in> sa_pipe (pipes (sa s)) ` sa_slots s" by (force simp: sa_slots_def)
  then obtain p where p: "sa_heap (sa s) a = Some p" using assms by (auto simp: sa_inv_def)
  then have wf: "sa_wf (sl_pipe (pipe_at a s))"
    using assms by (auto simp: sa_inv_def pipe_at_def ran_def)
  have "int atom_bytes \<noteq> - EFAULT" "0 \<noteq> - EFAULT" by (simp_all add: atom_bytes_def EFAULT_def)
  then show ?thesis
    by (simp add: sa_dispatch_def Some pipe_write_one [OF wf])
qed

lemma sa_inv_wf:
  assumes "sa_inv s" "sa_heap (sa s) a \<noteq> None"
  shows "sa_wf (sl_pipe (pipe_at a s))"
  using assms by (auto simp: sa_inv_def pipe_at_def ran_def)

lemma sa_inv_slot: "sa_inv s \<Longrightarrow> sa_pipe (pipes (sa s)) i = Some a \<Longrightarrow> sa_heap (sa s) a \<noteq> None"
proof
  assume inv: "sa_inv s" and i: "sa_pipe (pipes (sa s)) i = Some a" and "sa_heap (sa s) a = None"
  then have "Some a \<in> sa_pipe (pipes (sa s)) ` sa_slots s" by (force simp: sa_slots_def)
  with inv have "Some a \<in> Some ` dom (sa_heap (sa s))" by (simp add: sa_inv_def)
  with \<open>sa_heap (sa s) a = None\<close> show False by auto
qed

text \<open>What a dispatch leaves alone.\<close>

definition sa_same :: "libera \<Rightarrow> libera \<Rightarrow> bool" where
  "sa_same s t \<longleftrightarrow> pipes (sa t) = pipes (sa s) \<and> sa_com (sa t) = sa_com (sa s) \<and>
     sa_buf (sa t) = sa_buf (sa s) \<and> buf_head (sa t) = buf_head (sa s) \<and>
     inputovr (sa t) = inputovr (sa s) \<and> dom (sa_heap (sa t)) = dom (sa_heap (sa s)) \<and> lgbl t = lgbl s"

lemma sa_same_refl [simp]: "sa_same s s" and sa_same_trans: "sa_same s t \<Longrightarrow> sa_same t u \<Longrightarrow> sa_same s u"
  by (simp_all add: sa_same_def)

lemma sa_dispatch_step:
  assumes inv: "sa_inv s"
  shows "sa_inv (sa_dispatch i s)" and "sa_same s (sa_dispatch i s)"
    and "buf_tail (sa (sa_dispatch i s)) = buf_tail (sa s)" and "event (sa_dispatch i s) = event s"
    and "pipe_contents a (sa_dispatch i s) =
      (if sa_pipe (pipes (sa s)) i = Some a
       then accept 63 (pipe_contents a s) [sa_buf (sa s) (buf_tail (sa s))] else pipe_contents a s)"
proof -
  have "sa_inv (sa_dispatch i s) \<and> sa_same s (sa_dispatch i s) \<and>
    buf_tail (sa (sa_dispatch i s)) = buf_tail (sa s) \<and> event (sa_dispatch i s) = event s \<and>
    pipe_contents a (sa_dispatch i s) =
      (if sa_pipe (pipes (sa s)) i = Some a
       then accept 63 (pipe_contents a s) [sa_buf (sa s) (buf_tail (sa s))] else pipe_contents a s)"
  proof (cases "sa_pipe (pipes (sa s)) i")
    case None
    then show ?thesis using inv by (simp add: sa_dispatch_eq)
  next
    case (Some b)
    have al: "sa_heap (sa s) b \<noteq> None" using sa_inv_slot [OF inv Some] .
    note wf = sa_inv_wf [OF inv al]
    let ?q = "snd (putTo_saFIFO (sa_buf (sa s) (buf_tail (sa s))) (sl_pipe (pipe_at b s)))"
    let ?t = "wake_up_interruptible (SA_wait b) (set_pipe b ((pipe_at b s)\<lparr>sl_pipe := ?q\<rparr>) s)"
    have t: "sa_dispatch i s = ?t" by (simp add: sa_dispatch_eq [OF inv] Some)
    have d: "dom (sa_heap (sa ?t)) = dom (sa_heap (sa s))" using al by auto
    have q: "sa_wf ?q" "sa_contents ?q = accept 63 (pipe_contents b s) [sa_buf (sa s) (buf_tail (sa s))]"
      using wf by (simp_all add: sa.wf_enq sa.enq_accept pipe_contents_def)
    have "sa_inv ?t"
    proof (rule sa_inv_cong [OF _ _ d _ inv])
      show "\<forall>p\<in>ran (sa_heap (sa ?t)). sa_wf (sl_pipe p)"
        using inv q(1) by (auto simp: sa_inv_def ran_def)
    qed simp_all
    moreover have "sa_same s ?t" using d by (simp add: sa_same_def)
    moreover have "pipe_contents a ?t = (if b = a then sa_contents ?q else pipe_contents a s)"
      by (simp add: pipe_contents_def pipe_at_def)
    ultimately show ?thesis using Some q(2) by (auto simp: t)
  qed
  then show "sa_inv (sa_dispatch i s)" "sa_same s (sa_dispatch i s)"
    "buf_tail (sa (sa_dispatch i s)) = buf_tail (sa s)" "event (sa_dispatch i s) = event s"
    "pipe_contents a (sa_dispatch i s) =
      (if sa_pipe (pipes (sa s)) i = Some a
       then accept 63 (pipe_contents a s) [sa_buf (sa s) (buf_tail (sa s))] else pipe_contents a s)"
    by simp_all
qed


lemma fold_dispatch:
  assumes "sa_inv s" "sa_same s t" "sa_inv t" "buf_tail (sa t) = buf_tail (sa s)" "distinct is"
  shows "sa_inv (fold sa_dispatch is t) \<and> sa_same s (fold sa_dispatch is t) \<and>
    buf_tail (sa (fold sa_dispatch is t)) = buf_tail (sa s) \<and> event (fold sa_dispatch is t) = event t \<and>
    pipe_contents a (fold sa_dispatch is t) =
      (if \<exists>i\<in>set is. sa_pipe (pipes (sa s)) i = Some a
       then accept 63 (pipe_contents a t) [sa_buf (sa s) (buf_tail (sa s))] else pipe_contents a t)"
  using assms
proof (induction "is" arbitrary: t)
  case Nil
  then show ?case by simp
next
  case (Cons i js)
  note d = sa_dispatch_step(1-4) [OF Cons.prems(3), of i]
    sa_dispatch_step(5) [OF Cons.prems(3), where i = i and a = a]
  have pp: "pipes (sa t) = pipes (sa s)" "sa_buf (sa t) = sa_buf (sa s)"
    using Cons.prems(2) by (simp_all add: sa_same_def)
  have IH: "sa_inv (fold sa_dispatch js (sa_dispatch i t)) \<and> sa_same s (fold sa_dispatch js (sa_dispatch i t)) \<and>
    buf_tail (sa (fold sa_dispatch js (sa_dispatch i t))) = buf_tail (sa s) \<and>
    event (fold sa_dispatch js (sa_dispatch i t)) = event (sa_dispatch i t) \<and>
    pipe_contents a (fold sa_dispatch js (sa_dispatch i t)) =
      (if \<exists>i\<in>set js. sa_pipe (pipes (sa s)) i = Some a
       then accept 63 (pipe_contents a (sa_dispatch i t)) [sa_buf (sa s) (buf_tail (sa s))]
       else pipe_contents a (sa_dispatch i t))"
    using Cons.prems d by (intro Cons.IH) (auto intro: sa_same_trans)
  have once: "\<not> (\<exists>j\<in>set js. sa_pipe (pipes (sa s)) j = Some a)" if "sa_pipe (pipes (sa s)) i = Some a"
  proof
    assume "\<exists>j\<in>set js. sa_pipe (pipes (sa s)) j = Some a"
    then obtain j where j: "j \<in> set js" "sa_pipe (pipes (sa s)) j = Some a" by blast
    have "inj_on (sa_pipe (pipes (sa s))) (sa_slots s)" using \<open>sa_inv s\<close> by (simp add: sa_inv_def)
    then have "i = j" using that j(2) by (auto simp: inj_on_def sa_slots_def)
    with j(1) Cons.prems(5) show False by simp
  qed
  show ?case
    using IH d(4,5) once pp Cons.prems(4) by auto
qed

text \<open>One atom: every registered pipe gets it unless it is full, and one event is sent.\<close>

lemma dispatch_atom_step:
  assumes inv: "sa_inv s"
  shows "sa_inv (sa_dispatch_atom s)" and "sa_same s (sa_dispatch_atom s)"
    and "buf_tail (sa (sa_dispatch_atom s)) = libera_sa_incr_atom (buf_tail (sa s))"
    and "event (sa_dispatch_atom s) = event (send_event LIBERA_EVENT_SA 1 s)"
    and "pipe_contents a (sa_dispatch_atom s) =
      (if sa_heap (sa s) a \<noteq> None
       then accept 63 (pipe_contents a s) [sa_buf (sa s) (buf_tail (sa s))] else pipe_contents a s)"
proof -
  let ?t = "fold sa_dispatch [0..<LIBERA_SA_MAX_READERS] s"
  let ?u = "?t\<lparr>sa := (sa ?t)\<lparr>buf_tail := libera_sa_incr_atom (buf_tail (sa ?t))\<rparr>\<rparr>"
  have f: "sa_inv ?t" "sa_same s ?t" "buf_tail (sa ?t) = buf_tail (sa s)" "event ?t = event s"
    "pipe_contents a ?t =
      (if \<exists>i\<in>set [0..<LIBERA_SA_MAX_READERS]. sa_pipe (pipes (sa s)) i = Some a
       then accept 63 (pipe_contents a s) [sa_buf (sa s) (buf_tail (sa s))] else pipe_contents a s)"
    using fold_dispatch [OF inv sa_same_refl inv refl distinct_upt, of 0 LIBERA_SA_MAX_READERS a] by blast+
  have slot: "(\<exists>i\<in>set [0..<LIBERA_SA_MAX_READERS]. sa_pipe (pipes (sa s)) i = Some a) \<longleftrightarrow>
      sa_heap (sa s) a \<noteq> None"
    using registered_slot [OF inv] sa_inv_slot [OF inv] by (metis atLeastLessThan_iff le0 set_upt)
  have e: "sa_dispatch_atom s = send_event LIBERA_EVENT_SA 1 ?u" by (simp add: sa_dispatch_atom_def Let_def)
  have ev: "event (send_event i p x) = event (send_event i p y)" if "event x = event y" "lgbl x = lgbl y" for i p x y
    using that by (simp add: libera_send_event_def Let_def case_prod_unfold printk_crit_def wake_up_interruptible_def)
  have "sa_inv ?u \<longleftrightarrow> sa_inv ?t" by (simp add: sa_inv_def sa_slots_def)
  then show "sa_inv (sa_dispatch_atom s)" using f(1) by (simp add: e sa_inv_def sa_slots_def)
  show "sa_same s (sa_dispatch_atom s)" using f(2) by (simp add: e sa_same_def)
  show "buf_tail (sa (sa_dispatch_atom s)) = libera_sa_incr_atom (buf_tail (sa s))" by (simp add: e f(3))
  show "event (sa_dispatch_atom s) = event (send_event LIBERA_EVENT_SA 1 s)"
    unfolding e using f(2,4) by (intro ev) (simp_all add: sa_same_def)
  show "pipe_contents a (sa_dispatch_atom s) =
      (if sa_heap (sa s) a \<noteq> None
       then accept 63 (pipe_contents a s) [sa_buf (sa s) (buf_tail (sa s))] else pipe_contents a s)"
    using f(5) slot by (simp add: e pipe_contents_def pipe_at_def)
qed

section \<open>The tasklet\<close>

text \<open>The atoms between the tail and the head; the loop runs at least once.\<close>

definition pending_atoms :: "libera \<Rightarrow> nat" where
  "pending_atoms s =
     (if buf_tail (sa s) = buf_head (sa s) then SA_FIFO_DEPTH
      else (buf_head (sa s) + SA_FIFO_DEPTH - buf_tail (sa s)) mod SA_FIFO_DEPTH)"

definition atom_slot :: "libera \<Rightarrow> nat \<Rightarrow> sa_atom" where
  "atom_slot s k = sa_buf (sa s) ((buf_tail (sa s) + k) mod SA_FIFO_DEPTH)"

lemma incr_atom_mod: "p < SA_FIFO_DEPTH \<Longrightarrow> libera_sa_incr_atom p = Suc p mod SA_FIFO_DEPTH"
  by (auto simp: libera_sa_incr_atom_def SA_FIFO_DEPTH_def mod_Suc)

lemma sa_index_step:
  assumes "t < (32::nat)" "h < 32" "t \<noteq> h" and n: "(h + 32 - t) mod 32 = Suc n"
  shows "if Suc t mod 32 = h then n = 0 else n > 0 \<and> (h + 32 - Suc t mod 32) mod 32 = n"
proof -
  have m: "x mod 32 = (if x < 32 then x else x - 32)" if "x < 64" for x :: nat
    using that by (auto simp: le_mod_geq not_less)
  have s: "Suc t mod 32 = (if t = 31 then 0 else Suc t)" using assms(1) m [of "Suc t"] by auto
  have d: "(h + 32 - t) mod 32 = (if t < h then h - t else h + 32 - t)"
    using assms m [of "h + 32 - t"] by (simp split: if_splits)
  have d': "(31 + h - t) mod 32 = (if Suc t \<le> h then h - Suc t else 31 + h - t)"
    using assms m [of "31 + h - t"] by (simp split: if_splits)
  show ?thesis
    using assms n unfolding d s by (cases "t < h"; cases "t = 31") (simp_all add: d', auto)
qed


lemma replicate_events:
  "trig_wf (events (event s)) \<Longrightarrow> trig_wf (events (event (send_event i p s)))"
  "trig_wf (events (event s)) \<Longrightarrow> trig_contents (events (event (send_event i p s))) =
     accept 4095 (trig_contents (events (event s)))
       (if i AND event_mask (lgbl s) = 0 then [] else [\<lparr>ev_id = i, ev_param = p\<rparr>])"
  by (auto simp: libera_send_event_def Let_def case_prod_unfold printk_crit_def wake_up_interruptible_def
      ev.wf_enq ev.enq_accept ev.accept_empty)

lemma pending_step:
  assumes "buf_tail (sa s) < SA_FIFO_DEPTH" "buf_head (sa s) < SA_FIFO_DEPTH" "pending_atoms s = Suc n"
    and "buf_tail (sa t) = libera_sa_incr_atom (buf_tail (sa s))" "buf_head (sa t) = buf_head (sa s)"
  shows "if buf_tail (sa t) = buf_head (sa t) then n = 0 else \<exists>m. n = Suc m \<and> pending_atoms t = Suc m"
proof (cases "buf_tail (sa s) = buf_head (sa s)")
  case True
  let ?h = "buf_head (sa s)"
  have n: "n = 31" using assms(3) True by (simp add: pending_atoms_def SA_FIFO_DEPTH_def)
  have t: "buf_tail (sa t) = (if ?h = 31 then 0 else Suc ?h)"
    using assms(4) True by (simp add: libera_sa_incr_atom_def SA_FIFO_DEPTH_def)
  have "buf_tail (sa t) \<noteq> ?h" using t by (auto split: if_splits)
  moreover have "(?h + 32 - buf_tail (sa t)) mod 32 = 31"
    using assms(2) by (simp add: t SA_FIFO_DEPTH_def)
  ultimately show ?thesis using n assms(5) by (simp add: pending_atoms_def SA_FIFO_DEPTH_def)
next
  case False
  have "(buf_head (sa s) + 32 - buf_tail (sa s)) mod 32 = Suc n"
    using False assms(3) by (simp add: pending_atoms_def SA_FIFO_DEPTH_def)
  from sa_index_step [OF _ _ False this] assms(1,2)
  have "if Suc (buf_tail (sa s)) mod 32 = buf_head (sa s) then n = 0
      else n > 0 \<and> (buf_head (sa s) + 32 - Suc (buf_tail (sa s)) mod 32) mod 32 = n"
    by (simp add: SA_FIFO_DEPTH_def)
  moreover have "buf_tail (sa t) = Suc (buf_tail (sa s)) mod 32"
    using assms(1,4) incr_atom_mod [of "buf_tail (sa s)"] by (simp add: SA_FIFO_DEPTH_def)
  ultimately show ?thesis
    using assms(5) by (cases n) (auto simp: pending_atoms_def SA_FIFO_DEPTH_def split: if_splits)
qed

lemma atom_slot_step:
  assumes "buf_tail (sa t) = libera_sa_incr_atom (buf_tail (sa s))" "sa_buf (sa t) = sa_buf (sa s)"
    and "buf_tail (sa s) < SA_FIFO_DEPTH"
  shows "map (atom_slot s) [0..<Suc n] = sa_buf (sa s) (buf_tail (sa s)) # map (atom_slot t) [0..<n]"
proof -
  have "atom_slot s (Suc k) = atom_slot t k" for k
    using assms incr_atom_mod [OF assms(3)]
    by (simp add: atom_slot_def mod_add_left_eq [of "Suc (buf_tail (sa s))", simplified])
  then show ?thesis
    using assms(3) by (simp add: upt_Suc_map atom_slot_def del: upt_Suc)
qed

abbreviation sa_event :: libera_event where
  "sa_event \<equiv> \<lparr>ev_id = LIBERA_EVENT_SA, ev_param = 1\<rparr>"

text \<open>The events of \<open>n\<close> atoms, as far as they are not masked.\<close>

definition sa_events :: "libera \<Rightarrow> nat \<Rightarrow> libera_event list" where
  "sa_events s n = (if LIBERA_EVENT_SA AND event_mask (lgbl s) = 0 then [] else replicate n sa_event)"

lemma tasklet_loop_drains:
  assumes "sa_inv s" "trig_wf (events (event s))"
    and "buf_tail (sa s) < SA_FIFO_DEPTH" "buf_head (sa s) < SA_FIFO_DEPTH"
    and "pending_atoms s = Suc n"
  shows "\<exists>s'. sa_tasklet_loop s = Some s' \<and> sa_inv s' \<and> sa_same s s' \<and> buf_tail (sa s') = buf_head (sa s) \<and>
    (\<forall>a. sa_heap (sa s) a \<noteq> None \<longrightarrow>
       pipe_contents a s' = accept 63 (pipe_contents a s) (map (atom_slot s) [0..<Suc n])) \<and>
    trig_contents (events (event s')) = accept 4095 (trig_contents (events (event s))) (sa_events s (Suc n))"
  using assms
proof (induction n arbitrary: s)
  case (0 s)
  note d = dispatch_atom_step [OF 0(1)]
  from pending_step [OF 0(3-5) d(3)] d(2)
  have h: "buf_tail (sa (sa_dispatch_atom s)) = buf_head (sa (sa_dispatch_atom s))"
    by (auto simp: sa_same_def split: if_splits)
  then have l: "sa_tasklet_loop s = Some (sa_dispatch_atom s)"
    by (subst sa_tasklet_loop.simps) simp
  show ?case
    using d l h 0 by (auto simp: sa_same_def atom_slot_def d(4) replicate_events sa_events_def)
next
  case (Suc n s)
  let ?t = "sa_dispatch_atom s"
  note d = dispatch_atom_step [OF Suc.prems(1)]
  have same: "buf_head (sa ?t) = buf_head (sa s)" "sa_buf (sa ?t) = sa_buf (sa s)" "lgbl ?t = lgbl s"
    "dom (sa_heap (sa ?t)) = dom (sa_heap (sa s))"
    using d(2) by (simp_all add: sa_same_def)
  from pending_step [OF Suc.prems(3-5) d(3) same(1)]
  have ne: "buf_tail (sa ?t) \<noteq> buf_head (sa ?t)" and p: "pending_atoms ?t = Suc n"
    by (auto split: if_splits)
  have lt: "buf_tail (sa ?t) < SA_FIFO_DEPTH"
    using d(3) incr_atom_mod [OF Suc.prems(3)] by (simp add: SA_FIFO_DEPTH_def)
  have ev: "trig_wf (events (event ?t))"
    "trig_contents (events (event ?t)) = accept 4095 (trig_contents (events (event s))) (sa_events s 1)"
    using Suc.prems(2) by (simp_all add: d(4) replicate_events sa_events_def)
  obtain s' where s': "sa_tasklet_loop ?t = Some s'" "sa_inv s'" "sa_same ?t s'"
    "buf_tail (sa s') = buf_head (sa ?t)"
    "\<forall>a. sa_heap (sa ?t) a \<noteq> None \<longrightarrow>
       pipe_contents a s' = accept 63 (pipe_contents a ?t) (map (atom_slot ?t) [0..<Suc n])"
    "trig_contents (events (event s')) = accept 4095 (trig_contents (events (event ?t))) (sa_events ?t (Suc n))"
    using Suc.IH [OF d(1) ev(1) lt _ p] Suc.prems(4) same(1) by auto
  have l: "sa_tasklet_loop s = Some s'"
    using ne s'(1) by (subst sa_tasklet_loop.simps) simp
  have al: "sa_heap (sa ?t) a \<noteq> None \<longleftrightarrow> sa_heap (sa s) a \<noteq> None" for a
    using same(4) by blast
  have "pipe_contents a s' = accept 63 (pipe_contents a s) (map (atom_slot s) [0..<Suc (Suc n)])"
    if "sa_heap (sa s) a \<noteq> None" for a
    using s'(5) d(5) [of a] that al
    by (simp add: atom_slot_step [OF d(3) same(2) Suc.prems(3)] del: upt_Suc)
  moreover have "sa_events s 1 @ sa_events ?t (Suc n) = sa_events s (Suc (Suc n))"
    by (simp add: sa_events_def same(3))
  then have "trig_contents (events (event s')) =
      accept 4095 (trig_contents (events (event s))) (sa_events s (Suc (Suc n)))"
    by (simp only: s'(6) ev(2) accept_accept)
  ultimately show ?case
    using l s'(2,4) sa_same_trans [OF d(2) s'(3)] same(1) by auto
qed


section \<open>The buffer between the interrupt and the tasklet\<close>

definition queue_len :: "libera \<Rightarrow> nat" where
  "queue_len s = (buf_head (sa s) + SA_FIFO_DEPTH - buf_tail (sa s)) mod SA_FIFO_DEPTH"

text \<open>The atoms that wait for the tasklet, the oldest first.\<close>

definition sa_queue :: "libera \<Rightarrow> sa_atom list" where
  "sa_queue s = map (atom_slot s) [0..<queue_len s]"

definition buf_ok :: "libera \<Rightarrow> bool" where
  "buf_ok s \<longleftrightarrow> buf_tail (sa s) < SA_FIFO_DEPTH \<and> buf_head (sa s) < SA_FIFO_DEPTH"

lemma length_sa_queue [simp]: "length (sa_queue s) = queue_len s"
  by (simp add: sa_queue_def)

lemma sa_queue_append:
  assumes ok: "buf_ok s" and room: "queue_len s < 31"
    and t: "buf_tail (sa t) = buf_tail (sa s)" "buf_head (sa t) = libera_sa_incr_atom (buf_head (sa s))"
      "sa_buf (sa t) = (sa_buf (sa s))(buf_head (sa s) := d)"
  shows "sa_queue t = sa_queue s @ [d]" "buf_ok t" "queue_len t = Suc (queue_len s)"
proof -
  let ?h = "buf_head (sa s)" let ?g = "buf_tail (sa s)"
  have b: "?h < 32" "?g < 32" using ok by (simp_all add: buf_ok_def SA_FIFO_DEPTH_def)
  have h: "buf_head (sa t) = Suc ?h mod 32"
    using b t(2) incr_atom_mod [of ?h] by (simp add: SA_FIFO_DEPTH_def)
  show "buf_ok t" using b h t(1) by (simp add: buf_ok_def SA_FIFO_DEPTH_def)
  show len: "queue_len t = Suc (queue_len s)"
  proof -
    have L: "queue_len s = (if ?g \<le> ?h then ?h - ?g else ?h + 32 - ?g)"
      using ring_dist [of ?h 32 ?g] b by (simp add: queue_len_def SA_FIFO_DEPTH_def)
    have h': "buf_head (sa t) = (if ?h = 31 then 0 else Suc ?h)"
      using t(2) by (simp add: libera_sa_incr_atom_def SA_FIFO_DEPTH_def)
    have L': "queue_len t = (if ?g \<le> buf_head (sa t) then buf_head (sa t) - ?g else buf_head (sa t) + 32 - ?g)"
      using ring_dist [of "buf_head (sa t)" 32 ?g] b \<open>buf_ok t\<close>
      by (simp add: queue_len_def SA_FIFO_DEPTH_def t(1) buf_ok_def)
    show ?thesis
      using b room L unfolding L' h' by (cases "?h = 31"; cases "?g \<le> ?h") (simp_all, linarith+)
  qed
  have last: "(?g + queue_len s) mod 32 = ?h"
    using ring_last_index [of ?h 32 ?g] b by (simp add: queue_len_def SA_FIFO_DEPTH_def)
  have "(?g + k) mod 32 \<noteq> ?h" if "k < queue_len s" for k
    using that room unfolding last [symmetric] by (intro mod_neq_close) simp_all
  then show "sa_queue t = sa_queue s @ [d]"
    using last by (simp add: sa_queue_def len atom_slot_def t(1,3) SA_FIFO_DEPTH_def)
qed

section \<open>The interrupt\<close>

text \<open>
  What the FPGA promises: with the atoms \<open>vs\<close> in its FIFO it shows the one at the front, and its
  status says there are more until the last one has been taken; the handler polls the status once
  before the first atom and once after each.
\<close>

definition polls :: "io list \<Rightarrow> nat" where
  "polls tr = length (filter (\<lambda>x. case x of Rd b _ \<Rightarrow> b = SA_STATUS | Wr _ _ \<Rightarrow> False) tr)"

definition sa_source :: "sa_atom list \<Rightarrow> nat \<Rightarrow> (io list \<Rightarrow> u32 \<Rightarrow> u32) \<Rightarrow> bool" where
  "sa_source vs c f \<longleftrightarrow> (\<forall>d\<in>set vs. length d = 16) \<and>
     (\<forall>tr. (SA_SIZE (f tr SA_STATUS) \<noteq> 0 \<longleftrightarrow> polls tr < c + length vs) \<and>
       (\<forall>k<length vs. polls tr = c + Suc k \<longrightarrow> (\<forall>i<8.
          f tr (SA_FIFO_BASE + 4 * of_nat i) = vs ! k ! i \<and>
          f tr (FAI_CORR_BASE + 4 * of_nat i) = vs ! k ! (8 + i))))"

lemma polls_Cons [simp]:
  "polls (Rd a v # tr) = (if a = SA_STATUS then Suc (polls tr) else polls tr)"
  "polls (Wr a v # tr) = polls tr"
  by (simp_all add: polls_def)

lemma readlBlock_shown:
  assumes "\<forall>tr. polls tr = p \<longrightarrow> (\<forall>i<n. fpga s tr (a + 4 * of_nat i) = v i)"
    and "\<forall>i<n. a + 4 * of_nat i \<noteq> SA_STATUS" "polls (trace s) = p"
  shows "fst (libera_readlBlock a n s) = map v [0..<n] \<and>
    polls (trace (snd (libera_readlBlock a n s))) = p \<and> fpga (snd (libera_readlBlock a n s)) = fpga s"
  using assms
proof (induction n arbitrary: a v s)
  case 0
  then show ?case by simp
next
  case (Suc n)
  let ?s = "snd (readl a s)"
  have a: "a \<noteq> SA_STATUS" using Suc.prems(2) [rule_format, of 0] by simp
  have shift: "a + 4 + 4 * of_nat i = a + 4 * of_nat (Suc i)" for i by (simp add: algebra_simps)
  have "fst (libera_readlBlock (a + 4) n ?s) = map (\<lambda>i. v (Suc i)) [0..<n] \<and>
    polls (trace (snd (libera_readlBlock (a + 4) n ?s))) = p \<and>
    fpga (snd (libera_readlBlock (a + 4) n ?s)) = fpga ?s"
  proof (rule Suc.IH)
    show "\<forall>tr. polls tr = p \<longrightarrow> (\<forall>i<n. fpga ?s tr (a + 4 + 4 * of_nat i) = v (Suc i))"
      unfolding shift fpga_readl using Suc.prems(1) by blast
    show "\<forall>i<n. a + 4 + 4 * of_nat i \<noteq> SA_STATUS" unfolding shift using Suc.prems(2) by blast
    show "polls (trace ?s) = p" using a Suc.prems(3) by simp
  qed
  moreover have "fpga s (trace s) a = v 0"
    using Suc.prems(1) [rule_format, of "trace s" 0] Suc.prems(3) by simp
  ultimately show ?case by (simp add: case_prod_unfold Let_def upt_Suc_map del: upt_Suc)
qed

lemma sa_regs_apart:
  "\<forall>i<8. SA_FIFO_BASE + 4 * of_nat i \<noteq> SA_STATUS" "\<forall>i<8. FAI_CORR_BASE + 4 * of_nat i \<noteq> SA_STATUS"
proof -
  have P: "(\<forall>i<8. Q i) \<longleftrightarrow> Q 0 \<and> Q 1 \<and> Q 2 \<and> Q 3 \<and> Q 4 \<and> Q 5 \<and> Q 6 \<and> Q (7::nat)" for Q
    by (simp add: All_less_Suc eval_nat_numeral) blast
  show "\<forall>i<8. SA_FIFO_BASE + 4 * of_nat i \<noteq> SA_STATUS" "\<forall>i<8. FAI_CORR_BASE + 4 * of_nat i \<noteq> SA_STATUS"
    by (simp_all add: P reg_defs)
qed


text \<open>What the interrupt leaves alone: everything but the buffer, the overrun flag and the bus.\<close>

definition irq_same :: "libera \<Rightarrow> libera \<Rightarrow> bool" where
  "irq_same s t \<longleftrightarrow> fpga t = fpga s \<and> pipes (sa t) = pipes (sa s) \<and> sa_com (sa t) = sa_com (sa s) \<and>
     sa_heap (sa t) = sa_heap (sa s) \<and> buf_tail (sa t) = buf_tail (sa s) \<and> event t = event s \<and> lgbl t = lgbl s"

lemma irq_same_refl [simp]: "irq_same s s"
  and irq_same_trans: "irq_same s t \<Longrightarrow> irq_same t u \<Longrightarrow> irq_same s u"
  by (simp_all add: irq_same_def)

lemma bus_more_frame:
  assumes "bus.more t = bus.more s"
  shows "sa t = sa (s :: libera)" "event t = event s" "lgbl t = lgbl s"
  using assms by (cases s; cases t; simp)+

lemma sa_readl [simp]: "sa (snd (readl a s)) = sa (s :: libera)" "lgbl (snd (readl a s)) = lgbl s"
  by (simp_all add: readl_def Let_def)

lemma sa_source_size: "sa_source vs c f \<Longrightarrow> SA_SIZE (f tr SA_STATUS) = 0 \<longleftrightarrow> c + length vs \<le> polls tr"
  unfolding sa_source_def by (metis not_le)

lemma overrun_frame [simp]:
  "fpga (sa_check_overrun x s) = fpga s" "trace (sa_check_overrun x s) = trace s"
  "sa_buf (sa (sa_check_overrun x s)) = sa_buf (sa s)"
  "buf_head (sa (sa_check_overrun x s)) = buf_head (sa s)" "irq_same s (sa_check_overrun x s)"
  by (simp_all add: sa_check_overrun_def irq_same_def)

lemma read_atom_shown:
  assumes "sa_source vs c (fpga s)" "k < length vs" "polls (trace s) = c + Suc k"
  shows "polls (trace (sa_read_atom s)) = c + Suc k" and "irq_same s (sa_read_atom s)"
    and "sa_buf (sa (sa_read_atom s)) = (sa_buf (sa s))(buf_head (sa s) := vs ! k)"
    and "buf_head (sa (sa_read_atom s)) = libera_sa_incr_atom (buf_head (sa s))"
proof -
  let ?a = "libera_readlBlock SA_FIFO_BASE 8 s"
  let ?b = "libera_readlBlock FAI_CORR_BASE 8 (snd ?a)"
  have src: "\<forall>tr. polls tr = c + Suc k \<longrightarrow> (\<forall>i<8. fpga s tr (SA_FIFO_BASE + 4 * of_nat i) = vs ! k ! i)"
    "\<forall>tr. polls tr = c + Suc k \<longrightarrow> (\<forall>i<8. fpga s tr (FAI_CORR_BASE + 4 * of_nat i) = vs ! k ! (8 + i))"
    and len: "length (vs ! k) = 16"
    using assms(1,2) by (auto simp: sa_source_def)
  have a: "fst ?a = map (\<lambda>i. vs ! k ! i) [0..<8]" "polls (trace (snd ?a)) = c + Suc k" "fpga (snd ?a) = fpga s"
    using readlBlock_shown [OF src(1) sa_regs_apart(1) assms(3)] by blast+
  have b: "fst ?b = map (\<lambda>i. vs ! k ! (8 + i)) [0..<8]" "polls (trace (snd ?b)) = c + Suc k"
    "fpga (snd ?b) = fpga s"
    using readlBlock_shown [OF src(2) [folded a(3)] sa_regs_apart(2) a(2)] a(3) by simp_all
  have m: "bus.more (snd ?b) = bus.more s" by (simp add: readlBlock_more)
  have d: "fst ?a @ fst ?b = vs ! k"
    unfolding a(1) b(1) by (rule nth_equalityI) (auto simp: len nth_append)
  have r: "sa_read_atom s = (snd ?b)\<lparr>sa := (sa s)\<lparr>sa_buf := (sa_buf (sa s))(buf_head (sa s) := vs ! k),
      buf_head := libera_sa_incr_atom (buf_head (sa s))\<rparr>\<rparr>"
    by (simp add: sa_read_atom_def case_prod_unfold Let_def d bus_more_frame [OF m])
  show "polls (trace (sa_read_atom s)) = c + Suc k" using b(2) by (simp add: r)
  show "irq_same s (sa_read_atom s)"
    using b(3) by (simp add: r irq_same_def bus_more_frame [OF m])
  show "sa_buf (sa (sa_read_atom s)) = (sa_buf (sa s))(buf_head (sa s) := vs ! k)"
    "buf_head (sa (sa_read_atom s)) = libera_sa_incr_atom (buf_head (sa s))" by (simp_all add: r)
qed

text \<open>One pass of the loop.\<close>

definition sa_pass :: "libera \<Rightarrow> libera" where
  "sa_pass s = sa_check_overrun (fst (readl SA_STATUS (sa_read_atom s))) (snd (readl SA_STATUS (sa_read_atom s)))"

lemma pass_shown:
  assumes src: "sa_source vs c (fpga s)" and k: "k < length vs" and p: "polls (trace s) = c + Suc k"
    and ok: "buf_ok s" "queue_len s < 31"
  shows "irq_same s (sa_pass s)" and "sa_queue (sa_pass s) = sa_queue s @ [vs ! k]"
    and "buf_ok (sa_pass s)" and "queue_len (sa_pass s) = Suc (queue_len s)"
    and "polls (trace (sa_pass s)) = c + Suc (Suc k)"
    and "sa_handler_loop s = (if Suc k = length vs then Some (sa_pass s) else sa_handler_loop (sa_pass s))"
proof -
  note r = read_atom_shown [OF src k p]
  show same: "irq_same s (sa_pass s)"
    using r(2) by (simp add: sa_pass_def irq_same_def sa_check_overrun_def)
  have "buf_tail (sa (sa_pass s)) = buf_tail (sa s)" using same by (simp add: irq_same_def)
  moreover have "buf_head (sa (sa_pass s)) = libera_sa_incr_atom (buf_head (sa s))"
    "sa_buf (sa (sa_pass s)) = (sa_buf (sa s))(buf_head (sa s) := vs ! k)"
    using r(3,4) by (simp_all add: sa_pass_def)
  ultimately show "sa_queue (sa_pass s) = sa_queue s @ [vs ! k]" "buf_ok (sa_pass s)"
    "queue_len (sa_pass s) = Suc (queue_len s)"
    by (simp_all add: sa_queue_append [OF ok])
  show "polls (trace (sa_pass s)) = c + Suc (Suc k)" using r(1) by (simp add: sa_pass_def)
  have "SA_SIZE (fst (readl SA_STATUS (sa_read_atom s))) = 0 \<longleftrightarrow> Suc k = length vs"
    using sa_source_size [OF src, of "trace (sa_read_atom s)"] r(1,2) k by (auto simp: irq_same_def)
  then show "sa_handler_loop s = (if Suc k = length vs then Some (sa_pass s) else sa_handler_loop (sa_pass s))"
    by (subst sa_handler_loop.simps) (simp add: case_prod_unfold Let_def sa_pass_def)
qed

lemma handler_loop_drains:
  assumes "sa_source vs c (fpga s)" "k + Suc n = length vs" "polls (trace s) = c + Suc k"
    and "buf_ok s" "queue_len s + Suc n < 32"
  shows "\<exists>s'. sa_handler_loop s = Some s' \<and> irq_same s s' \<and> buf_ok s' \<and>
    sa_queue s' = sa_queue s @ drop k vs \<and> queue_len s' = queue_len s + Suc n"
  using assms
proof (induction n arbitrary: s k)
  case (0 s k)
  have k: "k < length vs" and q: "queue_len s < 31" using 0 by simp_all
  have "drop k vs = [vs ! k]" using 0(2) k by (simp add: Cons_nth_drop_Suc [symmetric])
  with pass_shown [OF 0(1) k 0(3,4) q] 0(2) show ?case by auto
next
  case (Suc n s k)
  have k: "k < length vs" and q: "queue_len s < 31" using Suc.prems by simp_all
  note t = pass_shown [OF Suc.prems(1) k Suc.prems(3,4) q]
  have "fpga (sa_pass s) = fpga s" using t(1) by (simp add: irq_same_def)
  then have "\<exists>s'. sa_handler_loop (sa_pass s) = Some s' \<and> irq_same (sa_pass s) s' \<and> buf_ok s' \<and>
      sa_queue s' = sa_queue (sa_pass s) @ drop (Suc k) vs \<and> queue_len s' = queue_len (sa_pass s) + Suc n"
    using Suc.prems t(3-5) by (intro Suc.IH) simp_all
  moreover have "drop k vs = vs ! k # drop (Suc k) vs" using k by (rule Cons_nth_drop_Suc [symmetric])
  ultimately show ?case using t Suc.prems(2) by (auto intro: irq_same_trans)
qed

lemma sa_handler_queues:
  assumes "sa_source vs (polls (trace s)) (fpga s)" "vs \<noteq> []" "buf_ok s" "queue_len s + length vs < 32"
  shows "\<exists>s'. libera_sa_handler s = Some s' \<and> irq_same s s' \<and> buf_ok s' \<and>
    sa_queue s' = sa_queue s @ vs \<and> queue_len s' = queue_len s + length vs"
proof -
  let ?st = "fst (readl SA_STATUS s)" let ?t = "sa_check_overrun ?st (snd (readl SA_STATUS s))"
  obtain n where n: "length vs = Suc n" using assms(2) by (metis length_0_conv not0_implies_Suc)
  have h: "libera_sa_handler s = sa_handler_loop ?t"
    by (simp add: libera_sa_handler_def libera_sa_handler_specific_def case_prod_unfold Let_def)
  have same: "irq_same s ?t" "sa_buf (sa ?t) = sa_buf (sa s)" "buf_head (sa ?t) = buf_head (sa s)"
    by (simp_all add: irq_same_def sa_check_overrun_def)
  then have q: "sa_queue ?t = sa_queue s" "buf_ok ?t = buf_ok s" "queue_len ?t = queue_len s"
    by (simp_all add: sa_queue_def atom_slot_def [abs_def] queue_len_def buf_ok_def irq_same_def)
  have "\<exists>s'. sa_handler_loop ?t = Some s' \<and> irq_same ?t s' \<and> buf_ok s' \<and>
      sa_queue s' = sa_queue ?t @ drop 0 vs \<and> queue_len s' = queue_len ?t + Suc n"
    using assms n q by (intro handler_loop_drains) simp_all
  then show ?thesis using h q same(1) n by (auto intro: irq_same_trans)
qed

lemma irq_same_inv: "irq_same s t \<Longrightarrow> sa_inv s \<Longrightarrow> sa_inv t"
  by (simp add: irq_same_def sa_inv_def sa_slots_def)

lemma irq_same_contents: "irq_same s t \<Longrightarrow> pipe_contents a t = pipe_contents a s"
  by (simp add: irq_same_def pipe_contents_def pipe_at_def)

text \<open>The atoms a run of the tasklet dispatches and the events it sends.\<close>

definition sa_dispatched :: "libera \<Rightarrow> sa_atom list" where
  "sa_dispatched s = (if queue_len s = 0 then map (atom_slot s) [0..<32] else sa_queue s)"

definition overrun_events :: "libera \<Rightarrow> libera_event list" where
  "overrun_events s =
     (if inputovr (sa s) \<and> LIBERA_EVENT_OVERFLOW AND event_mask (lgbl s) \<noteq> 0
      then [\<lparr>ev_id = LIBERA_EVENT_OVERFLOW, ev_param = LIBERA_OVERFLOW_SA_FPGA\<rparr>] else [])"

lemma tasklet_run:
  assumes "sa_inv s" "trig_wf (events (event s))" "buf_ok s"
  shows "\<exists>s'. libera_sa_do_tasklet s = Some s' \<and> sa_inv s' \<and> buf_tail (sa s') = buf_head (sa s') \<and>
    buf_head (sa s') = buf_head (sa s) \<and> \<not> inputovr (sa s') \<and>
    (\<forall>a. sa_heap (sa s) a \<noteq> None \<longrightarrow>
       pipe_contents a s' = accept 63 (pipe_contents a s) (sa_dispatched s)) \<and>
    trig_contents (events (event s')) = accept 4095 (trig_contents (events (event s)))
      (overrun_events s @ sa_events s (length (sa_dispatched s)))"
proof -
  let ?t = "if inputovr (sa s)
    then send_event LIBERA_EVENT_OVERFLOW LIBERA_OVERFLOW_SA_FPGA (s\<lparr>sa := (sa s)\<lparr>inputovr := False\<rparr>\<rparr>) else s"
  let ?d = "sa_dispatched s"
  have t: "sa ?t = (sa s)\<lparr>inputovr := False\<rparr>" "lgbl ?t = lgbl s" by simp_all
  have inv: "sa_inv ?t" using assms(1) by (simp add: sa_inv_def sa_slots_def)
  have ev: "trig_wf (events (event ?t))"
    "trig_contents (events (event ?t)) = accept 4095 (trig_contents (events (event s))) (overrun_events s)"
    using assms(2) by (simp_all add: replicate_events ev.accept_empty overrun_events_def)
  have slot: "atom_slot ?t = atom_slot s" by (simp add: atom_slot_def [abs_def] t)
  have b: "buf_tail (sa s) < 32" "buf_head (sa s) < 32"
    using assms(3) by (simp_all add: buf_ok_def SA_FIFO_DEPTH_def)
  have p: "pending_atoms ?t = length ?d" "map (atom_slot s) [0..<length ?d] = ?d"
    using ring_dist [of "buf_head (sa s)" 32 "buf_tail (sa s)"] b
    by (auto simp: pending_atoms_def t queue_len_def sa_queue_def SA_FIFO_DEPTH_def sa_dispatched_def
        split: if_splits)
  have "length ?d \<noteq> 0" by (simp add: sa_dispatched_def sa_queue_def)
  then obtain n where n: "length ?d = Suc n" by (metis not0_implies_Suc)
  obtain s' where s': "sa_tasklet_loop ?t = Some s'" "sa_inv s'" "sa_same ?t s'" "buf_tail (sa s') = buf_head (sa ?t)"
    "\<forall>a. sa_heap (sa ?t) a \<noteq> None \<longrightarrow>
       pipe_contents a s' = accept 63 (pipe_contents a ?t) (map (atom_slot ?t) [0..<Suc n])"
    "trig_contents (events (event s')) = accept 4095 (trig_contents (events (event ?t))) (sa_events ?t (Suc n))"
    using tasklet_loop_drains [OF inv ev(1), of n] p(1) n b by (auto simp: t SA_FIFO_DEPTH_def)
  have run: "libera_sa_do_tasklet s = Some s'"
    using s'(1) by (simp add: libera_sa_do_tasklet_def libera_sa_do_tasklet_specific_def Let_def)
  have heads: "buf_head (sa s') = buf_head (sa s)" "\<not> inputovr (sa s')"
    using s'(3) t(1) by (simp_all add: sa_same_def)
  have pc: "\<forall>a. sa_heap (sa s) a \<noteq> None \<longrightarrow> pipe_contents a s' = accept 63 (pipe_contents a s) ?d"
    using s'(5) p(2) n by (simp add: slot t pipe_contents_def pipe_at_def del: upt_Suc)
  show ?thesis
    using run s'(2,4,6) heads pc n t
    by (intro exI [of _ s']) (simp add: ev(2) sa_events_def)
qed

text \<open>
  C20: the tasklet returns, and unless it is run with nothing pending it takes exactly the atoms
  between the tail and the head: each registered pipe receives all of them in the order they were
  read, as far as it has room for 63, one event per atom is queued behind the pending events (after
  the event of an FPGA overrun, when one was seen), and the overflow of a pipe is never reported,
  although the code has an event for it. Run with nothing pending it dispatches all 32 slots of the
  buffer, whatever they hold.
\<close>

theorem sa_tasklet_dispatches:
  assumes "sa_inv s" "trig_wf (events (event s))" "buf_ok s"
  shows "\<exists>s' d. libera_sa_do_tasklet s = Some s' \<and> sa_inv s' \<and> buf_tail (sa s') = buf_head (sa s') \<and>
    buf_head (sa s') = buf_head (sa s) \<and> \<not> inputovr (sa s') \<and>
    d = (if queue_len s = 0 then map (atom_slot s) [0..<32] else sa_queue s) \<and>
    (\<forall>a. sa_heap (sa s) a \<noteq> None \<longrightarrow> pipe_contents a s' = accept 63 (pipe_contents a s) d) \<and>
    trig_contents (events (event s')) = accept 4095 (trig_contents (events (event s)))
      ((if inputovr (sa s) \<and> LIBERA_EVENT_OVERFLOW AND event_mask (lgbl s) \<noteq> 0
        then [\<lparr>ev_id = LIBERA_EVENT_OVERFLOW, ev_param = LIBERA_OVERFLOW_SA_FPGA\<rparr>] else []) @
       (if LIBERA_EVENT_SA AND event_mask (lgbl s) \<noteq> 0
        then replicate (length d) \<lparr>ev_id = LIBERA_EVENT_SA, ev_param = 1\<rparr> else []))"
  using tasklet_run [OF assms] unfolding overrun_events_def sa_events_def
  by (auto simp: sa_dispatched_def)

text \<open>A reader that has opened the device, and an atom in the buffer.\<close>

definition one_reader :: "(io list \<Rightarrow> u32 \<Rightarrow> u32) \<Rightarrow> libera" where
  "one_reader f = snd (snd (libera_sa_open (Some 7)
     \<lparr>filp = 1, f_read = True, f_write = False, f_nonblock = False, f_pos = 0\<rparr> (libera_bss f)))"

lemma one_reader:
  "sa_inv (one_reader f)" "event (one_reader f) = zero_event_dev" "buf_ok (one_reader f)"
  "queue_len (one_reader f) = 0" "pipe_contents 7 (one_reader f) = []" "fpga (one_reader f) = f"
  "sa_heap (sa (one_reader f)) 7 \<noteq> None" "trace (one_reader f) = []"
proof -
  show "sa_inv (one_reader f)"
    unfolding one_reader_def by (rule sa_inv_open [OF sa_inv_bss]) (simp add: libera_bss_def)
qed (simp_all add: one_reader_def libera_sa_open_def set_pipe_def libera_bss_def LIBERA_SA_MAX_READERS_def
  zero_common_def buf_ok_def queue_len_def SA_FIFO_DEPTH_def pipe_contents_def pipe_at_def ring_new Let_def)

theorem sa_tasklet_dispatches_witness:
  "\<exists>s'. libera_sa_do_tasklet (one_reader (\<lambda>_ _. 0)) = Some s' \<and>
     pipe_contents 7 s' = replicate 32 (replicate 16 0)"
proof -
  let ?s = "one_reader (\<lambda>_ _. 0)"
  have "sa_buf (sa ?s) = (\<lambda>_. replicate 16 0)"
    by (simp add: one_reader_def libera_sa_open_def set_pipe_def libera_bss_def LIBERA_SA_MAX_READERS_def
        zero_common_def Let_def)
  then have "map (atom_slot ?s) [0..<32] = replicate 32 (replicate 16 0)"
    by (simp add: atom_slot_def [abs_def] map_replicate_const)
  then show ?thesis
    using sa_tasklet_dispatches [of ?s] one_reader [of "\<lambda>_ _. 0"]
    by (auto simp: zero_event_dev_def accept_def)
qed


text \<open>An FPGA with a list of atoms in its FIFO.\<close>

definition sa_fpga :: "sa_atom list \<Rightarrow> io list \<Rightarrow> u32 \<Rightarrow> u32" where
  "sa_fpga vs tr a =
     (let k = polls tr - 1 in
      if a = SA_STATUS then (if polls tr < length vs then 1 else 0)
      else if k < length vs then
        (if a AND 0xFFFFFFE0 = FAI_CORR_BASE then vs ! k ! (8 + unat (a - FAI_CORR_BASE) div 4)
         else vs ! k ! (unat (a - SA_FIFO_BASE) div 4))
      else 0)"

lemma sa_fpga_ok: "\<forall>d\<in>set vs. length d = 16 \<Longrightarrow> sa_source vs 0 (sa_fpga vs)"
proof -
  assume a: "\<forall>d\<in>set vs. length d = 16"
  have P: "(\<forall>i<8. Q i) \<longleftrightarrow> Q 0 \<and> Q 1 \<and> Q 2 \<and> Q 3 \<and> Q 4 \<and> Q 5 \<and> Q 6 \<and> Q (7::nat)" for Q
    by (simp add: All_less_Suc eval_nat_numeral) blast
  have "sa_fpga vs tr (SA_FIFO_BASE + 4 * of_nat i) = vs ! k ! i"
    "sa_fpga vs tr (FAI_CORR_BASE + 4 * of_nat i) = vs ! k ! (8 + i)"
    if "k < length vs" "polls tr = Suc k" "i < 8" for tr k i
  proof -
    have "\<forall>i<8. sa_fpga vs tr (SA_FIFO_BASE + 4 * of_nat i) = vs ! k ! i"
      "\<forall>i<8. sa_fpga vs tr (FAI_CORR_BASE + 4 * of_nat i) = vs ! k ! (8 + i)"
      using that(1,2) by (simp_all add: P sa_fpga_def reg_defs Let_def)
    then show "sa_fpga vs tr (SA_FIFO_BASE + 4 * of_nat i) = vs ! k ! i"
      "sa_fpga vs tr (FAI_CORR_BASE + 4 * of_nat i) = vs ! k ! (8 + i)"
      using that(3) by blast+
  qed
  moreover have "SA_SIZE (sa_fpga vs tr SA_STATUS) \<noteq> 0 \<longleftrightarrow> polls tr < length vs" for tr
    by (simp add: sa_fpga_def SA_SIZE_def Let_def)
  ultimately show ?thesis using a by (simp add: sa_source_def)
qed

text \<open>Two atoms, whose words are 1 to 16 and all 5.\<close>

definition two_atoms :: "sa_atom list" where
  "two_atoms = [map of_nat [1..<17], replicate 16 5]"


text \<open>
  C30: however files of the device are opened and closed, the table of pipes stays consistent: every
  slot in use names an allocated pipe, no pipe is in two slots, and every allocated pipe belongs to
  one; the counters of open files and readers agree with the table, which never has more than
  sixteen; and a call to open by a reader succeeds exactly when fewer are in use and memory is
  available, returning \<^verbatim>\<open>-EBUSY\<close> otherwise when they are not.
\<close>

theorem sa_registration:
  assumes "sa_step\<^sup>*\<^sup>* (libera_bss f) s" and "\<not> f_write fl"
  shows "(\<forall>i a. sa_pipe (pipes (sa s)) i = Some a \<longrightarrow> i < 16 \<and> sa_heap (sa s) a \<noteq> None) \<and>
    (\<forall>a. sa_heap (sa s) a \<noteq> None \<longrightarrow> (\<exists>!i. sa_pipe (pipes (sa s)) i = Some a)) \<and>
    registered (pipes (sa s)) = int (card (dom (sa_heap (sa s)))) \<and>
    open_count (sa_com (sa s)) = registered (pipes (sa s)) \<and>
    readers (sa_com (sa s)) = of_int (registered (pipes (sa s))) \<and>
    registered (pipes (sa s)) \<le> 16 \<and>
    fst (libera_sa_open mem fl s) =
      (if registered (pipes (sa s)) = 16 then - EBUSY else if mem = None then - ENOMEM else 0)"
proof -
  have "sa_inv s"
    using assms(1) by (induction rule: rtranclp_induct) (simp_all add: sa_inv_bss sa_step_inv)
  then have inv: "sa_slots s \<subseteq> {..<16}" "inj_on (sa_pipe (pipes (sa s))) (sa_slots s)"
    "sa_pipe (pipes (sa s)) ` sa_slots s = Some ` dom (sa_heap (sa s))"
    "registered (pipes (sa s)) = int (card (sa_slots s))" "open_count (sa_com (sa s)) = int (card (sa_slots s))"
    "readers (sa_com (sa s)) = of_nat (card (sa_slots s))"
    by (simp_all add: sa_inv_def LIBERA_SA_MAX_READERS_def)
  have card: "card (dom (sa_heap (sa s))) = card (sa_slots s)"
    using card_image [OF inv(2)] card_image [of Some "dom (sa_heap (sa s))"] by (simp add: inv(3))
  have "card (sa_slots s) \<le> 16" using card_mono [OF _ inv(1)] by simp
  moreover have "i < 16 \<and> sa_heap (sa s) a \<noteq> None" if "sa_pipe (pipes (sa s)) i = Some a" for i a
    using that sa_inv_slot [OF \<open>sa_inv s\<close> that] inv(1) by (auto simp: sa_slots_def)
  moreover have "\<exists>!i. sa_pipe (pipes (sa s)) i = Some a" if al: "sa_heap (sa s) a \<noteq> None" for a
  proof -
    obtain i where i: "sa_pipe (pipes (sa s)) i = Some a" using registered_slot [OF \<open>sa_inv s\<close> al] by blast
    moreover have "j = i" if "sa_pipe (pipes (sa s)) j = Some a" for j
      using inv(2) i that by (auto simp: inj_on_def sa_slots_def)
    ultimately show ?thesis by blast
  qed
  ultimately show ?thesis
    using assms(2) inv(4-6) card
    by (auto simp: libera_sa_open_def Let_def LIBERA_SA_MAX_READERS_def split: option.split)
qed

theorem sa_registration_witness:
  "fst (libera_sa_open (Some 8) \<lparr>filp = 2, f_read = True, f_write = False, f_nonblock = False, f_pos = 0\<rparr>
     (one_reader (\<lambda>_ _. 0))) = 0"
proof -
  have "sa_step (libera_bss (\<lambda>_ _. 0)) (one_reader (\<lambda>_ _. 0))"
    unfolding one_reader_def by (rule sa_step_open) (simp add: libera_bss_def)
  then have "sa_step\<^sup>*\<^sup>* (libera_bss (\<lambda>_ _. 0)) (one_reader (\<lambda>_ _. 0))" by simp
  moreover have "registered (pipes (sa (one_reader (\<lambda>_ _. 0)))) = 1"
    by (simp add: one_reader_def libera_sa_open_def libera_bss_def LIBERA_SA_MAX_READERS_def zero_common_def
        Let_def register_slots set_pipe_def)
  ultimately show ?thesis
    using sa_registration [of "\<lambda>_ _. 0" "one_reader (\<lambda>_ _. 0)"
        "\<lparr>filp = 2, f_read = True, f_write = False, f_nonblock = False, f_pos = 0\<rparr>" "Some 8"]
    by simp
qed

section \<open>Reading\<close>

text \<open>One sleep of the reader.\<close>

definition nap_pipe :: "ctx \<Rightarrow> nat \<Rightarrow> libera \<Rightarrow> libera" where
  "nap_pipe c a s = lock_pipe a True (schedule c (lock_pipe a False s))"

interpretation pipe_wait: waiting_loop "\<lambda>s. not_empty_saFIFO (sl_pipe (pipe_at a s))" "sigpend c"
  "nap_pipe c a" "wait_pipe c a" for a c
  by unfold_locales (subst wait_pipe.simps, simp add: nap_pipe_def)

lemma copy_atoms:
  assumes "sa_wf q" "n \<le> length (sa_contents q)"
  shows "\<exists>q'. sa_copy_atoms n room ret out q =
      (if n \<le> room then ret + int (n * atom_bytes) else - EFAULT,
       out @ take (min n room) (sa_contents q), q') \<and>
    sa_wf q' \<and> sa_contents q' = drop (if n \<le> room then n else Suc room) (sa_contents q)"
  unfolding sa_copy_atoms_def of_nat_mult by (rule sa.copy_out_takes [OF assms])

lemma lock_pipe_contents [simp]:
  "sl_pipe (pipe_at a (lock_pipe a b s)) = sl_pipe (pipe_at a s)"
  by (simp add: lock_pipe_def pipe_at_def)

lemma pipe_at_set [simp]: "pipe_at a (set_pipe a p s) = p"
  by (simp add: pipe_at_def)

lemma wait_pipe_unlimited:
  "(if empty_saFIFO (sl_pipe (pipe_at a s)) then wait_pipe c a s else Some (0, s)) = wait_pipe c a s"
  using pipe_wait.at_once [of a s c] by (simp add: empty_saFIFO_def not_empty_saFIFO_def)

text \<open>
  C31: a read of whole atoms returns as soon as the pipe has one, however often the process sleeps
  before. It then takes the oldest atoms, as many as are asked for and are there, and returns their
  size in bytes and exactly these atoms; the rest stay in the pipe in order and its lock is free.
  When the user's buffer faults after \<open>room\<close> atoms the call returns \<^verbatim>\<open>-EFAULT\<close>, and these atoms
  and the one whose copy failed are gone.
\<close>

theorem sa_read_oldest:
  fixes n c a s count
  defines "t \<equiv> (nap_pipe c a ^^ n) (lock_pipe a True s)"
  defines "m \<equiv> min (count div 64) (length (pipe_contents a t))"
  assumes "0 < count" "count mod 64 = 0" "\<not> lock_intr c s"
    and "f_nonblock f \<longrightarrow> n = 0"
    and "\<forall>k<n. pipe_contents a ((nap_pipe c a ^^ k) (lock_pipe a True s)) = [] \<and>
      sa_wf (sl_pipe (pipe_at a ((nap_pipe c a ^^ k) (lock_pipe a True s)))) \<and>
      \<not> sigpend c ((nap_pipe c a ^^ k) (lock_pipe a True s))"
    and "sa_wf (sl_pipe (pipe_at a t))" "pipe_contents a t \<noteq> []"
  shows "\<exists>s'. libera_sa_read c f a count room (f_pos f) s =
      Some (if m \<le> room then int (64 * m) else - EFAULT, take (min m room) (pipe_contents a t), s') \<and>
    pipe_contents a s' = drop (if m \<le> room then m else Suc room) (pipe_contents a t) \<and>
    \<not> sl_sem (pipe_at a s')"
proof -
  let ?l = "lock_pipe a True s"
  have em: "not_empty_saFIFO (sl_pipe (pipe_at a x)) \<longleftrightarrow> pipe_contents a x \<noteq> []"
    if "sa_wf (sl_pipe (pipe_at a x))" for x
    using sa.empty_contents [OF that] by (simp add: empty_saFIFO_def not_empty_saFIFO_def pipe_contents_def)
  have w: "wait_pipe c a ?l = Some (0, t)"
    using pipe_wait.naps [of n a c ?l] assms(7-9) em by (simp add: t_def)
  have nb: "\<not> (empty_saFIFO (sl_pipe (pipe_at a s)) \<and> f_nonblock f)"
  proof
    assume "empty_saFIFO (sl_pipe (pipe_at a s)) \<and> f_nonblock f"
    with assms(6) have "t = ?l" "empty_saFIFO (sl_pipe (pipe_at a s))" by (simp_all add: t_def)
    then show False using em [OF assms(8)] assms(9) by (simp add: empty_saFIFO_def not_empty_saFIFO_def)
  qed
  have len: "unat (len_saFIFO (sl_pipe (pipe_at a t))) = length (pipe_contents a t)"
    using sa.len_contents [OF assms(8)] by (simp add: pipe_contents_def)
  have m: "(if count div 64 < length (pipe_contents a t) then count div 64 else length (pipe_contents a t)) = m"
    by (simp add: m_def)
  obtain q where q: "sa_copy_atoms m room 0 [] (sl_pipe (pipe_at a t)) =
      (if m \<le> room then 0 + int (m * atom_bytes) else - EFAULT,
       [] @ take (min m room) (pipe_contents a t), q)"
    "sa_contents q = drop (if m \<le> room then m else Suc room) (pipe_contents a t)"
    using copy_atoms [OF assms(8), of m room 0 "[]"] by (auto simp: m_def pipe_contents_def)
  have W: "(if empty_saFIFO (sl_pipe (pipe_at a s)) then wait_pipe c a ?l else Some (0, ?l)) = Some (0, t)"
    using wait_pipe_unlimited [where a = a and c = c and s = ?l] w by simp
  let ?s' = "lock_pipe a False (set_pipe a ((pipe_at a t)\<lparr>sl_pipe := q\<rparr>) t)"
  have "libera_sa_read c f a count room (f_pos f) s =
      Some (if m \<le> room then int (64 * m) else - EFAULT, take (min m room) (pipe_contents a t), ?s')"
    using assms(3-5) q(1)
    by (simp add: libera_sa_read_def Let_def nb W len m atom_bytes_def mult.commute split del: if_split
        cong: if_cong)
  then show ?thesis using q(2) by (simp add: pipe_contents_def lock_pipe_def)
qed

text \<open>A reader that sleeps once and is woken with one atom in its pipe.\<close>

definition atom_ctx :: "sa_atom \<Rightarrow> ctx" where
  "atom_ctx d = \<lparr>wake = (\<lambda>s. set_pipe 7 \<lparr>sl_sem = False, sl_pipe = snd (putTo_saFIFO d (flush_saFIFO (zero_ring [])))\<rparr> s),
     sigpend = (\<lambda>_. False), lock_intr = (\<lambda>_. False), timeleft = (\<lambda>_ n. n - 1),
      jiffies = (\<lambda>_. 0), dma_waiter = (\<lambda>_. False)\<rparr>"

lemma woken_pipe:
  "sl_pipe (pipe_at 7 (nap_pipe (atom_ctx d) 7 s)) = snd (putTo_saFIFO d (flush_saFIFO (zero_ring [])))"
  by (simp add: nap_pipe_def schedule_def atom_ctx_def lock_pipe_def pipe_at_def set_pipe_def)

theorem sa_read_oldest_witness:
  "\<exists>s'. libera_sa_read (atom_ctx (replicate 16 9)) \<lparr>filp = 1, f_read = True, f_write = False, f_nonblock = False, f_pos = 0\<rparr>
     7 640 10 0 (one_reader (\<lambda>_ _. 0)) = Some (64, [replicate 16 9], s') \<and> pipe_contents 7 s' = []"
proof -
  let ?s = "one_reader (\<lambda>_ _. 0)" let ?c = "atom_ctx (replicate 16 9)"
  let ?f = "\<lparr>filp = 1, f_read = True, f_write = False, f_nonblock = False, f_pos = 0\<rparr>"
  let ?l = "lock_pipe 7 True ?s"
  have e: "pipe_contents 7 ?l = []" "sa_wf (sl_pipe (pipe_at 7 ?l))"
    using one_reader [of "\<lambda>_ _. 0"] sa_inv_wf by (simp_all add: pipe_contents_def)
  have t: "pipe_contents 7 ((nap_pipe ?c 7 ^^ 1) ?l) = [replicate 16 9]"
    "sa_wf (sl_pipe (pipe_at 7 ((nap_pipe ?c 7 ^^ 1) ?l)))"
    by (simp_all add: pipe_contents_def woken_pipe sa.wf_enq sa.enq_accept ring_new accept_def)
  show ?thesis
    using sa_read_oldest [of 640 ?c ?s ?f 1 7 10, unfolded t] e t(2) by (auto simp: atom_ctx_def)
qed

end
