(* ===== verification/Dma.thy ===== *)
theory Dma
  imports Trigger
begin

text \<open>
  The transfer of data-on-demand atoms: the DMA FIFO (\<^verbatim>\<open>libera_event.h\<close>), the size of a transfer,
  its command and the DMA interrupt (\<^verbatim>\<open>libera_main.c\<close>), and the loop that empties the FIFO into the
  caller's buffer (\<^verbatim>\<open>ebpp.c\<close>).

  The DMA controller of the processor is hardware the driver programs: its channel registers hold
  the source, the target and the length of a transfer. \<open>dmac_copy\<close> below is what its manual says it
  does with them; only the properties use it.
\<close>

definition LIBERA_IOBASE :: u32 where [reg_defs]: "LIBERA_IOBASE = 0x14000000"
definition LIBERA_DMA_BLOCK_ATOMS :: u32 where [reg_defs]: "LIBERA_DMA_BLOCK_ATOMS = 128"
definition LIBERA_DMA_FIFO_ATOMS :: u32 where [reg_defs]: "LIBERA_DMA_FIFO_ATOMS = 4096"
definition LIBERA_DMA_FIFO_MASK :: u32 where [reg_defs]: "LIBERA_DMA_FIFO_MASK = LIBERA_DMA_FIFO_ATOMS - 1"
definition LIBERA_YIELD_INTERVAL :: u32 where [reg_defs]: "LIBERA_YIELD_INTERVAL = 10"
definition HZ :: nat where [reg_defs]: "HZ = 100"

text \<open>The size of an atom in bytes.\<close>

definition dd_atom_bytes :: u32 where [reg_defs]: "dd_atom_bytes = 32"

section \<open>The DMA FIFO\<close>

text \<open>The indices are of the slots to be written and read next; DMA moves the data itself.\<close>

definition flushDMA_FIFO :: "dma \<Rightarrow> dma" where
  "flushDMA_FIFO q = q\<lparr>dma_put := 0, dma_get := 0\<rparr>"

definition lenDMA_FIFO :: "dma \<Rightarrow> u32" where
  "lenDMA_FIFO q = (dma_put q + LIBERA_DMA_FIFO_ATOMS - dma_get q) AND LIBERA_DMA_FIFO_MASK"

definition tailDMA_FIFO :: "dma \<Rightarrow> u32" where
  "tailDMA_FIFO q = LIBERA_DMA_FIFO_ATOMS - dma_put q"

definition not_emptyDMA_FIFO :: "dma \<Rightarrow> bool" where
  "not_emptyDMA_FIFO q \<longleftrightarrow> dma_put q \<noteq> dma_get q"

definition emptyDMA_FIFO :: "dma \<Rightarrow> bool" where
  "emptyDMA_FIFO q \<longleftrightarrow> dma_put q = dma_get q"

definition putToDMA_FIFO :: "dma \<Rightarrow> u32 \<Rightarrow> int \<times> dma" where
  "putToDMA_FIFO q size_atoms =
     (let index = (dma_put q + size_atoms) AND LIBERA_DMA_FIFO_MASK
      in if index = dma_get q then (-1, q) else (0, q\<lparr>dma_put := index\<rparr>))"

section \<open>Size and command of a transfer\<close>

text \<open>
  \<^verbatim>\<open>MIN\<close> compares as C converts its arguments: a \<^verbatim>\<open>long\<close> with an \<^verbatim>\<open>int\<close> as signed numbers, either
  with an \<^verbatim>\<open>unsigned long\<close> as unsigned ones.
\<close>

definition MIN_signed :: "u32 \<Rightarrow> u32 \<Rightarrow> u32" where
  "MIN_signed a b = (if sint a < sint b then a else b)"

definition MIN_unsigned :: "u32 \<Rightarrow> u32 \<Rightarrow> u32" where
  "MIN_unsigned a b = (if a < b then a else b)"

definition libera_dma_get_DMAC_csize :: "dma \<Rightarrow> dma" where
  "libera_dma_get_DMAC_csize q =
     (let csize_temp = MIN_unsigned (MIN_signed (remaining q) LIBERA_DMA_BLOCK_ATOMS)
                                    (MIN_unsigned (tailDMA_FIFO q) (DD_OB_SIZE (obFIFOstatus q)))
      in q\<lparr>csize := MIN_signed (LIBERA_DMA_FIFO_ATOMS - 1 - lenDMA_FIFO q) csize_temp\<rparr>)"

text \<open>The driver state's DMA structure.\<close>

definition upd_dma :: "(dma \<Rightarrow> dma) \<Rightarrow> libera \<Rightarrow> libera" where
  "upd_dma f s = s\<lparr>lgbl := (lgbl s)\<lparr>g_dma := f (g_dma (lgbl s))\<rparr>\<rparr>"

abbreviation dma_of :: "libera \<Rightarrow> dma" where
  "dma_of s \<equiv> g_dma (lgbl s)"

text \<open>
  The command sets up the channel: no descriptor, both addresses incrementing, 32-bit words, an
  interrupt at the end. \<open>target\<close> is the index in the FIFO's buffer.
\<close>

definition libera_dma_command :: "u32 \<Rightarrow> nat \<Rightarrow> u32 \<Rightarrow> libera \<Rightarrow> libera" where
  "libera_dma_command source target bytes s =
     upd_dma (\<lambda>q. q\<lparr>DMAC_transfer := True, dmac_src := source, dmac_dst := target, dmac_bytes := bytes\<rparr>) s"

definition start_dma :: "libera \<Rightarrow> libera" where
  "start_dma s = libera_dma_command (LIBERA_IOBASE + DD_OB_FIFOBASE) (unat (dma_put (dma_of s)))
     (csize (dma_of s) * dd_atom_bytes) s"

section \<open>The DMA interrupt\<close>

text \<open>The arguments are the bits of the channel's status register the handler tests.\<close>

definition libera_dma_interrupt :: "bool \<Rightarrow> bool \<Rightarrow> libera \<Rightarrow> libera" where
  "libera_dma_interrupt endintr buserr s =
     (let s =
        (if endintr then
           let (st, s) = readl DD_OB_STATUS s;
               s = upd_dma (\<lambda>q. q\<lparr>obFIFOstatus := st\<rparr>) s;
               s = (if DD_OB_OVERRUN st \<noteq> 0 then upd_dma (\<lambda>q. q\<lparr>Overrun := True\<rparr>) s else s);
               s = upd_dma (\<lambda>q. q\<lparr>remaining := remaining q - csize q\<rparr>) s;
               (r, q) = putToDMA_FIFO (dma_of s) (csize (dma_of s));
               s = upd_dma (\<lambda>_. q) s;
               s = (if r < 0 then printk_crit DMA_FIFO_overflow s else s);
               s = upd_dma libera_dma_get_DMAC_csize s;
               s = (if 0 < sint (csize (dma_of s)) then start_dma s
                    else upd_dma (\<lambda>q. q\<lparr>DMAC_transfer := False\<rparr>) s)
           in if \<not> aborting (dma_of s) then wake_up_interruptible DMA_queue s else s
         else s)
      in if buserr then printk_crit DMA_BUS_ERROR s else s)"

section \<open>Synchronisation with the output buffer\<close>

definition dma_no_data :: "libera \<Rightarrow> bool" where
  "dma_no_data s \<longleftrightarrow>
     remaining (dma_of s) \<noteq> 0 \<and> DD_OB_SIZE (obFIFOstatus (dma_of s)) = 0 \<and> \<not> Overrun (dma_of s)"

text \<open>
  The loop gives up when \<^verbatim>\<open>wait_count++ > HZ\<close>, at the \<^verbatim>\<open>HZ + 2\<close>nd pass; \<open>n\<close> is the number of passes
  left, so it always returns.
\<close>

fun OB_sync_loop :: "nat \<Rightarrow> ctx \<Rightarrow> libera \<Rightarrow> int \<times> libera" where
  "OB_sync_loop n c s =
     (if \<not> dma_no_data s then (0, s)
      else
        let s = schedule c s;
            (st, s) = readl DD_OB_STATUS s;
            s = upd_dma (\<lambda>q. q\<lparr>obFIFOstatus := st\<rparr>) s;
            s = (if DD_OB_OVERRUN st \<noteq> 0 then upd_dma (\<lambda>q. q\<lparr>Overrun := True\<rparr>) s else s)
        in case n of 0 \<Rightarrow> (- EIO, s) | Suc n \<Rightarrow> OB_sync_loop n c s)"

declare OB_sync_loop.simps [simp del]

definition libera_OB_fifo_sync :: "ctx \<Rightarrow> libera \<Rightarrow> int \<times> libera" where
  "libera_OB_fifo_sync c s = OB_sync_loop (HZ + 1) c s"

section \<open>The transfer\<close>

text \<open>Sleeping until the FIFO has atoms; \<^verbatim>\<open>pm_entry\<close> interrupts it like a signal.\<close>

partial_function (option) wait_dma :: "ctx \<Rightarrow> libera \<Rightarrow> (int \<times> libera) option" where
  "wait_dma c s =
     (if not_emptyDMA_FIFO (dma_of s) then Some (0, s)
      else if \<not> (sigpend c s \<or> pm_entry (dd s)) then wait_dma c (schedule c s)
      else Some (- ERESTARTSYS, s))"

text \<open>
  Where the atoms go: to user memory that takes \<open>n\<close> of them before a copy fails, or to a kernel
  buffer.
\<close>

datatype dma_target = User nat | Kernel_buf

fun target_fails :: "dma_target \<Rightarrow> nat \<Rightarrow> bool" where
  "target_fails (User room) k = (room \<le> k)"
| "target_fails Kernel_buf k = False"

text \<open>
  The inner loop over the \<open>n\<close> atoms found. Once \<open>atom_count\<close> atoms have been seen, or an overrun, the
  rest are dropped; \<open>OBAtoms\<close> counts all that are looked at. The first component of the result tells
  whether every copy succeeded.
\<close>

fun copy_fifo ::
  "nat \<Rightarrow> dma_target \<Rightarrow> u32 \<Rightarrow> u32 \<Rightarrow> dd_atom list \<Rightarrow> dma \<Rightarrow> bool \<times> u32 \<times> dd_atom list \<times> dma"
where
  "copy_fifo 0 tgt atom_count OBAtoms out q = (True, OBAtoms, out, q)"
| "copy_fifo (Suc n) tgt atom_count OBAtoms out q =
     (if OBAtoms < atom_count \<and> \<not> Overrun q then
        (if target_fails tgt (length out) then (False, OBAtoms + 1, out, q)
         else
           let out = out @ [dma_buf q (unat (dma_get q))];
               q = q\<lparr>written := written q + 1\<rparr>;
               q = q\<lparr>dma_get := (dma_get q + 1) AND LIBERA_DMA_FIFO_MASK\<rparr>
           in copy_fifo n tgt atom_count (OBAtoms + 1) out q)
      else
        copy_fifo n tgt atom_count (OBAtoms + 1) out
          (q\<lparr>dma_get := (dma_get q + 1) AND LIBERA_DMA_FIFO_MASK\<rparr>))"

definition dma_needs_start :: "libera \<Rightarrow> bool" where
  "dma_needs_start s \<longleftrightarrow> \<not> DMAC_transfer (dma_of s) \<and> remaining (dma_of s) \<noteq> 0"

definition abort_dma :: "libera \<Rightarrow> libera" where
  "abort_dma s = upd_dma (\<lambda>q. q\<lparr>aborting := True\<rparr>) s"

text \<open>How a part of the loop body ends: with a return value, by leaving the loop, or going on.\<close>

datatype flow = Return int | Break | Continue

text \<open>Starting DMA again, at the end of the body.\<close>

definition restart_dma :: "ctx \<Rightarrow> libera \<Rightarrow> flow \<times> libera" where
  "restart_dma c s =
     (if dma_needs_start s then
        let (st, s) = readl DD_OB_STATUS s;
            s = upd_dma (\<lambda>q. q\<lparr>obFIFOstatus := st\<rparr>) s;
            s = (if DD_OB_OVERRUN st \<noteq> 0 then upd_dma (\<lambda>q. q\<lparr>Overrun := True\<rparr>) s else s);
            (sync_ret, s) = libera_OB_fifo_sync c s
        in if sync_ret < 0 then (Return sync_ret, s)
           else
             let s = upd_dma libera_dma_get_DMAC_csize s in
             if \<not> 0 < sint (csize (dma_of s)) \<and> LIBERA_DMA_FIFO_ATOMS - 1 - lenDMA_FIFO (dma_of s) = 0
             then (Continue, s)
             else if \<not> Overrun (dma_of s) then (Continue, start_dma s)
             else (Break, s)
      else (Continue, s))"

text \<open>The body: wait, empty the FIFO, let others run, start DMA again.\<close>

definition transfer_body ::
  "ctx \<Rightarrow> dma_target \<Rightarrow> u32 \<Rightarrow> u32 \<Rightarrow> u32 \<Rightarrow> dd_atom list \<Rightarrow> libera
     \<Rightarrow> (flow \<times> u32 \<times> u32 \<times> dd_atom list \<times> libera) option"
where
  "transfer_body c tgt atom_count last_yield OBAtoms out s =
     Option.bind (if emptyDMA_FIFO (dma_of s) then wait_dma c s else Some (0, s)) (\<lambda>(ret, s).
       if ret \<noteq> 0 then Some (Return ret, last_yield, OBAtoms, out, abort_dma s)
       else
         let fifo_atoms = lenDMA_FIFO (dma_of s) in
         if fifo_atoms = 0 then Some (Return (- EFAULT), last_yield, OBAtoms, out, printk_crit DMA_FIFO_empty s)
         else
           let (ok, OBAtoms, out, q) = copy_fifo (unat fifo_atoms) tgt atom_count OBAtoms out (dma_of s);
               s = upd_dma (\<lambda>_. q) s
           in if \<not> ok then Some (Return (- EFAULT), last_yield, OBAtoms, out, s)
              else
                let yields = last_yield + LIBERA_YIELD_INTERVAL < jiffies c s;
                    last_yield = (if yields then jiffies c s else last_yield);
                    s = (if yields then schedule c s else s)
                in if yields \<and> (sigpend c s \<or> pm_entry (dd s))
                   then Some (Return (- ERESTARTSYS), last_yield, OBAtoms, out, abort_dma s)
                   else let (fl, s) = restart_dma c s in Some (fl, last_yield, OBAtoms, out, s))"

text \<open>After the loop: consistency checks and the number of atoms written.\<close>

definition finish_transfer :: "u32 \<Rightarrow> u32 \<Rightarrow> libera \<Rightarrow> int \<times> libera" where
  "finish_transfer atom_count OBAtoms s =
     (let (st, s) = readl DD_OB_STATUS s;
          s = upd_dma (\<lambda>q. q\<lparr>obFIFOstatus := st\<rparr>) s
      in if \<not> Overrun (dma_of s) \<and> DD_OB_SIZE st \<noteq> 0 then (- EIO, s)
         else if \<not> Overrun (dma_of s) \<and> OBAtoms \<noteq> atom_count then (- EFAULT, s)
         else (sint (written (dma_of s)), s))"

partial_function (option) transfer_loop ::
  "ctx \<Rightarrow> dma_target \<Rightarrow> u32 \<Rightarrow> u32 \<Rightarrow> u32 \<Rightarrow> dd_atom list \<Rightarrow> libera \<Rightarrow> (int \<times> dd_atom list \<times> libera) option"
where
  "transfer_loop c tgt atom_count last_yield OBAtoms out s =
     Option.bind (transfer_body c tgt atom_count last_yield OBAtoms out s)
       (\<lambda>(fl, last_yield, OBAtoms, out, s).
          case fl of
            Return r \<Rightarrow> Some (r, out, s)
          | Break \<Rightarrow> (let (r, s) = finish_transfer atom_count OBAtoms s in Some (r, out, s))
          | Continue \<Rightarrow>
              if remaining (dma_of s) \<noteq> 0 \<or> not_emptyDMA_FIFO (dma_of s)
              then transfer_loop c tgt atom_count last_yield OBAtoms out s
              else (let (r, s) = finish_transfer atom_count OBAtoms s in Some (r, out, s)))"

definition libera_dd_transfer_OBfifo_DMA ::
  "ctx \<Rightarrow> dma_target \<Rightarrow> u32 \<Rightarrow> libera \<Rightarrow> (int \<times> dd_atom list \<times> libera) option"
where
  "libera_dd_transfer_OBfifo_DMA c tgt atom_count s =
     (let last_yield = jiffies c s;
          (st, s) = readl DD_OB_STATUS s;
          s = upd_dma (\<lambda>q. q\<lparr>obFIFOstatus := st, Overrun := False, DMAC_transfer := False,
                          remaining := atom_count, aborting := False, written := 0\<rparr>) s;
          s = upd_dma flushDMA_FIFO s;
          s = upd_dma libera_dma_get_DMAC_csize s;
          (sync_ret, s) = libera_OB_fifo_sync c s
      in if sync_ret < 0 then Some (sync_ret, [], s)
         else
           let s = upd_dma libera_dma_get_DMAC_csize s;
               s = start_dma s
           in transfer_loop c tgt atom_count last_yield 0 [] s)"

definition libera_dd_read_OBfifo_DMA :: "ctx \<Rightarrow> u32 \<Rightarrow> libera \<Rightarrow> (int \<times> dd_atom list \<times> libera) option" where
  "libera_dd_read_OBfifo_DMA c atom_count s = libera_dd_transfer_OBfifo_DMA c Kernel_buf atom_count s"

section \<open>The limits of a transfer\<close>

definition dma_ok :: "dma \<Rightarrow> bool" where
  "dma_ok q \<longleftrightarrow> unat (dma_put q) < 4096 \<and> unat (dma_get q) < 4096"

definition dma_len :: "dma \<Rightarrow> nat" where
  "dma_len q = (unat (dma_put q) + 4096 - unat (dma_get q)) mod 4096"

text \<open>The atoms in the FIFO, the oldest first.\<close>

definition dma_contents :: "dma \<Rightarrow> dd_atom list" where
  "dma_contents q = map (\<lambda>i. dma_buf q ((unat (dma_get q) + i) mod 4096)) [0..<dma_len q]"

lemma length_dma_contents [simp]: "length (dma_contents q) = dma_len q"
  by (simp add: dma_contents_def)

lemma nth_dma_contents: "i < dma_len q \<Longrightarrow> dma_contents q ! i = dma_buf q ((unat (dma_get q) + i) mod 4096)"
  by (simp add: dma_contents_def)

lemma dma_mask: "LIBERA_DMA_FIFO_MASK = mask 12"
  by (simp add: reg_defs mask_eq_exp_minus_1)

lemma dma_len_bound: "dma_len q < 4096"
  by (simp add: dma_len_def)

lemma unat_lenDMA: "dma_ok q \<Longrightarrow> unat (lenDMA_FIFO q) = dma_len q"
proof -
  assume ok: "dma_ok q"
  then have "unat (dma_put q + 4096) = unat (dma_put q) + 4096"
    by (simp add: dma_ok_def unat_add_u32)
  moreover from this ok have "dma_get q \<le> dma_put q + 4096"
    by (simp add: word_le_nat_alt dma_ok_def)
  ultimately have "unat (dma_put q + 4096 - dma_get q) = unat (dma_put q) + 4096 - unat (dma_get q)"
    by (simp add: unat_sub_le)
  then show ?thesis
    by (simp add: lenDMA_FIFO_def dma_len_def dma_mask unat_and_mask LIBERA_DMA_FIFO_ATOMS_def)
qed

lemma dma_empty_len: "dma_ok q \<Longrightarrow> emptyDMA_FIFO q \<longleftrightarrow> dma_len q = 0"
proof -
  assume ok: "dma_ok q"
  then have "dma_len q = 0 \<longleftrightarrow> unat (dma_put q) = unat (dma_get q)"
    using ring_dist [of "unat (dma_put q)" 4096 "unat (dma_get q)"]
    by (auto simp: dma_len_def dma_ok_def split: if_splits)
  then show ?thesis by (simp add: emptyDMA_FIFO_def word_unat_eq_iff)
qed

lemma sint_small: "unat (x :: u32) < 2147483648 \<Longrightarrow> sint x = int (unat x)"
proof -
  assume "unat x < 2147483648"
  then have "int (unat x) < 2147483648" by linarith
  then have u: "uint x < 2147483648" by simp
  have "sint x = signed_take_bit 31 (uint x)" by (simp add: sint_uint)
  also have "\<dots> = uint x"
    using u by (intro signed_take_bit_int_eq_self) (simp_all add: order_trans [OF _ unsigned_greater_eq])
  finally show ?thesis by simp
qed

lemma unat_MIN_signed:
  assumes "unat a < 2147483648" "unat b < 2147483648"
  shows "unat (MIN_signed a b) = min (unat a) (unat b)"
proof -
  have "sint a < sint b \<longleftrightarrow> unat a < unat b"
    unfolding sint_small [OF assms(1)] sint_small [OF assms(2)] by (rule of_nat_less_iff)
  then show ?thesis by (simp add: MIN_signed_def)
qed

lemma unat_MIN_unsigned: "unat (MIN_unsigned a b) = min (unat a) (unat b)"
  by (simp add: MIN_unsigned_def word_less_nat_alt)

lemma ob_size_bound: "unat (DD_OB_SIZE st) < 256"
proof -
  have "DD_OB_SIZE st = drop_bit 0 st AND mask 8" by (simp add: DD_OB_SIZE_def mask_eq_exp_minus_1)
  then show ?thesis by (simp add: unat_and_mask)
qed

text \<open>The five limits of the comment in the code, as a number.\<close>

definition dma_limit :: "dma \<Rightarrow> nat" where
  "dma_limit q = Min {unat (remaining q), 128, 4096 - unat (dma_put q), unat (DD_OB_SIZE (obFIFOstatus q)),
     4095 - dma_len q}"

lemma dma_limit_le: "dma_limit q \<le> unat (remaining q)" "dma_limit q \<le> 128"
  "dma_limit q \<le> 4096 - unat (dma_put q)" "dma_limit q \<le> 4095 - dma_len q"
  unfolding dma_limit_def by (rule Min_le; simp)+

lemma csize_limit:
  assumes "dma_ok q" "unat (remaining q) < 2147483648"
  shows "unat (csize (libera_dma_get_DMAC_csize q)) = dma_limit q"
    and "libera_dma_get_DMAC_csize q = q\<lparr>csize := of_nat (dma_limit q)\<rparr>"
proof -
  have tail: "unat (tailDMA_FIFO q) = 4096 - unat (dma_put q)"
    using assms(1) by (simp add: tailDMA_FIFO_def LIBERA_DMA_FIFO_ATOMS_def dma_ok_def unat_sub_le word_le_nat_alt)
  have len: "unat (4095 - lenDMA_FIFO q) = 4095 - dma_len q"
    using unat_lenDMA [OF assms(1)] dma_len_bound [of q] by (simp add: unat_sub_le word_le_nat_alt)
  have ob: "unat (DD_OB_SIZE (obFIFOstatus q)) < 256" by (rule ob_size_bound)
  let ?a = "MIN_signed (remaining q) 128" let ?t = "MIN_unsigned (tailDMA_FIFO q) (DD_OB_SIZE (obFIFOstatus q))"
  have a: "unat ?a = min (unat (remaining q)) 128" using assms(2) by (simp add: unat_MIN_signed)
  have t: "unat ?t = min (4096 - unat (dma_put q)) (unat (DD_OB_SIZE (obFIFOstatus q)))"
    by (simp add: unat_MIN_unsigned tail)
  have small: "unat (MIN_unsigned ?a ?t) < 2147483648" "unat (4095 - lenDMA_FIFO q) < 2147483648"
    using ob by (simp_all add: unat_MIN_unsigned a t len)
  show u: "unat (csize (libera_dma_get_DMAC_csize q)) = dma_limit q"
    by (simp add: libera_dma_get_DMAC_csize_def Let_def LIBERA_DMA_BLOCK_ATOMS_def LIBERA_DMA_FIFO_ATOMS_def
        unat_MIN_signed [OF small(2,1)] unat_MIN_unsigned [of ?a ?t] a t len dma_limit_def ac_simps)
  have "csize (libera_dma_get_DMAC_csize q) = of_nat (dma_limit q)"
    using arg_cong [OF u, of "of_nat :: nat \<Rightarrow> u32"] by simp
  then show "libera_dma_get_DMAC_csize q = q\<lparr>csize := of_nat (dma_limit q)\<rparr>"
    by (simp add: libera_dma_get_DMAC_csize_def Let_def)
qed

text \<open>
  C32: the size chosen for a transfer is the largest that respects the five limits listed in the
  code: the atoms asked for, the block of 128, the end of the FIFO's buffer, what the output buffer
  holds and the room in the FIFO. So the controller, which knows none of this, writes only inside
  the buffer and never over an atom that has not been read.
\<close>

theorem dma_size_safe:
  assumes "dma_ok q" "unat (remaining q) < 2147483648"
  shows "unat (csize (libera_dma_get_DMAC_csize q)) =
      Min {unat (remaining q), 128, 4096 - unat (dma_put q), unat (DD_OB_SIZE (obFIFOstatus q)), 4095 - dma_len q} \<and>
    (\<forall>i < unat (csize (libera_dma_get_DMAC_csize q)). unat (dma_put q) + i < 4096 \<and>
       unat (dma_put q) + i \<notin> (\<lambda>j. (unat (dma_get q) + j) mod 4096) ` {..<dma_len q})"
proof -
  let ?p = "unat (dma_put q)" let ?g = "unat (dma_get q)"
  have b: "?p < 4096" "?g < 4096" using assms(1) by (simp_all add: dma_ok_def)
  have put: "(?g + dma_len q) mod 4096 = ?p"
    using ring_last_index [of ?p 4096 ?g] b by (simp add: dma_len_def)
  have "?p + i < 4096 \<and> ?p + i \<notin> (\<lambda>j. (?g + j) mod 4096) ` {..<dma_len q}" if i: "i < dma_limit q" for i
  proof -
    have lt: "i < 4096 - ?p" "i < 4095 - dma_len q" using i dma_limit_le [of q] by linarith+
    have "(?g + j) mod 4096 \<noteq> ?p + i" if "j < dma_len q" for j
    proof -
      have "?p + i = (?g + dma_len q + i) mod 4096"
      proof -
        have "(?g + dma_len q + i) mod 4096 = (?p + i) mod 4096"
          using mod_add_left_eq [of "?g + dma_len q" 4096 i] put by simp
        also have "\<dots> = ?p + i" using lt(1) b by simp
        finally show ?thesis by simp
      qed
      moreover have "(?g + j) mod 4096 \<noteq> (?g + dma_len q + i) mod 4096"
        using that lt(2) by (intro mod_neq_close) linarith+
      ultimately show ?thesis by simp
    qed
    note apart = this
    have "?p + i \<notin> (\<lambda>j. (?g + j) mod 4096) ` {..<dma_len q}"
    proof
      assume "?p + i \<in> (\<lambda>j. (?g + j) mod 4096) ` {..<dma_len q}"
      then obtain j where "?p + i = (?g + j) mod 4096" "j \<in> {..<dma_len q}" by (rule imageE)
      with apart [of j] show False by simp
    qed
    then show ?thesis using lt(1) b by simp
  qed
  then show ?thesis unfolding csize_limit(1) [OF assms] by (simp add: dma_limit_def)
qed

theorem dma_size_safe_witness:
  "unat (csize (libera_dma_get_DMAC_csize (zero_dma\<lparr>dma_put := 4090, dma_get := 5, remaining := 500, obFIFOstatus := 40\<rparr>))) = 6"
  using dma_size_safe [of "zero_dma\<lparr>dma_put := 4090, dma_get := 5, remaining := 500, obFIFOstatus := 40\<rparr>"]
  by (simp add: dma_ok_def dma_len_def DD_OB_SIZE_def)

section \<open>One completed transfer\<close>

text \<open>The FIFO after \<open>n\<close> atoms have been copied to its put index.\<close>

definition filled :: "dd_atom list \<Rightarrow> dma \<Rightarrow> dma" where
  "filled xs q = q\<lparr>dma_buf := (\<lambda>i. if unat (dma_put q) \<le> i \<and> i < unat (dma_put q) + length xs
     then xs ! (i - unat (dma_put q)) else dma_buf q i)\<rparr>"

lemma filled_frame [simp]:
  "csize (filled xs q) = csize q" "remaining (filled xs q) = remaining q" "written (filled xs q) = written q"
  "Overrun (filled xs q) = Overrun q" "aborting (filled xs q) = aborting q"
  "DMAC_transfer (filled xs q) = DMAC_transfer q" "dma_put (filled xs q) = dma_put q"
  "dma_get (filled xs q) = dma_get q"
  by (simp_all add: filled_def)

abbreviation put_at :: "dd_atom list \<Rightarrow> dma \<Rightarrow> u32" where
  "put_at xs q \<equiv> (dma_put q + of_nat (length xs)) AND mask 12"

abbreviation refilled :: "dd_atom list \<Rightarrow> dma \<Rightarrow> dma" where
  "refilled xs q \<equiv> (filled xs q)\<lparr>dma_put := put_at xs q\<rparr>"

lemma put_filled_index:
  assumes ok: "dma_ok q" and n: "length xs \<le> 4096 - unat (dma_put q)"
  shows "unat (put_at xs q) = (unat (dma_put q) + length xs) mod 4096" and "dma_ok (refilled xs q)"
proof -
  have b: "unat (dma_put q) < 4096" "unat (dma_get q) < 4096" using ok by (simp_all add: dma_ok_def)
  have "unat (of_nat (length xs) :: u32) = length xs" using n b
    by (simp add: unsigned_of_nat take_bit_nat_eq_self_iff)
  then show u: "unat (put_at xs q) = (unat (dma_put q) + length xs) mod 4096"
    using n b by (simp add: unat_and_mask unat_add_u32)
  show "dma_ok (refilled xs q)" using b by (simp add: dma_ok_def u filled_def)
qed

lemma put_filled_len:
  assumes ok: "dma_ok q" and n: "length xs \<le> 4095 - dma_len q" "length xs \<le> 4096 - unat (dma_put q)"
  shows "dma_len (refilled xs q) = dma_len q + length xs"
proof -
  let ?p = "unat (dma_put q)" let ?g = "unat (dma_get q)" let ?n = "length xs"
  have e: "x + 4096 - ?g = x + (4096 - ?g)" for x using ok by (simp add: dma_ok_def)
  have "((?p + ?n) mod 4096 + 4096 - ?g) mod 4096 = (?p + ?n + (4096 - ?g)) mod 4096"
    unfolding e by (rule mod_add_left_eq)
  also have "\<dots> = (?p + (4096 - ?g) + ?n) mod 4096" by (simp add: ac_simps)
  also have "\<dots> = ((?p + 4096 - ?g) mod 4096 + ?n) mod 4096"
    unfolding e by (rule mod_add_left_eq [symmetric])
  also have "\<dots> = dma_len q + ?n" using n(1) dma_len_bound [of q] by (simp add: dma_len_def)
  finally show ?thesis by (simp add: dma_len_def put_filled_index(1) [OF ok n(2)] filled_def)
qed

text \<open>The atoms that were there are not overwritten, and the new ones come after them.\<close>

lemma put_filled_old:
  assumes ok: "dma_ok q" and n: "length xs \<le> 4095 - dma_len q" and i: "i < dma_len q"
  shows "dma_buf (filled xs q) ((unat (dma_get q) + i) mod 4096) = dma_buf q ((unat (dma_get q) + i) mod 4096)"
proof -
  let ?p = "unat (dma_put q)" let ?g = "unat (dma_get q)" let ?j = "(?g + i) mod 4096"
  have put: "(?g + dma_len q) mod 4096 = ?p"
    using ring_last_index [of ?p 4096 ?g] ok by (simp add: dma_len_def dma_ok_def)
  have "\<not> (?p \<le> ?j \<and> ?j < ?p + length xs)"
  proof
    assume j: "?p \<le> ?j \<and> ?j < ?p + length xs"
    have "(?g + i) mod 4096 = (?g + dma_len q + (?j - ?p)) mod 4096"
      using j put by (metis le_add_diff_inverse mod_add_left_eq mod_mod_trivial)
    moreover have "(?g + i) mod 4096 \<noteq> (?g + dma_len q + (?j - ?p)) mod 4096"
      using i j n dma_len_bound [of q] by (intro mod_neq_close) linarith+
    ultimately show False by simp
  qed
  then show ?thesis by (auto simp: filled_def)
qed

lemma put_filled_new:
  assumes ok: "dma_ok q" and n: "length xs \<le> 4096 - unat (dma_put q)" and k: "k < length xs"
  shows "dma_buf (filled xs q) ((unat (dma_get q) + (dma_len q + k)) mod 4096) = xs ! k"
proof -
  have put: "(unat (dma_get q) + dma_len q) mod 4096 = unat (dma_put q)"
    using ring_last_index [of "unat (dma_put q)" 4096 "unat (dma_get q)"] ok by (simp add: dma_len_def dma_ok_def)
  have "(unat (dma_get q) + (dma_len q + k)) mod 4096 = (unat (dma_put q) + k) mod 4096"
    using put by (metis add.assoc mod_add_left_eq)
  also have "\<dots> = unat (dma_put q) + k" using k n ok by (simp add: dma_ok_def)
  finally show ?thesis using k by (simp add: filled_def)
qed

lemma put_filled:
  assumes ok: "dma_ok q" and n: "length xs \<le> 4095 - dma_len q" "length xs \<le> 4096 - unat (dma_put q)"
  shows "putToDMA_FIFO (filled xs q) (of_nat (length xs)) = (if xs = [] \<and> dma_len q = 0 then -1 else 0, refilled xs q)"
    and "dma_ok (refilled xs q)"
    and "dma_contents (refilled xs q) = dma_contents q @ xs"
proof -
  note len = put_filled_len [OF ok n]
  show ok': "dma_ok (refilled xs q)" by (rule put_filled_index [OF ok n(2)])
  show "dma_contents (refilled xs q) = dma_contents q @ xs"
  proof (rule nth_equalityI)
    show "length (dma_contents (refilled xs q)) = length (dma_contents q @ xs)" by (simp add: len)
    fix i assume "i < length (dma_contents (refilled xs q))"
    then have i: "i < dma_len (refilled xs q)" "i < dma_len q + length xs" by (simp_all add: len)
    have l: "dma_contents (refilled xs q) ! i = dma_buf (filled xs q) ((unat (dma_get q) + i) mod 4096)"
      using nth_dma_contents [OF i(1)] by (simp add: filled_def)
    show "dma_contents (refilled xs q) ! i = (dma_contents q @ xs) ! i"
      using i(2) put_filled_old [OF ok n(1), of i] put_filled_new [OF ok n(2), of "i - dma_len q"]
      unfolding l by (auto simp: nth_append nth_dma_contents)
  qed
  have "put_at xs q = dma_get q \<longleftrightarrow> dma_len (refilled xs q) = 0"
    using dma_empty_len [OF ok'] by (simp add: emptyDMA_FIFO_def filled_def)
  then have "put_at xs q = dma_get q \<longleftrightarrow> xs = [] \<and> dma_len q = 0" by (auto simp: len)
  moreover have "put_at xs q = dma_put q" if "xs = []"
    using that ok by (simp add: mask12_id dma_ok_def)
  ultimately show "putToDMA_FIFO (filled xs q) (of_nat (length xs)) =
      (if xs = [] \<and> dma_len q = 0 then -1 else 0, refilled xs q)"
    by (auto simp: putToDMA_FIFO_def Let_def dma_mask filled_def)
qed

section \<open>The DMA controller and the output buffer\<close>

fun atom_words :: "dd_atom \<Rightarrow> u32 list" where
  "atom_words d = [cosVa d, sinVa d, cosVb d, sinVb d, cosVc d, sinVc d, cosVd d, sinVd d]"

definition words_atom :: "u32 list \<Rightarrow> dd_atom" where
  "words_atom ws = \<lparr>cosVa = ws ! 0, sinVa = ws ! 1, cosVb = ws ! 2, sinVb = ws ! 3,
     cosVc = ws ! 4, sinVc = ws ! 5, cosVd = ws ! 6, sinVd = ws ! 7\<rparr>"

lemma words_atom_words [simp]: "words_atom (atom_words d) = d"
  by (simp add: words_atom_def)

text \<open>
  The controller reads the words of the transfer one after the other, both addresses incrementing,
  and then raises its end interrupt.
\<close>

definition dmac_copy :: "libera \<Rightarrow> libera" where
  "dmac_copy s =
     (let q = dma_of s;
          n = unat (dmac_bytes q) div 4;
          (ws, s) = libera_readlBlock (dmac_src q - LIBERA_IOBASE) n s;
          xs = map (\<lambda>i. words_atom (take 8 (drop (8 * i) ws))) [0..<n div 8]
      in upd_dma (\<lambda>q. q\<lparr>dma_buf := (\<lambda>i. if dmac_dst q \<le> i \<and> i < dmac_dst q + n div 8
           then xs ! (i - dmac_dst q) else dma_buf q i)\<rparr>) s)"

definition dma_completes :: "libera \<Rightarrow> libera" where
  "dma_completes s = (if DMAC_transfer (dma_of s) then libera_dma_interrupt True False (dmac_copy s) else s)"

text \<open>
  The FPGA's output buffer with the atoms \<open>as\<close>: every read in its window takes the next word; the
  status shows no overrun, never more atoms than are left, and some as long as any is.
\<close>

definition ob_window :: "u32 \<Rightarrow> bool" where
  "ob_window a \<longleftrightarrow> DD_OB_FIFOBASE \<le> a \<and> a < DD_OB_FIFOBASE + 0x1000"

definition pops :: "io list \<Rightarrow> nat" where
  "pops tr = length (filter (\<lambda>x. case x of Rd b _ \<Rightarrow> ob_window b | Wr _ _ \<Rightarrow> False) tr)"

definition ob_word :: "dd_atom list \<Rightarrow> nat \<Rightarrow> u32" where
  "ob_word as p = atom_words (as ! (p div 8)) ! (p mod 8)"

definition ob_source :: "dd_atom list \<Rightarrow> nat \<Rightarrow> (io list \<Rightarrow> u32 \<Rightarrow> u32) \<Rightarrow> bool" where
  "ob_source as c f \<longleftrightarrow> (\<forall>tr. let p = pops tr - c in
     (p < 8 * length as \<longrightarrow> (\<forall>a. ob_window a \<longrightarrow> f tr a = ob_word as p)) \<and>
     DD_OB_OVERRUN (f tr DD_OB_STATUS) = 0 \<and>
     unat (DD_OB_SIZE (f tr DD_OB_STATUS)) \<le> length as - p div 8 \<and>
     (p div 8 < length as \<longrightarrow> DD_OB_SIZE (f tr DD_OB_STATUS) \<noteq> 0))"

lemma pops_Cons [simp]:
  "pops (Rd a v # tr) = (if ob_window a then Suc (pops tr) else pops tr)" "pops (Wr a v # tr) = pops tr"
  by (simp_all add: pops_def)

lemma ob_window_word: "m < 1024 \<Longrightarrow> ob_window (DD_OB_FIFOBASE + 4 * of_nat m)"
proof -
  assume m: "m < 1024"
  then have "unat (of_nat m :: u32) = m" by (simp add: unsigned_of_nat take_bit_nat_eq_self_iff)
  with m have "unat (4 * of_nat m :: u32) = 4 * m" by (simp add: unat_word_ariths)
  with m have "unat (DD_OB_FIFOBASE + 4 * of_nat m) = 0x19000 + 4 * m"
    by (simp add: reg_defs unat_add_u32)
  with m show ?thesis by (simp add: ob_window_def word_le_nat_alt word_less_nat_alt reg_defs)
qed

lemma status_not_window [simp]: "\<not> ob_window DD_OB_STATUS"
  by (simp add: ob_window_def reg_defs)

lemma ob_block:
  assumes "ob_source as c (fpga s)" "pops (trace s) = c + j" "j + n \<le> 8 * length as" "m + n \<le> 1024"
  shows "fst (libera_readlBlock (DD_OB_FIFOBASE + 4 * of_nat m) n s) = map (\<lambda>i. ob_word as (j + i)) [0..<n] \<and>
    pops (trace (snd (libera_readlBlock (DD_OB_FIFOBASE + 4 * of_nat m) n s))) = c + j + n \<and>
    fpga (snd (libera_readlBlock (DD_OB_FIFOBASE + 4 * of_nat m) n s)) = fpga s"
  using assms
proof (induction n arbitrary: j m s)
  case 0
  then show ?case by simp
next
  case (Suc n)
  let ?a = "DD_OB_FIFOBASE + 4 * of_nat m"
  let ?s = "snd (readl ?a s)"
  have w: "ob_window ?a" using Suc.prems(4) by (intro ob_window_word) simp
  have a: "?a + 4 = DD_OB_FIFOBASE + 4 * of_nat (Suc m)" by (simp add: algebra_simps)
  have v: "fpga s (trace s) ?a = ob_word as j"
    using Suc.prems(1-3) w by (auto simp: ob_source_def Let_def dest!: spec [of _ "trace s"])
  have "fst (libera_readlBlock (?a + 4) n ?s) = map (\<lambda>i. ob_word as (Suc j + i)) [0..<n] \<and>
    pops (trace (snd (libera_readlBlock (?a + 4) n ?s))) = c + Suc j + n \<and>
    fpga (snd (libera_readlBlock (?a + 4) n ?s)) = fpga ?s"
    unfolding a using Suc.prems w by (intro Suc.IH) simp_all
  then show ?case using v by (simp add: case_prod_unfold Let_def upt_Suc_map del: upt_Suc)
qed

lemma atoms_of_words:
  assumes "k + n \<le> length as" "i < n"
  shows "words_atom (take 8 (drop (8 * i) (map (\<lambda>i. ob_word as (8 * k + i)) [0..<8 * n]))) = as ! (k + i)"
proof -
  have "take 8 (drop (8 * i) (map (\<lambda>i. ob_word as (8 * k + i)) [0..<8 * n])) = atom_words (as ! (k + i))"
  proof (rule nth_equalityI)
    show "length (take 8 (drop (8 * i) (map (\<lambda>i. ob_word as (8 * k + i)) [0..<8 * n]))) =
        length (atom_words (as ! (k + i)))"
      using assms(2) by simp
    fix l assume "l < length (take 8 (drop (8 * i) (map (\<lambda>i. ob_word as (8 * k + i)) [0..<8 * n])))"
    then have l: "l < 8" by simp
    then have "(8 * k + (8 * i + l)) div 8 = k + i" "(8 * k + (8 * i + l)) mod 8 = l"
      using mod_mult_self4 [of 8 "k + i" l] by (simp_all add: algebra_simps)
    then show "take 8 (drop (8 * i) (map (\<lambda>i. ob_word as (8 * k + i)) [0..<8 * n])) ! l = atom_words (as ! (k + i)) ! l"
      using assms(2) l by (simp add: ob_word_def del: atom_words.simps)
  qed
  then show ?thesis by (simp only: words_atom_words)
qed


section \<open>The invariant of a transfer\<close>

definition dma_running :: "dma \<Rightarrow> bool" where
  "dma_running q \<longleftrightarrow> (\<exists>n. 1 \<le> n \<and> csize q = of_nat n \<and> n \<le> unat (remaining q) \<and> n \<le> 128 \<and>
      n \<le> 4096 - unat (dma_put q) \<and> n \<le> 4095 - dma_len q) \<and>
    dmac_src q = LIBERA_IOBASE + DD_OB_FIFOBASE \<and> dmac_dst q = unat (dma_put q) \<and>
    dmac_bytes q = csize q * dd_atom_bytes"

text \<open>
  Of the atoms \<open>as\<close> the first \<open>k\<close> have been taken from the output buffer: those in \<open>out\<close> have been
  delivered, the rest are in the FIFO.
\<close>

definition dma_inv :: "dd_atom list \<Rightarrow> nat \<Rightarrow> dd_atom list \<Rightarrow> libera \<Rightarrow> bool" where
  "dma_inv as c out s \<longleftrightarrow>
     (let q = dma_of s; k = length as - unat (remaining q) in
        ob_source as c (fpga s) \<and> length as < 2147483648 \<and> unat (remaining q) \<le> length as \<and>
        pops (trace s) = c + 8 * k \<and> dma_ok q \<and> \<not> Overrun q \<and> \<not> aborting q \<and>
        out @ dma_contents q = take k as \<and> unat (written q) = length out \<and>
        (DMAC_transfer q \<longrightarrow> dma_running q))"

lemma dma_of_upd [simp]: "dma_of (upd_dma f s) = f (dma_of s)"
  and upd_dma_bus [simp]: "fpga (upd_dma f s) = fpga s" "trace (upd_dma f s) = trace s"
  and upd_dma_dd [simp]: "dd (upd_dma f s) = dd s" "klog (upd_dma f s) = klog s"
  by (simp_all add: upd_dma_def)

lemma dma_bus [simp]: "lgbl (snd (readl a s)) = lgbl (s :: libera)" "dd (snd (readl a s)) = dd s"
  "klog (snd (readl a s)) = klog s"
  by (simp_all add: readl_def Let_def)

lemma dma_wake [simp]: "lgbl (wake_up_interruptible q s) = lgbl s" "dd (wake_up_interruptible q s) = dd s"
  "klog (wake_up_interruptible q s) = klog s" "fpga (wake_up_interruptible q s) = fpga s"
  "trace (wake_up_interruptible q s) = trace s"
  by (simp_all add: wake_up_interruptible_def)

lemma block_frame [simp]: "lgbl (snd (libera_readlBlock a n s)) = lgbl (s :: libera)"
  "dd (snd (libera_readlBlock a n s)) = dd s" "klog (snd (libera_readlBlock a n s)) = klog s"
proof -
  have "bus.more (snd (libera_readlBlock a n s)) = bus.more s" by (rule readlBlock_more)
  then show "lgbl (snd (libera_readlBlock a n s)) = lgbl s" "dd (snd (libera_readlBlock a n s)) = dd s"
    "klog (snd (libera_readlBlock a n s)) = klog s"
    by (cases s; cases "snd (libera_readlBlock a n s)"; simp)+
qed

lemma upd_dma_cong: "f (dma_of s) = g (dma_of s) \<Longrightarrow> upd_dma f s = upd_dma g s"
  by (simp add: upd_dma_def)

text \<open>The controller's copy puts the next \<open>n\<close> atoms behind those in the FIFO.\<close>

lemma dmac_copy_fills:
  assumes inv: "dma_inv as c out s" and run: "DMAC_transfer (dma_of s)"
  obtains n k where "csize (dma_of s) = of_nat n" "1 \<le> n" "n \<le> unat (remaining (dma_of s))"
    "n \<le> 4096 - unat (dma_put (dma_of s))" "n \<le> 4095 - dma_len (dma_of s)" "n \<le> 128"
    "k = length as - unat (remaining (dma_of s))"
    "dma_of (dmac_copy s) = filled (take n (drop k as)) (dma_of s)" "fpga (dmac_copy s) = fpga s"
    "pops (trace (dmac_copy s)) = c + 8 * (k + n)" "dd (dmac_copy s) = dd s" "klog (dmac_copy s) = klog s"
proof -
  let ?q = "dma_of s" let ?k = "length as - unat (remaining ?q)"
  from inv have src: "ob_source as c (fpga s)" and le: "unat (remaining ?q) \<le> length as"
    and pop: "pops (trace s) = c + 8 * ?k" and r: "dma_running ?q"
    using run by (simp_all add: dma_inv_def Let_def)
  from r obtain n where n: "1 \<le> n" "csize ?q = of_nat n" "n \<le> unat (remaining ?q)" "n \<le> 128"
    "n \<le> 4096 - unat (dma_put ?q)" "n \<le> 4095 - dma_len ?q" and reg: "dmac_src ?q = LIBERA_IOBASE + DD_OB_FIFOBASE"
    "dmac_dst ?q = unat (dma_put ?q)" "dmac_bytes ?q = csize ?q * dd_atom_bytes"
    by (auto simp: dma_running_def)
  have un: "unat (of_nat n :: u32) = n" using n(4) by (simp add: unsigned_of_nat take_bit_nat_eq_self_iff)
  have bytes: "unat (dmac_bytes ?q) div 4 = 8 * n"
    using n(4) un by (simp add: reg(3) n(2) dd_atom_bytes_def unat_word_ariths)
  let ?b = "libera_readlBlock DD_OB_FIFOBASE (8 * n) s"
  have kn: "?k + n \<le> length as" using n(3) le by simp
  have b: "fst ?b = map (\<lambda>i. ob_word as (8 * ?k + i)) [0..<8 * n]"
    "pops (trace (snd ?b)) = c + 8 * ?k + 8 * n" "fpga (snd ?b) = fpga s"
    using ob_block [OF src pop, of "8 * n" 0] kn n(4) by (simp_all add: algebra_simps)
  have xs: "map (\<lambda>i. words_atom (take 8 (drop (8 * i) (fst ?b)))) [0..<n] = take n (drop ?k as)"
    unfolding b(1) using kn atoms_of_words [OF kn] by (intro nth_equalityI) simp_all
  have len: "length (take n (drop ?k as)) = n" using kn by simp
  have copy: "dmac_copy s = upd_dma (\<lambda>_. filled (take n (drop ?k as)) ?q) (snd ?b)"
  proof -
    have n8: "8 * n div 8 = n" by simp
    have sub: "dmac_src ?q - LIBERA_IOBASE = DD_OB_FIFOBASE" by (simp add: reg(1))
    have "dmac_copy s = upd_dma (\<lambda>q. q\<lparr>dma_buf := (\<lambda>i. if dmac_dst q \<le> i \<and> i < dmac_dst q + n
           then take n (drop ?k as) ! (i - dmac_dst q) else dma_buf q i)\<rparr>) (snd ?b)"
      unfolding dmac_copy_def Let_def bytes sub case_prod_unfold xs [symmetric] n8 by (rule refl)
    also have "\<dots> = upd_dma (\<lambda>_. filled (take n (drop ?k as)) ?q) (snd ?b)"
      by (rule upd_dma_cong) (simp only: block_frame reg(2) len filled_def)
    finally show ?thesis .
  qed
  show thesis
    using n kn b(2,3) by (intro that [of n ?k]) (simp_all add: copy algebra_simps)
qed


lemma limit_pos:
  assumes "dma_ok q" "remaining q \<noteq> 0" "DD_OB_SIZE (obFIFOstatus q) \<noteq> 0" "dma_limit q = 0"
  shows "dma_len q = 4095"
proof -
  have "0 < unat (remaining q)" "0 < unat (DD_OB_SIZE (obFIFOstatus q))"
    using assms(2,3) by (simp_all add: unat_gt_0)
  with assms(1,4) dma_len_bound [of q] show ?thesis
    by (simp add: dma_limit_def dma_ok_def min_def split: if_splits)
qed

lemma limit_running:
  assumes "dma_ok q" "unat (remaining q) < 2147483648" "dma_limit q \<noteq> 0"
  shows "dma_running ((libera_dma_get_DMAC_csize q)\<lparr>DMAC_transfer := True, dmac_src := LIBERA_IOBASE + DD_OB_FIFOBASE,
    dmac_dst := unat (dma_put q), dmac_bytes := csize (libera_dma_get_DMAC_csize q) * dd_atom_bytes\<rparr>)"
proof -
  have "1 \<le> dma_limit q" using assms(3) by simp
  then show ?thesis
    using dma_limit_le [of q] unfolding dma_running_def csize_limit(2) [OF assms(1,2)]
    by (intro conjI exI [of _ "dma_limit q"]) (simp_all add: dma_len_def)
qed

definition dma_next :: "dma \<Rightarrow> dma" where
  "dma_next q =
     (let q = libera_dma_get_DMAC_csize q in
      if 0 < sint (csize q)
      then q\<lparr>DMAC_transfer := True, dmac_src := LIBERA_IOBASE + DD_OB_FIFOBASE, dmac_dst := unat (dma_put q),
             dmac_bytes := csize q * dd_atom_bytes\<rparr>
      else q\<lparr>DMAC_transfer := False\<rparr>)"

lemma upd_upd [simp]: "upd_dma f (upd_dma g s) = upd_dma (\<lambda>q. f (g q)) s"
  by (simp add: upd_dma_def)

lemma csize_aborting [simp]: "aborting (libera_dma_get_DMAC_csize q) = aborting q"
  by (simp add: libera_dma_get_DMAC_csize_def Let_def)

lemma dma_next_frame:
  "remaining (dma_next q) = remaining q" "dma_contents (dma_next q) = dma_contents q"
  "dma_len (dma_next q) = dma_len q" "dma_ok (dma_next q) = dma_ok q" "Overrun (dma_next q) = Overrun q"
  "aborting (dma_next q) = aborting q" "written (dma_next q) = written q"
  by (simp_all add: dma_next_def libera_dma_get_DMAC_csize_def Let_def dma_contents_def dma_len_def dma_ok_def)

lemma interrupt_queues:
  fixes s
  defines "st \<equiv> fpga s (trace s) DD_OB_STATUS"
  assumes over: "DD_OB_OVERRUN st = 0"
    and put: "putToDMA_FIFO ((dma_of s)\<lparr>obFIFOstatus := st, remaining := remaining (dma_of s) - csize (dma_of s)\<rparr>)
      (csize (dma_of s)) = (0, q1)"
  shows "libera_dma_interrupt True False s =
    (if \<not> aborting q1 then wake_up_interruptible DMA_queue (upd_dma (\<lambda>_. dma_next q1) (snd (readl DD_OB_STATUS s)))
     else upd_dma (\<lambda>_. dma_next q1) (snd (readl DD_OB_STATUS s)))"
proof -
  define s1 where "s1 = snd (readl DD_OB_STATUS s)"
  have r: "readl DD_OB_STATUS s = (st, s1)" by (simp add: st_def s1_def prod_eq_iff)
  have "lgbl s1 = lgbl s" by (simp add: s1_def)
  then show ?thesis
    by (simp add: libera_dma_interrupt_def r over put Let_def dma_next_def start_dma_def libera_dma_command_def)
qed

text \<open>The interrupt queues the atoms copied and starts the next transfer when there is anything to do.\<close>

lemma dma_completes_next:
  assumes inv: "dma_inv as c out s" and run: "DMAC_transfer (dma_of s)"
  obtains n k q1 where "k = length as - unat (remaining (dma_of s))" "1 \<le> n" "n \<le> unat (remaining (dma_of s))"
    "fpga (dmac_copy s) = fpga s" "pops (trace (dmac_copy s)) = c + 8 * (k + n)" "dd (dmac_copy s) = dd s"
    "klog (dmac_copy s) = klog s" "dma_ok q1" "dma_contents q1 = dma_contents (dma_of s) @ take n (drop k as)"
    "dma_len q1 = dma_len (dma_of s) + n" "unat (remaining q1) = unat (remaining (dma_of s)) - n"
    "Overrun q1 = Overrun (dma_of s)" "aborting q1 = aborting (dma_of s)" "written q1 = written (dma_of s)"
    "remaining q1 \<noteq> 0 \<longrightarrow> DD_OB_SIZE (obFIFOstatus q1) \<noteq> 0"
    "dma_completes s = wake_up_interruptible DMA_queue (upd_dma (\<lambda>_. dma_next q1) (snd (readl DD_OB_STATUS (dmac_copy s))))"
proof -
  obtain n k where n: "csize (dma_of s) = of_nat n" "1 \<le> n" "n \<le> unat (remaining (dma_of s))"
    "n \<le> 4096 - unat (dma_put (dma_of s))" "n \<le> 4095 - dma_len (dma_of s)" "n \<le> 128"
    and k: "k = length as - unat (remaining (dma_of s))"
    and copy: "dma_of (dmac_copy s) = filled (take n (drop k as)) (dma_of s)" "fpga (dmac_copy s) = fpga s"
    "pops (trace (dmac_copy s)) = c + 8 * (k + n)" "dd (dmac_copy s) = dd s" "klog (dmac_copy s) = klog s"
    using dmac_copy_fills [OF inv run] by metis
  let ?q = "dma_of s" let ?xs = "take n (drop k as)" let ?st = "fpga (dmac_copy s) (trace (dmac_copy s)) DD_OB_STATUS"
  from inv have src: "ob_source as c (fpga s)"
    and le: "unat (remaining ?q) \<le> length as" and ok: "dma_ok ?q" and fl: "\<not> aborting ?q"
    by (simp_all add: dma_inv_def Let_def)
  have lx: "length ?xs = n" using n(3) le k by simp
  let ?p = "(dma_put ?q + of_nat n) AND mask 12"
  define q1 where "q1 = (filled ?xs ?q)\<lparr>dma_put := ?p, obFIFOstatus := ?st, remaining := remaining ?q - of_nat n\<rparr>"
  have put: "putToDMA_FIFO (filled ?xs ?q) (of_nat n) = (0, (filled ?xs ?q)\<lparr>dma_put := ?p\<rparr>)"
    "dma_ok ((filled ?xs ?q)\<lparr>dma_put := ?p\<rparr>)"
    "dma_contents ((filled ?xs ?q)\<lparr>dma_put := ?p\<rparr>) = dma_contents ?q @ ?xs"
    using put_filled [OF ok, of ?xs] n lx by auto
  have put': "putToDMA_FIFO ((filled ?xs ?q)\<lparr>obFIFOstatus := ?st, remaining := remaining ?q - of_nat n\<rparr>) (of_nat n) =
      (0, q1)"
    using put(1) by (auto simp: putToDMA_FIFO_def Let_def q1_def filled_def dma_mask split: if_splits)
  have ok1: "dma_ok q1" using put(2) by (simp add: q1_def dma_ok_def)
  have con: "dma_contents q1 = dma_contents ?q @ ?xs"
    using put(3) by (simp add: q1_def dma_contents_def dma_len_def)
  have len: "dma_len q1 = dma_len ?q + n" using arg_cong [OF con, of length] lx by simp
  have un: "unat (of_nat n :: u32) = n" using n(6) by (simp add: unsigned_of_nat take_bit_nat_eq_self_iff)
  then have "of_nat n \<le> remaining ?q" using n(3) by (simp add: word_le_nat_alt)
  then have rem1: "unat (remaining q1) = unat (remaining ?q) - n" by (simp add: q1_def unat_sub_le un)
  have "pops (trace (dmac_copy s)) - c = 8 * (k + n)" using copy(3) by simp
  note src' = src [unfolded ob_source_def Let_def, rule_format, of "trace (dmac_copy s)", unfolded this]
  have st: "DD_OB_OVERRUN ?st = 0" using src' copy(2) by simp
  have size: "remaining q1 \<noteq> 0 \<longrightarrow> DD_OB_SIZE (obFIFOstatus q1) \<noteq> 0"
  proof
    assume "remaining q1 \<noteq> 0"
    then have "0 < unat (remaining q1)" by (simp add: unat_gt_0)
    then have "k + n < length as" using rem1 k le by simp
    then show "DD_OB_SIZE (obFIFOstatus q1) \<noteq> 0" using src' copy(2) by (simp add: q1_def)
  qed
  have "putToDMA_FIFO ((dma_of (dmac_copy s))\<lparr>obFIFOstatus := ?st,
      remaining := remaining (dma_of (dmac_copy s)) - csize (dma_of (dmac_copy s))\<rparr>) (csize (dma_of (dmac_copy s))) = (0, q1)"
    using put' by (simp add: copy(1) n(1))
  moreover have "\<not> aborting q1" using fl by (simp add: q1_def)
  ultimately have "dma_completes s = wake_up_interruptible DMA_queue (upd_dma (\<lambda>_. dma_next q1) (snd (readl DD_OB_STATUS (dmac_copy s))))"
    using run interrupt_queues [of "dmac_copy s" q1] st by (simp add: dma_completes_def)
  then show thesis
    by (intro that [OF k n(2,3) copy(2-5) ok1 con len rem1 _ _ _ size]) (simp_all add: q1_def)
qed

lemma dma_next_cases:
  assumes "dma_ok q" "unat (remaining q) < 2147483648"
  shows "DMAC_transfer (dma_next q) \<longleftrightarrow> dma_limit q \<noteq> 0"
    and "DMAC_transfer (dma_next q) \<Longrightarrow> dma_running (dma_next q)"
proof -
  let ?q2 = "libera_dma_get_DMAC_csize q"
  have "unat (csize ?q2) = dma_limit q" using csize_limit(1) [OF assms] .
  then have "0 < sint (csize ?q2) \<longleftrightarrow> dma_limit q \<noteq> 0"
    using dma_limit_le(2) [of q] sint_small [of "csize ?q2"] by auto
  then have nxt: "dma_next q = (if dma_limit q \<noteq> 0
      then ?q2\<lparr>DMAC_transfer := True, dmac_src := LIBERA_IOBASE + DD_OB_FIFOBASE, dmac_dst := unat (dma_put q),
        dmac_bytes := csize ?q2 * dd_atom_bytes\<rparr>
      else ?q2\<lparr>DMAC_transfer := False\<rparr>)"
    by (simp add: dma_next_def Let_def csize_limit(2) [OF assms])
  show t: "DMAC_transfer (dma_next q) \<longleftrightarrow> dma_limit q \<noteq> 0" by (simp add: nxt)
  show "DMAC_transfer (dma_next q) \<Longrightarrow> dma_running (dma_next q)"
    using limit_running [OF assms] t by (simp add: nxt)
qed

lemma dma_completes_inv:
  assumes inv: "dma_inv as c out s" and run: "DMAC_transfer (dma_of s)"
  shows "dma_inv as c out (dma_completes s)"
    and "unat (remaining (dma_of (dma_completes s))) < unat (remaining (dma_of s))"
    and "dma_len (dma_of s) < dma_len (dma_of (dma_completes s))"
    and "\<not> DMAC_transfer (dma_of (dma_completes s)) \<longrightarrow>
      remaining (dma_of (dma_completes s)) = 0 \<or> dma_len (dma_of (dma_completes s)) = 4095"
    and "dd (dma_completes s) = dd s" "klog (dma_completes s) = klog s"
proof -
  obtain n k q1 where k: "k = length as - unat (remaining (dma_of s))" "1 \<le> n" "n \<le> unat (remaining (dma_of s))"
    and copy: "fpga (dmac_copy s) = fpga s" "pops (trace (dmac_copy s)) = c + 8 * (k + n)" "dd (dmac_copy s) = dd s"
      "klog (dmac_copy s) = klog s"
    and q1: "dma_ok q1" "dma_contents q1 = dma_contents (dma_of s) @ take n (drop k as)"
      "dma_len q1 = dma_len (dma_of s) + n" "unat (remaining q1) = unat (remaining (dma_of s)) - n"
      "Overrun q1 = Overrun (dma_of s)" "aborting q1 = aborting (dma_of s)" "written q1 = written (dma_of s)"
      "remaining q1 \<noteq> 0 \<longrightarrow> DD_OB_SIZE (obFIFOstatus q1) \<noteq> 0"
    and fin: "dma_completes s = wake_up_interruptible DMA_queue (upd_dma (\<lambda>_. dma_next q1) (snd (readl DD_OB_STATUS (dmac_copy s))))"
    by (rule dma_completes_next [OF inv run])
  from inv have src: "ob_source as c (fpga s)" and len: "length as < 2147483648"
    and le: "unat (remaining (dma_of s)) \<le> length as" and fl: "\<not> Overrun (dma_of s)" "\<not> aborting (dma_of s)"
    and con: "out @ dma_contents (dma_of s) = take k as" "unat (written (dma_of s)) = length out"
    by (simp_all add: dma_inv_def Let_def k(1))
  have small: "unat (remaining q1) < 2147483648" using q1(4) le len by simp
  have q: "dma_of (dma_completes s) = dma_next q1" by (simp add: fin)
  have same: "remaining (dma_next q1) = remaining q1" "dma_contents (dma_next q1) = dma_contents q1"
    "dma_len (dma_next q1) = dma_len q1" "dma_ok (dma_next q1)" "Overrun (dma_next q1) = Overrun (dma_of s)"
    "aborting (dma_next q1) = aborting (dma_of s)" "written (dma_next q1) = written (dma_of s)"
    unfolding dma_next_frame using q1 by simp_all
  show "unat (remaining (dma_of (dma_completes s))) < unat (remaining (dma_of s))" using k q1(4) by (simp add: q same)
  show "dma_len (dma_of s) < dma_len (dma_of (dma_completes s))" using k(2) by (simp add: q same q1(3))
  show "dd (dma_completes s) = dd s" "klog (dma_completes s) = klog s" using copy(3,4) by (simp_all add: fin)
  show "\<not> DMAC_transfer (dma_of (dma_completes s)) \<longrightarrow>
      remaining (dma_of (dma_completes s)) = 0 \<or> dma_len (dma_of (dma_completes s)) = 4095"
    using limit_pos [OF q1(1)] q1(8) unfolding q same dma_next_cases(1) [OF q1(1) small] by auto
  have kk: "length as - unat (remaining q1) = k + n" using q1(4) k le by simp
  have "take k as @ take n (drop k as) = take (k + n) as" by (simp add: take_add)
  then have "out @ dma_contents q1 = take (k + n) as" using con(1) by (simp add: q1(2) flip: append_assoc)
  then show "dma_inv as c out (dma_completes s)"
    unfolding dma_inv_def Let_def q same(1-3,5-7) kk
    using src len le q1(4) fl con(2) copy(1,2) same(4) dma_next_cases(2) [OF q1(1) small]
    by (simp add: fin le_diff_conv trans_le_add1)
qed

section \<open>Emptying the FIFO\<close>

lemma dma_get_step:
  assumes ok: "dma_ok q" and ne: "dma_len q = Suc n"
  defines "q' \<equiv> q\<lparr>dma_get := (dma_get q + 1) AND LIBERA_DMA_FIFO_MASK\<rparr>"
  shows "dma_contents q = dma_buf q (unat (dma_get q)) # dma_contents q'" "dma_ok q'" "dma_len q' = n"
proof -
  let ?p = "unat (dma_put q)" let ?g = "unat (dma_get q)"
  have b: "?p < 4096" "?g < 4096" using ok by (simp_all add: dma_ok_def)
  have ug: "unat ((dma_get q + 1) AND mask 12) = Suc ?g mod 4096"
    using unat_inc_mask [of 12 "dma_get q"] by simp
  show "dma_ok q'" using b by (simp add: q'_def dma_ok_def dma_mask ug)
  have L: "dma_len q = (if ?g \<le> ?p then ?p - ?g else ?p + 4096 - ?g)"
    using ring_dist [of ?p 4096 ?g] b by (simp add: dma_len_def)
  have g': "Suc ?g mod 4096 = (if ?g = 4095 then 0 else Suc ?g)" using b next_index_cases [of ?g 4096] by simp
  have L': "dma_len q' = (if Suc ?g mod 4096 \<le> ?p then ?p - Suc ?g mod 4096 else ?p + 4096 - Suc ?g mod 4096)"
    using ring_dist [of ?p 4096 "Suc ?g mod 4096"] b by (simp add: q'_def dma_len_def dma_mask ug)
  show len: "dma_len q' = n"
    using ne b unfolding L L' g' by (cases "?g = 4095"; cases "?g \<le> ?p") (simp_all, linarith+)
  have idx: "(Suc ?g mod 4096 + i) mod 4096 = (?g + Suc i) mod 4096" for i
    using mod_add_left_eq [of "Suc ?g" 4096 i] by simp
  have e: "unat (dma_get q') = Suc ?g mod 4096" "dma_buf q' = dma_buf q" by (simp_all add: q'_def dma_mask ug)
  show "dma_contents q = dma_buf q ?g # dma_contents q'"
    using b unfolding dma_contents_def ne len upt_Suc_map e idx by simp
qed

lemma copy_fifo_takes:
  assumes "dma_ok q" "n \<le> dma_len q" "unat OB + n \<le> unat cnt" "\<not> Overrun q"
    and "\<forall>k < length out + n. \<not> target_fails tgt k"
  shows "\<exists>g. copy_fifo n tgt cnt OB out q = (True, OB + of_nat n, out @ take n (dma_contents q),
      q\<lparr>written := written q + of_nat n, dma_get := g\<rparr>) \<and>
    dma_ok (q\<lparr>written := written q + of_nat n, dma_get := g\<rparr>) \<and>
    dma_contents (q\<lparr>written := written q + of_nat n, dma_get := g\<rparr>) = drop n (dma_contents q)"
  using assms
proof (induction n arbitrary: OB out q)
  case 0
  then show ?case by (intro exI [of _ "dma_get q"]) simp
next
  case (Suc n)
  let ?g = "(dma_get q + 1) AND LIBERA_DMA_FIFO_MASK"
  obtain m where m: "dma_len q = Suc m" using Suc.prems(2) by (cases "dma_len q") auto
  define q1 where "q1 = q\<lparr>written := written q + 1, dma_get := ?g\<rparr>"
  note st = dma_get_step [OF Suc.prems(1) m]
  have q1: "dma_contents q = dma_buf q (unat (dma_get q)) # dma_contents q1" "dma_ok q1" "dma_len q1 = m"
    "\<not> Overrun q1"
    using st Suc.prems(4) by (simp_all add: q1_def dma_contents_def dma_len_def dma_ok_def)
  have OB: "OB < cnt" "unat (OB + 1) = Suc (unat OB)"
  proof -
    show "OB < cnt" using Suc.prems(3) by (simp add: word_less_nat_alt)
    have "unat OB + 1 < 4294967296" using Suc.prems(3) unat_lt_2p32 [of cnt] by linarith
    then show "unat (OB + 1) = Suc (unat OB)" by (simp add: unat_add_u32)
  qed
  let ?d = "dma_buf q (unat (dma_get q))"
  have step: "copy_fifo (Suc n) tgt cnt OB out q = copy_fifo n tgt cnt (OB + 1) (out @ [?d]) q1"
    using OB(1) Suc.prems(4,5) by (simp add: q1_def Let_def)
  obtain g where g: "copy_fifo n tgt cnt (OB + 1) (out @ [?d]) q1 =
      (True, OB + 1 + of_nat n, (out @ [?d]) @ take n (dma_contents q1),
       q1\<lparr>written := written q1 + of_nat n, dma_get := g\<rparr>)"
    "dma_ok (q1\<lparr>written := written q1 + of_nat n, dma_get := g\<rparr>)"
    "dma_contents (q1\<lparr>written := written q1 + of_nat n, dma_get := g\<rparr>) = drop n (dma_contents q1)"
    using Suc.IH [OF q1(2), of "OB + 1" "out @ [?d]"] Suc.prems(2,3,5) m q1(3,4) OB(2) by auto
  have e: "q1\<lparr>written := written q1 + of_nat n, dma_get := g\<rparr> =
      q\<lparr>written := written q + of_nat (Suc n), dma_get := g\<rparr>"
    by (simp add: q1_def)
  show ?case
    using g(2,3) unfolding e step g(1) q1(1) by (intro exI [of _ g]) simp
qed

section \<open>The loop\<close>

text \<open>
  While the process sleeps the DMA controller completes at least one transfer, if any is running,
  and nothing else happens to this device; no signal arrives.
\<close>

definition dma_env :: "ctx \<Rightarrow> bool" where
  "dma_env c \<longleftrightarrow> (\<forall>s. (\<exists>n\<ge>1. wake c s = (dma_completes ^^ n) s) \<and> \<not> sigpend c s)"

text \<open>Something to wait for or to read.\<close>

definition dma_busy :: "libera \<Rightarrow> bool" where
  "dma_busy s \<longleftrightarrow> DMAC_transfer (dma_of s) \<or> 0 < dma_len (dma_of s)"

lemma completions:
  assumes "dma_inv as c0 out s"
  shows "dma_inv as c0 out ((dma_completes ^^ n) s) \<and> dd ((dma_completes ^^ n) s) = dd s \<and>
    klog ((dma_completes ^^ n) s) = klog s \<and>
    (DMAC_transfer (dma_of s) \<and> 1 \<le> n \<longrightarrow> 0 < dma_len (dma_of ((dma_completes ^^ n) s))) \<and>
    dma_len (dma_of s) \<le> dma_len (dma_of ((dma_completes ^^ n) s))"
proof (induction n)
  case 0
  then show ?case using assms by simp
next
  case (Suc n)
  let ?t = "(dma_completes ^^ n) s"
  show ?case
  proof (cases "DMAC_transfer (dma_of ?t)")
    case True
    with dma_completes_inv [of as c0 out ?t] Suc show ?thesis by auto
  next
    case False
    then have "dma_completes ?t = ?t" by (simp add: dma_completes_def)
    moreover have "n = 0 \<longrightarrow> \<not> DMAC_transfer (dma_of s)" using False by auto
    ultimately show ?thesis using Suc by (cases n) auto
  qed
qed

lemma sleep_inv:
  assumes env: "dma_env c" and inv: "dma_inv as c0 out s"
  shows "dma_inv as c0 out (schedule c s)" "dd (schedule c s) = dd s" "klog (schedule c s) = klog s"
    "DMAC_transfer (dma_of s) \<Longrightarrow> 0 < dma_len (dma_of (schedule c s))"
proof -
  obtain n where n: "1 \<le> n" "wake c s = (dma_completes ^^ n) s" using env by (auto simp: dma_env_def)
  note r = completions [OF inv, of n]
  show "dma_inv as c0 out (schedule c s)" using r by (simp add: schedule_def n(2) dma_inv_def)
  show "dd (schedule c s) = dd s" "klog (schedule c s) = klog s" using r by (simp_all add: schedule_def n(2))
  show "0 < dma_len (dma_of (schedule c s))" if "DMAC_transfer (dma_of s)"
    using r n(1) that by (simp add: schedule_def n(2))
qed

lemma dma_inv_parts:
  assumes "dma_inv as c0 out s"
  shows "ob_source as c0 (fpga s)" "length as < 2147483648" "unat (remaining (dma_of s)) \<le> length as"
    "pops (trace s) = c0 + 8 * (length as - unat (remaining (dma_of s)))" "dma_ok (dma_of s)"
    "\<not> Overrun (dma_of s)" "\<not> aborting (dma_of s)"
    "out @ dma_contents (dma_of s) = take (length as - unat (remaining (dma_of s))) as"
    "unat (written (dma_of s)) = length out" "DMAC_transfer (dma_of s) \<Longrightarrow> dma_running (dma_of s)"
  using assms by (simp_all add: dma_inv_def Let_def)

text \<open>What the status register says.\<close>

lemma dma_status:
  assumes "dma_inv as c0 out s"
  shows "DD_OB_OVERRUN (fpga s (trace s) DD_OB_STATUS) = 0"
    and "remaining (dma_of s) \<noteq> 0 \<Longrightarrow> DD_OB_SIZE (fpga s (trace s) DD_OB_STATUS) \<noteq> 0"
    and "remaining (dma_of s) = 0 \<Longrightarrow> DD_OB_SIZE (fpga s (trace s) DD_OB_STATUS) = 0"
proof -
  note p = dma_inv_parts [OF assms]
  let ?k = "length as - unat (remaining (dma_of s))"
  have d: "pops (trace s) - c0 = 8 * ?k" using p(4) by simp
  note src = p(1) [unfolded ob_source_def Let_def, rule_format, of "trace s", unfolded d]
  show "DD_OB_OVERRUN (fpga s (trace s) DD_OB_STATUS) = 0" using src by simp
  show "DD_OB_SIZE (fpga s (trace s) DD_OB_STATUS) \<noteq> 0" if "remaining (dma_of s) \<noteq> 0"
  proof -
    have "0 < unat (remaining (dma_of s))" using that by (simp add: unat_gt_0)
    then have "?k < length as" using p(3) by simp
    then show ?thesis using src by simp
  qed
  show "DD_OB_SIZE (fpga s (trace s) DD_OB_STATUS) = 0" if "remaining (dma_of s) = 0"
    using src that by (simp add: unat_eq_0)
qed

lemma sync_at_once: "\<not> dma_no_data s \<Longrightarrow> libera_OB_fifo_sync c s = (0, s)"
  by (simp add: libera_OB_fifo_sync_def OB_sync_loop.simps)

text \<open>Fields of the structure that the invariant does not mention.\<close>

lemma dma_inv_status:
  "dma_inv as c0 out (upd_dma (\<lambda>q. q\<lparr>obFIFOstatus := st\<rparr>) (snd (readl DD_OB_STATUS s))) = dma_inv as c0 out s"
  by (simp add: dma_inv_def Let_def dma_ok_def dma_contents_def dma_len_def dma_running_def)

lemma dma_started:
  assumes inv: "dma_inv as c0 out s" and idle: "\<not> DMAC_transfer (dma_of s)" and lim: "dma_limit (dma_of s) \<noteq> 0"
  shows "dma_inv as c0 out (start_dma (upd_dma libera_dma_get_DMAC_csize s))"
    and "DMAC_transfer (dma_of (start_dma (upd_dma libera_dma_get_DMAC_csize s)))"
    and "dd (start_dma (upd_dma libera_dma_get_DMAC_csize s)) = dd s"
    and "klog (start_dma (upd_dma libera_dma_get_DMAC_csize s)) = klog s"
proof -
  let ?q = "dma_of s" let ?t = "start_dma (upd_dma libera_dma_get_DMAC_csize s)"
  note p = dma_inv_parts [OF inv]
  have small: "unat (remaining ?q) < 2147483648" using p(2,3) by simp
  have t: "dma_of ?t = (libera_dma_get_DMAC_csize ?q)\<lparr>DMAC_transfer := True, dmac_src := LIBERA_IOBASE + DD_OB_FIFOBASE,
      dmac_dst := unat (dma_put ?q), dmac_bytes := csize (libera_dma_get_DMAC_csize ?q) * dd_atom_bytes\<rparr>"
    "fpga ?t = fpga s" "trace ?t = trace s"
    by (simp_all add: start_dma_def libera_dma_command_def csize_limit(2) [OF p(5) small])
  show "DMAC_transfer (dma_of ?t)" by (simp add: t)
  show "dd ?t = dd s" "klog ?t = klog s" by (simp_all add: start_dma_def libera_dma_command_def)
  have same: "remaining (dma_of ?t) = remaining ?q" "dma_contents (dma_of ?t) = dma_contents ?q"
    "dma_ok (dma_of ?t) = dma_ok ?q" "Overrun (dma_of ?t) = Overrun ?q" "aborting (dma_of ?t) = aborting ?q"
    "written (dma_of ?t) = written ?q"
    unfolding t csize_limit(2) [OF p(5) small] by (simp_all add: dma_contents_def dma_len_def dma_ok_def)
  have "dma_running (dma_of ?t)" unfolding t by (rule limit_running [OF p(5) small lim])
  then show "dma_inv as c0 out ?t"
    unfolding dma_inv_def Let_def same using p by (simp add: t(2,3))
qed

lemma restart_ok:
  assumes inv: "dma_inv as c0 out s"
  shows "\<exists>s'. restart_dma c s = (Continue, s') \<and> dma_inv as c0 out s' \<and> dd s' = dd s \<and> klog s' = klog s \<and>
    (dma_busy s' \<or> remaining (dma_of s') = 0)"
proof (cases "dma_needs_start s")
  case False
  then show ?thesis using inv by (auto simp: restart_dma_def dma_needs_start_def dma_busy_def)
next
  case True
  let ?st = "fpga s (trace s) DD_OB_STATUS"
  let ?t = "upd_dma (\<lambda>q. q\<lparr>obFIFOstatus := ?st\<rparr>) (snd (readl DD_OB_STATUS s))"
  have nd: "\<not> DMAC_transfer (dma_of s)" "remaining (dma_of s) \<noteq> 0" using True by (simp_all add: dma_needs_start_def)
  note st = dma_status(1) [OF inv] dma_status(2) [OF inv nd(2)]
  have t: "dma_inv as c0 out ?t" using inv by (simp add: dma_inv_status)
  have nodata: "\<not> dma_no_data ?t" using st(2) by (simp add: dma_no_data_def)
  have r: "restart_dma c s =
      (let u = upd_dma libera_dma_get_DMAC_csize ?t in
       if \<not> 0 < sint (csize (dma_of u)) \<and> LIBERA_DMA_FIFO_ATOMS - 1 - lenDMA_FIFO (dma_of u) = 0
       then (Continue, u) else if \<not> Overrun (dma_of u) then (Continue, start_dma u) else (Break, u))"
    using True st(1) sync_at_once [OF nodata, of c] by (simp add: restart_dma_def Let_def case_prod_unfold)
  note p = dma_inv_parts [OF t]
  have small: "unat (remaining (dma_of ?t)) < 2147483648" using p(2,3) by linarith
  let ?q = "dma_of ?t" let ?u = "upd_dma libera_dma_get_DMAC_csize ?t"
  have u: "dma_of ?u = ?q\<lparr>csize := of_nat (dma_limit ?q)\<rparr>" using csize_limit(2) [OF p(5) small] by simp
  have pos: "0 < sint (csize (dma_of ?u)) \<longleftrightarrow> dma_limit ?q \<noteq> 0"
    using csize_limit(1) [OF p(5) small] dma_limit_le(2) [of ?q] sint_small [of "csize (dma_of ?u)"] by simp
  show ?thesis
  proof (cases "dma_limit ?q = 0")
    case False
    have "\<not> Overrun (dma_of ?u)" using p(6) unfolding u by simp
    then have "restart_dma c s = (Continue, start_dma ?u)" using False pos unfolding r by (simp add: Let_def)
    moreover have "\<not> DMAC_transfer ?q" using nd(1) by simp
    note s = dma_started [OF t this False]
    ultimately show ?thesis using s by (intro exI [of _ "start_dma ?u"]) (simp add: dma_busy_def)
  next
    case True
    have len: "dma_len ?q = 4095"
      using limit_pos [OF p(5) _ _ True] nd(2) st(2) by simp
    then have full: "LIBERA_DMA_FIFO_ATOMS - 1 - lenDMA_FIFO (dma_of ?u) = 0"
    proof -
      have "unat (lenDMA_FIFO ?q) = 4095" using unat_lenDMA [OF p(5)] len by simp
      then have "lenDMA_FIFO ?q = 4095" by (intro word_eq_if_unat_eq) simp
      then show ?thesis unfolding u by (simp add: lenDMA_FIFO_def LIBERA_DMA_FIFO_ATOMS_def)
    qed
    have "restart_dma c s = (Continue, ?u)" using True pos full unfolding r by (simp add: Let_def)
    moreover have "dma_inv as c0 out ?u"
      using t nd(1) unfolding dma_inv_def Let_def u
      by (simp add: dma_contents_def dma_len_def dma_ok_def)
    moreover have "dma_len (dma_of ?u) = 4095" using len unfolding u by (simp add: dma_len_def)
    ultimately show ?thesis by (intro exI [of _ ?u]) (simp add: dma_busy_def)
  qed
qed

lemma wait_ready:
  assumes env: "dma_env c" and inv: "dma_inv as c0 out s" and busy: "dma_busy s" and pm: "\<not> pm_entry (dd s)"
  shows "\<exists>s'. (if emptyDMA_FIFO (dma_of s) then wait_dma c s else Some (0, s)) = Some (0, s') \<and>
    dma_inv as c0 out s' \<and> dd s' = dd s \<and> klog s' = klog s \<and> 0 < dma_len (dma_of s')"
proof (cases "dma_len (dma_of s) = 0")
  case False
  then show ?thesis using inv dma_empty_len [OF dma_inv_parts(5) [OF inv]] by auto
next
  case True
  then have run: "DMAC_transfer (dma_of s)" using busy by (simp add: dma_busy_def)
  note sl = sleep_inv [OF env inv]
  have e: "emptyDMA_FIFO (dma_of s)" using True dma_empty_len [OF dma_inv_parts(5) [OF inv]] by simp
  have ne: "not_emptyDMA_FIFO (dma_of (schedule c s))"
    using sl(4) [OF run] dma_empty_len [OF dma_inv_parts(5) [OF sl(1)]]
    by (simp add: not_emptyDMA_FIFO_def emptyDMA_FIFO_def)
  have "wait_dma c s = wait_dma c (schedule c s)"
    using e env pm by (subst wait_dma.simps) (simp add: emptyDMA_FIFO_def not_emptyDMA_FIFO_def dma_env_def)
  also have "\<dots> = Some (0, schedule c s)" using ne by (subst wait_dma.simps) simp
  finally show ?thesis using e sl run by auto
qed

lemma body_delivers:
  assumes env: "dma_env c" and inv: "dma_inv as c0 out s" and busy: "dma_busy s" and pm: "\<not> pm_entry (dd s)"
    and tgt: "\<forall>k < length as. \<not> target_fails tgt k"
  shows "\<exists>ly' out' s'. transfer_body c tgt (of_nat (length as)) ly (of_nat (length out)) out s =
      Some (Continue, ly', of_nat (length out'), out', s') \<and>
    dma_inv as c0 out' s' \<and> length out < length out' \<and> dd s' = dd s \<and> klog s' = klog s \<and>
    (dma_busy s' \<or> remaining (dma_of s') = 0)"
proof -
  obtain t where t: "(if emptyDMA_FIFO (dma_of s) then wait_dma c s else Some (0, s)) = Some (0, t)"
    "dma_inv as c0 out t" "dd t = dd s" "klog t = klog s" "0 < dma_len (dma_of t)"
    using wait_ready [OF env inv busy pm] by blast
  note p = dma_inv_parts [OF t(2)]
  let ?q = "dma_of t" let ?n = "dma_len (dma_of t)" let ?OB = "of_nat (length out) :: u32"
  let ?out = "out @ dma_contents ?q"
  have le: "length out + ?n \<le> length as" using arg_cong [OF p(8), of length] by simp
  have uc: "unat (of_nat (length as) :: u32) = length as" "unat ?OB = length out"
    using p(2) le by (simp_all add: unsigned_of_nat take_bit_nat_eq_self_iff)
  have un: "unat (lenDMA_FIFO ?q) = ?n" using unat_lenDMA [OF p(5)] .
  then have ne: "lenDMA_FIFO ?q \<noteq> 0" using t(5) by auto
  obtain g where g: "copy_fifo ?n tgt (of_nat (length as)) ?OB out ?q =
      (True, ?OB + of_nat ?n, out @ take ?n (dma_contents ?q), ?q\<lparr>written := written ?q + of_nat ?n, dma_get := g\<rparr>)"
    "dma_ok (?q\<lparr>written := written ?q + of_nat ?n, dma_get := g\<rparr>)"
    "dma_contents (?q\<lparr>written := written ?q + of_nat ?n, dma_get := g\<rparr>) = []"
    using copy_fifo_takes [OF p(5) order_refl, of ?OB "of_nat (length as)" out tgt] le uc p(6) tgt by auto
  let ?q1 = "?q\<lparr>written := written ?q + of_nat ?n, dma_get := g\<rparr>"
  define t1 where "t1 = upd_dma (\<lambda>_. ?q1) t"
  have OB: "?OB + of_nat ?n = of_nat (length ?out)" by simp
  have copied: "copy_fifo ?n tgt (of_nat (length as)) ?OB out ?q = (True, of_nat (length ?out), ?out, ?q1)"
    unfolding g(1) OB by simp
  have len1: "dma_len ?q1 = 0" using arg_cong [OF g(3), of length] by simp
  have "unat (written ?q + of_nat ?n) = length ?out"
  proof -
    have "unat (of_nat ?n :: u32) = ?n" using dma_len_bound [of ?q] by (simp add: unsigned_of_nat take_bit_nat_eq_self_iff)
    then show ?thesis using p(2,9) le by (simp add: unat_add_u32)
  qed
  moreover have "dma_running ?q \<longrightarrow> dma_running ?q1"
    using len1 by (auto simp: dma_running_def)
  ultimately have inv1: "dma_inv as c0 ?out t1"
    using p g(2,3) unfolding dma_inv_def Let_def t1_def by simp
  define yields where "yields \<longleftrightarrow> ly + LIBERA_YIELD_INTERVAL < jiffies c t1"
  define ly' where "ly' = (if yields then jiffies c t1 else ly)"
  define t2 where "t2 = (if yields then schedule c t1 else t1)"
  have inv2: "dma_inv as c0 ?out t2" "dd t2 = dd s" "klog t2 = klog s"
    using inv1 sleep_inv [OF env inv1] t(3,4) by (auto simp: t2_def t1_def)
  obtain s' where s': "restart_dma c t2 = (Continue, s')" "dma_inv as c0 ?out s'" "dd s' = dd t2" "klog s' = klog t2"
    "dma_busy s' \<or> remaining (dma_of s') = 0"
    using restart_ok [OF inv2(1)] by blast
  have "\<not> (yields \<and> (sigpend c t2 \<or> pm_entry (dd t2)))" using env inv2(2) pm by (simp add: dma_env_def)
  then have "transfer_body c tgt (of_nat (length as)) ly ?OB out s =
      Some (Continue, ly', of_nat (length ?out), ?out, s')"
    unfolding transfer_body_def t(1) using ne copied s'(1)
    by (cases yields)
      (simp_all add: un Let_def t1_def [symmetric] yields_def [symmetric] ly'_def t2_def)
  moreover have "length out < length ?out" using t(5) by simp
  ultimately show ?thesis using s'(2-5) inv2(2,3) by (intro exI [of _ ly'] exI [of _ ?out] exI [of _ s']) simp
qed

lemma loop_delivers:
  assumes env: "dma_env c" and "dma_inv as c0 out s" "dma_busy s" "\<not> pm_entry (dd s)"
    and tgt: "\<forall>k < length as. \<not> target_fails tgt k"
  shows "\<exists>s'. transfer_loop c tgt (of_nat (length as)) ly (of_nat (length out)) out s =
      Some (int (length as), as, s') \<and> klog s' = klog s \<and> dd s' = dd s \<and> \<not> Overrun (dma_of s') \<and>
      pops (trace s') = c0 + 8 * length as"
  using assms(2-4)
proof (induction "length as - length out" arbitrary: out s ly rule: less_induct)
  case less
  obtain ly' out' s' where b: "transfer_body c tgt (of_nat (length as)) ly (of_nat (length out)) out s =
      Some (Continue, ly', of_nat (length out'), out', s')"
    "dma_inv as c0 out' s'" "length out < length out'" "dd s' = dd s" "klog s' = klog s"
    "dma_busy s' \<or> remaining (dma_of s') = 0"
    using body_delivers [OF env less.prems tgt] by blast
  note p = dma_inv_parts [OF b(2)]
  have len: "length out' + dma_len (dma_of s') = length as - unat (remaining (dma_of s'))"
    using arg_cong [OF p(8), of length] by simp
  show ?case
  proof (cases "remaining (dma_of s') \<noteq> 0 \<or> not_emptyDMA_FIFO (dma_of s')")
    case True
    have "dma_busy s'"
      using b(6) True dma_empty_len [OF p(5)] by (auto simp: dma_busy_def emptyDMA_FIFO_def not_emptyDMA_FIFO_def)
    moreover have "length as - length out' < length as - length out" using b(3) len by simp
    ultimately obtain s'' where "transfer_loop c tgt (of_nat (length as)) ly' (of_nat (length out')) out' s' =
        Some (int (length as), as, s'')" "klog s'' = klog s'" "dd s'' = dd s'" "\<not> Overrun (dma_of s'')"
      "pops (trace s'') = c0 + 8 * length as"
      using less.hyps [of out' s' ly'] b(2,4) less.prems(3) by auto
    moreover have "transfer_loop c tgt (of_nat (length as)) ly (of_nat (length out)) out s =
        transfer_loop c tgt (of_nat (length as)) ly' (of_nat (length out')) out' s'"
      using True b(1) by (subst transfer_loop.simps) simp
    ultimately show ?thesis using b(4,5) by auto
  next
    case False
    then have rem: "remaining (dma_of s') = 0" and emp: "dma_len (dma_of s') = 0"
      using dma_empty_len [OF p(5)] by (auto simp: emptyDMA_FIFO_def not_emptyDMA_FIFO_def)
    have all: "length out' = length as" using len rem emp by simp
    have out': "out' = as" using p(8) rem emp by (simp add: dma_contents_def)
    let ?u = "upd_dma (\<lambda>q. q\<lparr>obFIFOstatus := fpga s' (trace s') DD_OB_STATUS\<rparr>) (snd (readl DD_OB_STATUS s'))"
    have "sint (written (dma_of s')) = int (length as)"
      using p(2,9) all sint_small [of "written (dma_of s')"] by simp
    then have "finish_transfer (of_nat (length as)) (of_nat (length out')) s' = (int (length as), ?u)"
      using dma_status(3) [OF b(2) rem] all by (simp add: finish_transfer_def Let_def case_prod_unfold)
    then have "transfer_loop c tgt (of_nat (length as)) ly (of_nat (length out)) out s =
        Some (int (length as), as, ?u)"
      using False b(1) out' by (subst transfer_loop.simps) simp
    then show ?thesis
      using b(4,5) p(4,6) rem by (intro exI [of _ ?u]) simp
  qed
qed


section \<open>A whole transfer\<close>

lemma transfer_all:
  assumes "dma_env c" "ob_source as (pops (trace s)) (fpga s)" "as \<noteq> []" "length as < 2147483648"
    and "\<forall>k < length as. \<not> target_fails tgt k" "\<not> pm_entry (dd s)"
  shows "\<exists>s'. libera_dd_transfer_OBfifo_DMA c tgt (of_nat (length as)) s = Some (int (length as), as, s') \<and>
    pops (trace s') = pops (trace s) + 8 * length as \<and> klog s' = klog s \<and> \<not> Overrun (dma_of s')"
proof -
  let ?n = "of_nat (length as) :: u32" let ?st = "fpga s (trace s) DD_OB_STATUS"
  have un: "unat ?n = length as" using assms(4) by (simp add: unsigned_of_nat take_bit_nat_eq_self_iff)
  define t where "t = upd_dma libera_dma_get_DMAC_csize (upd_dma flushDMA_FIFO
    (upd_dma (\<lambda>q. q\<lparr>obFIFOstatus := ?st, Overrun := False, DMAC_transfer := False,
                   remaining := ?n, aborting := False, written := 0\<rparr>) (snd (readl DD_OB_STATUS s))))"
  have q: "remaining (dma_of t) = ?n" "dma_put (dma_of t) = 0" "dma_get (dma_of t) = 0" "\<not> Overrun (dma_of t)"
    "\<not> aborting (dma_of t)" "written (dma_of t) = 0" "\<not> DMAC_transfer (dma_of t)" "obFIFOstatus (dma_of t) = ?st"
    "fpga t = fpga s" "pops (trace t) = pops (trace s)" "dd t = dd s" "klog t = klog s"
    by (simp_all add: t_def libera_dma_get_DMAC_csize_def flushDMA_FIFO_def Let_def)
  have inv: "dma_inv as (pops (trace s)) [] t"
    using assms(2,4) by (simp add: dma_inv_def Let_def q un dma_ok_def dma_contents_def dma_len_def)
  have sz: "DD_OB_SIZE ?st \<noteq> 0"
    using assms(2,3) by (auto simp: ob_source_def Let_def dest!: spec [of _ "trace s"])
  have nz: "?n \<noteq> 0" using assms(3) un by auto
  have "\<not> dma_no_data t" using sz by (simp add: dma_no_data_def q)
  then have tr: "libera_dd_transfer_OBfifo_DMA c tgt ?n s =
      transfer_loop c tgt ?n (jiffies c s) 0 [] (start_dma (upd_dma libera_dma_get_DMAC_csize t))"
    using sync_at_once [of t c] by (simp add: libera_dd_transfer_OBfifo_DMA_def Let_def case_prod_unfold t_def)
  have lim: "dma_limit (dma_of t) \<noteq> 0"
    using limit_pos [of "dma_of t"] sz nz by (auto simp: q dma_ok_def dma_len_def)
  note st = dma_started [OF inv q(7) lim]
  let ?u = "start_dma (upd_dma libera_dma_get_DMAC_csize t)"
  have "dma_busy ?u" using st(2) by (simp add: dma_busy_def)
  moreover have "\<not> pm_entry (dd ?u)" using assms(6) q(11) st(3) by simp
  ultimately show ?thesis
    using loop_delivers [OF assms(1) st(1) _ _ assms(5), of "jiffies c s"] st(4) q(12) by (auto simp: tr)
qed


text \<open>A concrete output buffer, and a system in which each sleep completes one transfer.\<close>

definition ob_fpga :: "dd_atom list \<Rightarrow> io list \<Rightarrow> u32 \<Rightarrow> u32" where
  "ob_fpga as tr a =
     (if ob_window a then ob_word as (pops tr)
      else if a = DD_OB_STATUS then of_nat (min 255 (length as - pops tr div 8)) else 0)"

lemma ob_fpga_ok: "ob_source as 0 (ob_fpga as)"
proof -
  have s: "DD_OB_OVERRUN (of_nat m) = 0" "unat (DD_OB_SIZE (of_nat m)) = m" if "m \<le> 255" for m
  proof -
    have m: "unat (of_nat m :: u32) = m" using that by (simp add: unsigned_of_nat take_bit_nat_eq_self_iff)
    have "unat (drop_bit 30 (of_nat m :: u32)) = 0"
      using that by (simp add: drop_bit_eq_div unat_div m)
    then show "DD_OB_OVERRUN (of_nat m) = 0" by (simp add: DD_OB_OVERRUN_def unat_eq_0)
    have "DD_OB_SIZE (of_nat m) = of_nat m AND mask 8" by (simp add: DD_OB_SIZE_def mask_eq_exp_minus_1)
    then show "unat (DD_OB_SIZE (of_nat m)) = m" using that by (simp add: unat_and_mask m)
  qed
  have st: "DD_OB_OVERRUN (ob_fpga as tr DD_OB_STATUS) = 0"
    "unat (DD_OB_SIZE (ob_fpga as tr DD_OB_STATUS)) = min 255 (length as - pops tr div 8)" for tr
    using s [of "min 255 (length as - pops tr div 8)"] by (simp_all add: ob_fpga_def)
  have w: "ob_window a \<Longrightarrow> ob_fpga as tr a = ob_word as (pops tr)" for a tr by (simp add: ob_fpga_def)
  have "DD_OB_SIZE (ob_fpga as tr DD_OB_STATUS) \<noteq> 0" if "pops tr div 8 < length as" for tr
  proof -
    have "0 < min 255 (length as - pops tr div 8)" using that by simp
    then have "0 < unat (DD_OB_SIZE (ob_fpga as tr DD_OB_STATUS))" unfolding st(2) .
    then show ?thesis by (simp add: unat_gt_0)
  qed
  then show ?thesis unfolding ob_source_def Let_def st(2) by (auto simp: st(1) w)
qed

definition dma_ctx :: ctx where
  "dma_ctx = \<lparr>wake = dma_completes, sigpend = (\<lambda>_. False), lock_intr = (\<lambda>_. False), timeleft = (\<lambda>_ n. n - 1),
     jiffies = (\<lambda>_. 0), dma_waiter = (\<lambda>_. False)\<rparr>"

lemma dma_ctx_env: "dma_env dma_ctx"
  by (auto simp: dma_env_def dma_ctx_def intro!: exI [of _ "1 :: nat"])



end
