(* ===== verification/Dd.thy ===== *)
theory Dd
  imports Dma Cfg TimeConv
begin

text \<open>
  The data-on-demand device: the file operations (\<^verbatim>\<open>drivers/libera/libera_dd.c\<close>), the commands to
  the FPGA's command buffer, waiting for the requested stretch of history to be recorded, and the
  read that puts all of this together (\<^verbatim>\<open>ebpp.c\<close>), and the interrupt handlers of the device and of
  the interlock (\<^verbatim>\<open>libera_main.c\<close>).

  Signed 64-bit differences are words read with \<open>sint\<close>.
\<close>

section \<open>Limits\<close>

definition DD_MAX_NOATOMS :: u32 where [reg_defs]: "DD_MAX_NOATOMS = 0x400000"
definition LIBERA_DD_MAX_INTERVAL :: u32 where [reg_defs]: "LIBERA_DD_MAX_INTERVAL = DD_MAX_NOATOMS"
definition LIBERA_DD_MAX_INADVANCE :: u32 where [reg_defs]: "LIBERA_DD_MAX_INADVANCE = 5 * LIBERA_DD_CIRCBUF_ATOMS"
definition LIBERA_DD_READSYNC_MARGIN :: u32 where [reg_defs]: "LIBERA_DD_READSYNC_MARGIN = 64"

definition LIBERA_DD_CIRCBUF_SAFE :: "u32 \<Rightarrow> u32" where
  "LIBERA_DD_CIRCBUF_SAFE d = (LIBERA_DD_CIRCBUF_ATOMS * d) div 10"

section \<open>Commands to the FPGA\<close>

definition DD_CBH_FDEC_LSB :: nat where [reg_defs]: "DD_CBH_FDEC_LSB = 30"
definition DD_CBH_FDEC_WIDTH :: nat where [reg_defs]: "DD_CBH_FDEC_WIDTH = 2"
definition DD_CBH_SADDR_WIDTH :: nat where [reg_defs]: "DD_CBH_SADDR_WIDTH = 21"
definition DD_CBL_NOAT_LSB :: nat where [reg_defs]: "DD_CBL_NOAT_LSB = 0"
definition DD_CBL_NOAT_WIDTH :: nat where [reg_defs]: "DD_CBL_NOAT_WIDTH = 22"
definition DD_CBH_DEC_64 :: u32 where [reg_defs]: "DD_CBH_DEC_64 = 1"
definition DD_CBH_DEC_1 :: u32 where [reg_defs]: "DD_CBH_DEC_1 = 0"

definition libera_dd_write_CBfifo :: "u32 \<Rightarrow> u32 \<Rightarrow> u32 \<Rightarrow> libera \<Rightarrow> int \<times> libera" where
  "libera_dd_write_CBfifo cb_StartAddr cb_NoAtoms decimation s =
     (let cb_FiltDec = (if decimation > 1 then DD_CBH_DEC_64 else DD_CBH_DEC_1);
          cb_NoAtoms = cb_NoAtoms * decimation
      in if cb_NoAtoms > DD_MAX_NOATOMS then (- EINVAL, s)
         else
           let cbFIFO_H = push_bit DD_CBH_FDEC_LSB (cb_FiltDec AND (push_bit DD_CBH_FDEC_WIDTH 1 - 1)) OR
                          (cb_StartAddr AND (push_bit DD_CBH_SADDR_WIDTH 1 - 1));
               cbFIFO_L = push_bit DD_CBL_NOAT_LSB (cb_NoAtoms AND (push_bit DD_CBL_NOAT_WIDTH 1 - 1));
               s = writel cbFIFO_H DD_CB_FIFO_H s;
               s = writel cbFIFO_L DD_CB_FIFO_L s
           in (0, s))"

section \<open>Waiting for the data\<close>

text \<open>
  A delay ends after the given number of jiffies, or before when a signal is pending; what happens
  meanwhile is the context's. It always reports success.
\<close>

definition libera_delay_jiffies_interruptible :: "ctx \<Rightarrow> u32 \<Rightarrow> libera \<Rightarrow> int \<times> libera" where
  "libera_delay_jiffies_interruptible c delay_jiff s = (0, schedule c s)"

text \<open>The revolutions a product \<open>n * lgbl.d\<close> stands for are computed in 32 bits and then widened.\<close>

definition span32 :: "u32 \<Rightarrow> libera \<Rightarrow> u32" where
  "span32 n s = n * g_d (lgbl s)"

definition too_late :: "u64 \<Rightarrow> libera \<Rightarrow> bool" where
  "too_late delta_start s \<longleftrightarrow>
     sint delta_start > uint (span32 LIBERA_DD_CIRCBUF_ATOMS s - LIBERA_DD_CIRCBUF_SAFE (g_d (lgbl s)))"

definition too_early :: "u64 \<Rightarrow> libera \<Rightarrow> bool" where
  "too_early delta_end s \<longleftrightarrow> sint (- delta_end) > uint (span32 LIBERA_DD_MAX_INADVANCE s)"

text \<open>
  \<^verbatim>\<open>wait_lmt\<close> and \<^verbatim>\<open>wait_lst\<close> are copies of each other up to the clock read (\<open>clk\<close>) and the
  conversion of a delay to jiffies. The loop is entered with the last difference, which is negative.
\<close>

partial_function (option) wait_clock_loop ::
  "(Ltimestamp \<Rightarrow> u64) \<Rightarrow> (u64 \<Rightarrow> libera \<Rightarrow> u32) \<Rightarrow> ctx \<Rightarrow> u64 \<Rightarrow> u64 \<Rightarrow> Ltimestamp \<Rightarrow> libera
     \<Rightarrow> (int \<times> Ltimestamp \<times> libera) option"
where
  "wait_clock_loop clk jiff c start delta_end t s =
     (let (ret, s) = libera_delay_jiffies_interruptible c (jiff (- delta_end) s) s in
      if ret \<noteq> 0 then Some (ret, t, s)
      else
        Option.bind (libera_get_CTIME c t s) (\<lambda>(ret, t, s).
          if ret \<noteq> 0 then Some (ret, t, s)
          else
            let delta_end = clk t - start - ucast (span32 LIBERA_DD_READSYNC_MARGIN s)
            in if sint delta_end < 0 then wait_clock_loop clk jiff c start delta_end t s
               else Some (0, t, s)))"

definition wait_clock ::
  "(Ltimestamp \<Rightarrow> u64) \<Rightarrow> (u64 \<Rightarrow> libera \<Rightarrow> u32) \<Rightarrow> ctx \<Rightarrow> u64 \<Rightarrow> Ltimestamp \<Rightarrow> libera
     \<Rightarrow> (int \<times> Ltimestamp \<times> libera) option"
where
  "wait_clock clk jiff c start t s =
     (let delta_start = clk t - start in
      if too_late delta_start s then Some (- ENODATA, t, s)
      else
        let delta_end = delta_start - ucast (span32 LIBERA_DD_READSYNC_MARGIN s) in
        if sint delta_end < 0 then
          (if too_early delta_end s then Some (- EAGAIN, t, s)
           else wait_clock_loop clk jiff c start delta_end t s)
        else Some (0, t, s))"

definition lmt_jiffies :: "u64 \<Rightarrow> libera \<Rightarrow> u32" where
  "lmt_jiffies LMT_delay s =
     ucast (div_u64 (LMT_delay * ucast FLMC_DECI_HZ * of_nat HZ) (flmcdHz (modp s)) + 1)"

definition lst_jiffies :: "u64 \<Rightarrow> libera \<Rightarrow> u32" where
  "lst_jiffies LST_delay s = ucast (div_u64 (LST_delay * of_nat HZ) LSC_FREQ + 1)"

definition wait_lmt :: "ctx \<Rightarrow> Ltimestamp \<Rightarrow> u64 \<Rightarrow> libera \<Rightarrow> (int \<times> Ltimestamp \<times> libera) option" where
  "wait_lmt c ctime start_lmt s = wait_clock lmt lmt_jiffies c start_lmt ctime s"

definition wait_lst :: "ctx \<Rightarrow> Ltimestamp \<Rightarrow> u64 \<Rightarrow> libera \<Rightarrow> (int \<times> Ltimestamp \<times> libera) option" where
  "wait_lst c ctime start_lst s = wait_clock lst lst_jiffies c start_lst ctime s"

section \<open>The open file\<close>

datatype dd_time_t = LIBERA_DD_TIME_IMPLICIT | LIBERA_DD_TIME_EXPLICIT_ST | LIBERA_DD_TIME_EXPLICIT_MT

record Qtimestamp =
  Q_U :: timestamp
  Q_L :: Ltimestamp
  request :: dd_time_t
  trigoffset :: u64

record dd_local =
  dec :: u32
  Qts :: Qtimestamp
  tstamp :: timestamp

definition zero_dd_local :: dd_local where
  "zero_dd_local =
     (let z = \<lparr>ts_st = \<lparr>tv_sec = 0, tv_nsec = 0\<rparr>, ts_mt = 0\<rparr>
      in \<lparr>dec = 0, Qts = \<lparr>Q_U = z, Q_L = zero_stamp, request = LIBERA_DD_TIME_IMPLICIT, trigoffset = 0\<rparr>,
          tstamp = z\<rparr>)"

definition upd_dd_com :: "(common \<Rightarrow> common) \<Rightarrow> libera \<Rightarrow> libera" where
  "upd_dd_com g s = s\<lparr>dd := (dd s)\<lparr>dd_com := g (dd_com (dd s))\<rparr>\<rparr>"

abbreviation lock_dd :: "bool \<Rightarrow> libera \<Rightarrow> libera" where
  "lock_dd b s \<equiv> upd_dd_com (\<lambda>c. c\<lparr>sem := b\<rparr>) s"

text \<open>\<open>mem\<close> tells whether the allocation of the file's data succeeds.\<close>

definition libera_dd_open :: "bool \<Rightarrow> filep \<Rightarrow> libera \<Rightarrow> int \<times> dd_local option \<times> libera" where
  "libera_dd_open mem f s =
     (let s = lock_dd True s in
      if f_write f then (- EACCES, None, lock_dd False s)
      else
        let s = upd_dd_com (\<lambda>c. c\<lparr>readers := readers c + 1\<rparr>) s in
        if mem then
          let l = zero_dd_local\<lparr>dec := 1\<rparr>;
              s = upd_dd_com (\<lambda>c. c\<lparr>open_count := open_count c + 1\<rparr>) s
          in (0, Some l, lock_dd False s)
        else (- ENOMEM, None, lock_dd False s))"

definition libera_dd_release :: "libera \<Rightarrow> int \<times> libera" where
  "libera_dd_release s =
     (0, upd_dd_com (\<lambda>c. c\<lparr>readers := readers c - 1\<rparr>)
           (upd_dd_com (\<lambda>c. c\<lparr>open_count := open_count c - 1\<rparr>) s))"

text \<open>
  Seeking sets the start of the next read: an absolute system time, an absolute machine time, or an
  offset from the last trigger. The bytes of a system time are its seconds, then its nanoseconds.
\<close>

definition libera_dd_llseek_specific ::
  "ctx \<Rightarrow> dd_local \<Rightarrow> u64 \<Rightarrow> int \<Rightarrow> libera \<Rightarrow> (int \<times> dd_local \<times> libera) option"
where
  "libera_dd_llseek_specific c l time whence s =
     (if whence = 0 then
        let q = (Qts l)\<lparr>request := LIBERA_DD_TIME_EXPLICIT_ST\<rparr> in
        if time = 0 then
          Option.bind (libera_get_CTIME c zero_stamp s) (\<lambda>(ret, ctime, s).
            if ret \<noteq> 0 then Some (ret, l\<lparr>Qts := q\<rparr>, s)
            else
              let q = q\<lparr>Q_L := (Q_L q)\<lparr>lst := lst ctime\<rparr>\<rparr>;
                  q = q\<lparr>Q_U := (Q_U q)\<lparr>ts_st := lst2st (lst (Q_L q))\<rparr>\<rparr>
              in Some (0, l\<lparr>Qts := q\<rparr>, s))
        else
          let q = q\<lparr>Q_U := (Q_U q)\<lparr>ts_st := \<lparr>tv_sec = lo32 time, tv_nsec = hi32 time\<rparr>\<rparr>\<rparr>;
              q = q\<lparr>Q_L := (Q_L q)\<lparr>lst := st2lst (ts_st (Q_U q))\<rparr>\<rparr>
          in Some (0, l\<lparr>Qts := q\<rparr>, s)
      else if whence = 1 then
        let q = (Qts l)\<lparr>request := LIBERA_DD_TIME_EXPLICIT_MT\<rparr> in
        if time = 0 then
          Option.bind (libera_get_CTIME c zero_stamp s) (\<lambda>(ret, ctime, s).
            if ret \<noteq> 0 then Some (ret, l\<lparr>Qts := q\<rparr>, s)
            else
              let q = q\<lparr>Q_L := (Q_L q)\<lparr>lmt := lmt ctime\<rparr>\<rparr>;
                  q = q\<lparr>Q_U := (Q_U q)\<lparr>ts_mt := lmt2mt (g_d (lgbl s)) (lmt (Q_L q))\<rparr>\<rparr>
              in Some (0, l\<lparr>Qts := q\<rparr>, s))
        else
          let q = q\<lparr>Q_U := (Q_U q)\<lparr>ts_mt := time\<rparr>\<rparr>;
              q = q\<lparr>Q_L := (Q_L q)\<lparr>lmt := mt2lmt (g_d (lgbl s)) (ts_mt (Q_U q))\<rparr>\<rparr>
          in Some (0, l\<lparr>Qts := q\<rparr>, s)
      else if whence = 2 then
        let q = (Qts l)\<lparr>request := LIBERA_DD_TIME_IMPLICIT\<rparr>;
            q = q\<lparr>trigoffset := time\<rparr>
        in Some (0, l\<lparr>Qts := q\<rparr>, s)
      else Some (- EINVAL, l, s))"

definition libera_dd_llseek where "libera_dd_llseek = libera_dd_llseek_specific"

definition words_of_timestamp :: "timestamp \<Rightarrow> u32 list" where
  "words_of_timestamp t = [tv_sec (ts_st t), tv_nsec (ts_st t)] @ words64 (ts_mt t)"

definition LIBERA_IOC_DD :: u32 where [reg_defs]: "LIBERA_IOC_DD = 96"

definition libera_dd_ioctl ::
  "ctx \<Rightarrow> dd_local \<Rightarrow> u32 \<Rightarrow> ucopy \<Rightarrow> libera \<Rightarrow> int \<times> uout \<times> dd_local \<times> libera"
where
  "libera_dd_ioctl c l cmd u s =
     (if IOC_TYPE cmd \<noteq> LIBERA_IOC_MAGIC then (- ENOTTY, No_out, l, s)
      else if IOC_NR cmd AND LIBERA_IOC_MASK \<noteq> LIBERA_IOC_DD then (- ENOTTY, No_out, l, s)
      else if range_error cmd u then (- EFAULT, No_out, l, s)
      else if lock_intr c s then (- ERESTARTSYS, No_out, l, s)
      else
        let s = lock_dd True s in
        if cmd = LIBERA_IOC_GET_DEC then
          (if to_left u \<noteq> 0 then (int (to_left u), No_out, l, lock_dd False s)
           else (0, Out_words [dec l], l, lock_dd False s))
        else if cmd = LIBERA_IOC_SET_DEC then
          (let NewDec = uword u 0 in
           if NewDec \<noteq> 0 then (int (from_left u), No_out, l\<lparr>dec := NewDec\<rparr>, lock_dd False s)
           else (- EINVAL, No_out, l, lock_dd False s))
        else if cmd = LIBERA_IOC_GET_DD_TSTAMP then
          (if to_left u \<noteq> 0 then (int (to_left u), No_out, l, lock_dd False s)
           else (0, Out_words (words_of_timestamp (tstamp l)), l, lock_dd False s))
        else (- ENOTTY, No_out, l, lock_dd False s))"

section \<open>Reading\<close>

text \<open>
  The start of the stretch, in both clocks and both units, from the request: an absolute time is
  completed from the current time once the data is there, a time relative to the last trigger is
  completed from that trigger's stamps before the wait.
\<close>

definition lgbl_d :: "libera \<Rightarrow> u32" where "lgbl_d s = g_d (lgbl s)"

definition dd_start_st ::
  "ctx \<Rightarrow> Qtimestamp \<Rightarrow> Ltimestamp \<Rightarrow> libera \<Rightarrow> (int \<times> Qtimestamp \<times> libera) option"
where
  "dd_start_st c q ctime s =
     Option.bind (wait_lst c ctime (lst (Q_L q)) s) (\<lambda>(ret, ctime, s).
       if ret \<noteq> 0 then Some (ret, q, s)
       else
         let (ret, m) = lst2lmt (flmcdHz (modp s)) (lst (Q_L q)) (lmt (Q_L q)) ctime;
             q = q\<lparr>Q_L := (Q_L q)\<lparr>lmt := m\<rparr>\<rparr>
         in if ret \<noteq> 0 then Some (ret, q, s)
            else Some (0, q\<lparr>Q_U := (Q_U q)\<lparr>ts_mt := lmt2mt (lgbl_d s) (lmt (Q_L q))\<rparr>\<rparr>, s))"

definition dd_start_mt ::
  "ctx \<Rightarrow> Qtimestamp \<Rightarrow> Ltimestamp \<Rightarrow> libera \<Rightarrow> (int \<times> Qtimestamp \<times> libera) option"
where
  "dd_start_mt c q ctime s =
     Option.bind (wait_lmt c ctime (lmt (Q_L q)) s) (\<lambda>(ret, ctime, s).
       if ret \<noteq> 0 then Some (ret, q, s)
       else
         let (ret, t) = lmt2lst (flmcdHz (modp s)) (lmt (Q_L q)) (lst (Q_L q)) ctime;
             q = q\<lparr>Q_L := (Q_L q)\<lparr>lst := t\<rparr>\<rparr>
         in if ret \<noteq> 0 then Some (ret, q, s)
            else Some (0, q\<lparr>Q_U := (Q_U q)\<lparr>ts_st := lst2st (lst (Q_L q))\<rparr>\<rparr>, s))"

definition dd_start_trigger ::
  "ctx \<Rightarrow> Qtimestamp \<Rightarrow> Ltimestamp \<Rightarrow> libera \<Rightarrow> (int \<times> Qtimestamp \<times> libera) option"
where
  "dd_start_trigger c q ctime s =
     (let last_trigger = getFromCircBuf (paired_timestamps (event s) T_TRIG_TRIGGER);
          q = q\<lparr>Q_L := \<lparr>lst = lst last_trigger, lmt = lmt last_trigger + trigoffset q * ucast (lgbl_d s)\<rparr>\<rparr>;
          (ret, t) = lmt2lst (flmcdHz (modp s)) (lmt (Q_L q)) (lst (Q_L q)) last_trigger;
          q = q\<lparr>Q_L := (Q_L q)\<lparr>lst := t\<rparr>\<rparr>
      in if ret \<noteq> 0 then Some (ret, q, s)
         else
           let q = q\<lparr>Q_U := \<lparr>ts_st = lst2st (lst (Q_L q)), ts_mt = lmt2mt (lgbl_d s) (lmt (Q_L q))\<rparr>\<rparr>
           in Option.bind (wait_lmt c ctime (lmt (Q_L q)) s) (\<lambda>(ret, ctime, s). Some (ret, q, s)))"

definition dd_start ::
  "ctx \<Rightarrow> Qtimestamp \<Rightarrow> Ltimestamp \<Rightarrow> libera \<Rightarrow> (int \<times> Qtimestamp \<times> libera) option"
where
  "dd_start c q ctime s =
     (case request q of
        LIBERA_DD_TIME_EXPLICIT_ST \<Rightarrow> dd_start_st c q ctime s
      | LIBERA_DD_TIME_EXPLICIT_MT \<Rightarrow> dd_start_mt c q ctime s
      | LIBERA_DD_TIME_IMPLICIT \<Rightarrow> dd_start_trigger c q ctime s)"

text \<open>The atom of the circular buffer a stretch starts at.\<close>

definition circ_atom :: "u64 \<Rightarrow> libera \<Rightarrow> u32" where
  "circ_atom t s = get_circ_offset_lmt (lgbl_d s) (lmt_off (set_time (event s))) (HB_start_lmt (event s)) t"

text \<open>
  The end of a read at the label \<^verbatim>\<open>out\<close>, and at \<^verbatim>\<open>out_zero\<close>, where the request becomes the machine
  time that follows the atoms read.
\<close>

definition dd_out :: "int \<Rightarrow> dd_atom list \<Rightarrow> dd_local \<Rightarrow> libera \<Rightarrow> (int \<times> dd_atom list \<times> dd_local \<times> libera) option" where
  "dd_out ret out l s =
     (let s = set_irqMask (get_irqMask s OR LIBERA_INTERRUPT_DD_MASK) s
      in Some (ret, out, l, lock_dd False s))"

definition dd_out_zero ::
  "int \<Rightarrow> u32 \<Rightarrow> dd_atom list \<Rightarrow> dd_local \<Rightarrow> libera \<Rightarrow> (int \<times> dd_atom list \<times> dd_local \<times> libera) option"
where
  "dd_out_zero ret OB_ret out l s =
     (let q = (Qts l)\<lparr>request := LIBERA_DD_TIME_EXPLICIT_MT\<rparr>;
          q = q\<lparr>Q_U := (Q_U q)\<lparr>ts_mt := ts_mt (Q_U q) + ucast (OB_ret * dec l)\<rparr>\<rparr>;
          q = q\<lparr>Q_L := (Q_L q)\<lparr>lmt := mt2lmt (lgbl_d s) (ts_mt (Q_U q))\<rparr>\<rparr>
      in dd_out ret out (l\<lparr>Qts := q\<rparr>) s)"

text \<open>The command and the transfer; \<open>room\<close> is how many atoms the user's buffer takes before a copy fails.\<close>

definition dd_fetch ::
  "ctx \<Rightarrow> nat \<Rightarrow> u32 \<Rightarrow> dd_local \<Rightarrow> libera \<Rightarrow> (int \<times> dd_atom list \<times> dd_local \<times> libera) option"
where
  "dd_fetch c room span_atoms l s =
     (let l = l\<lparr>tstamp := Q_U (Qts l)\<rparr>;
          (CB_ret, s) = libera_dd_write_CBfifo (circ_atom (lmt (Q_L (Qts l))) s) span_atoms (dec l) s
      in if CB_ret < 0 then dd_out CB_ret [] l s
         else
           Option.bind (getBlockedFromFIFO c DD_irq s) (\<lambda>(IRQ_ret, dd_dummy, s).
             if IRQ_ret \<noteq> 0 then dd_out 0 [] l s
             else
               Option.bind (libera_dd_transfer_OBfifo_DMA c (User room) span_atoms s) (\<lambda>(OB_ret, out, s).
                 if OB_ret < 0 then
                   (let s = writel 0 DD_CB_FIFO_RESET s
                    in dd_out (sint (written (dma_of s) * dd_atom_bytes)) out l s)
                 else dd_out_zero (sint (of_int OB_ret * dd_atom_bytes)) (of_int OB_ret) out l s)))"

definition libera_dd_read_specific ::
  "ctx \<Rightarrow> nat \<Rightarrow> u32 \<Rightarrow> dd_local \<Rightarrow> libera \<Rightarrow> (int \<times> dd_atom list \<times> dd_local \<times> libera) option"
where
  "libera_dd_read_specific c room count l s =
     (if lock_intr c s then Some (- ERESTARTSYS, [], l, s)
      else
        let s = lock_dd True s in
        if count > LIBERA_DD_MAX_INTERVAL * dd_atom_bytes then dd_out (- EINVAL) [] l s
        else if count mod dd_atom_bytes \<noteq> 0 then dd_out (- EINVAL) [] l s
        else
          let span_atoms = count div dd_atom_bytes in
          if span_atoms = 0 then dd_out_zero 0 0 [] l s
          else
            Option.bind (libera_get_CTIME c zero_stamp s) (\<lambda>(ret, ctime, s).
              if ret \<noteq> 0 then dd_out ret [] l s
              else
                Option.bind (dd_start c (Qts l) ctime s) (\<lambda>(ret, q, s).
                  if ret \<noteq> 0 then dd_out ret [] (l\<lparr>Qts := q\<rparr>) s
                  else dd_fetch c room span_atoms (l\<lparr>Qts := q\<rparr>) s)))"

definition libera_dd_read where "libera_dd_read = libera_dd_read_specific"

section \<open>Interrupts of the device and of the interlock\<close>

definition libera_dd_handler :: "libera \<Rightarrow> libera" where
  "libera_dd_handler s =
     (let s = set_irqMask (get_irqMask s AND NOT LIBERA_INTERRUPT_DD_MASK) s;
          (r, q) = putToFIFO 0 (dd_irqevents (dd s));
          s = s\<lparr>dd := (dd s)\<lparr>dd_irqevents := q\<rparr>\<rparr>;
          s = (if r < 0 then printk_crit DD_FIFO_overflow s else s)
      in wake_up_interruptible DD_queue s)"

definition libera_ilk_handler_specific :: "u32 \<Rightarrow> libera \<Rightarrow> libera" where
  "libera_ilk_handler_specific status s =
     set_param LIBERA_CFG_ILKSTATUS (param (cfg s) LIBERA_CFG_ILKSTATUS OR status) s"

definition libera_ilk_handler :: "libera \<Rightarrow> libera" where
  "libera_ilk_handler s =
     (let (status, s) = readl ILK_STATUS s;
          s = libera_ilk_handler_specific status s
      in send_event LIBERA_EVENT_INTERLOCK status s)"

section \<open>When a read waits\<close>

lemma sint_of_int64: "- 9223372036854775808 \<le> v \<Longrightarrow> v < 9223372036854775808 \<Longrightarrow> sint (word_of_int v :: u64) = v"
  by (simp add: signed_of_int signed_take_bit_int_eq_self del: sint_sbintrunc')

lemma word64_of_nat: "x = (word_of_int (int (unat x)) :: u64)"
  by simp

lemma sint_diff64:
  assumes "unat x < 4611686018427387904" "unat y < 4611686018427387904"
  shows "sint (x - y :: u64) = int (unat x) - int (unat y)"
proof -
  have "x - y = word_of_int (int (unat x) - int (unat y))" by simp
  moreover have "sint (word_of_int (int (unat x) - int (unat y)) :: u64) = int (unat x) - int (unat y)"
    using assms by (intro sint_of_int64) linarith+
  ultimately show ?thesis by (simp only:)
qed

lemma sint_diff64_margin:
  assumes "unat x < 4611686018427387904" "unat y < 4611686018427387904"
  shows "sint (x - y - ucast (m :: u32) :: u64) = int (unat x) - int (unat y) - int (unat m)"
    and "sint (- (x - y - ucast (m :: u32) :: u64)) = int (unat y) + int (unat m) - int (unat x)"
proof -
  have m: "int (unat m) < 4294967296" using unat_lt_2p32 [of m] by linarith
  have c: "(ucast m :: u64) = word_of_int (int (unat m))" by simp
  have "x - y - ucast m = word_of_int (int (unat x) - int (unat y) - int (unat m))"
    unfolding c by simp
  moreover have "sint (word_of_int (int (unat x) - int (unat y) - int (unat m)) :: u64) = int (unat x) - int (unat y) - int (unat m)"
    using assms m by (intro sint_of_int64) linarith+
  ultimately show "sint (x - y - ucast (m :: u32) :: u64) = int (unat x) - int (unat y) - int (unat m)"
    by (simp only:)
  have "- (x - y - ucast m) = word_of_int (int (unat y) + int (unat m) - int (unat x))"
    unfolding c by simp
  moreover have "sint (word_of_int (int (unat y) + int (unat m) - int (unat x)) :: u64) = int (unat y) + int (unat m) - int (unat x)"
    using assms m by (intro sint_of_int64) linarith+
  ultimately show "sint (- (x - y - ucast (m :: u32) :: u64)) = int (unat y) + int (unat m) - int (unat x)"
    by (simp only:)
qed

text \<open>The lengths the limits stand for, for a decimation at which they fit 32 bits.\<close>

definition d_fits :: "libera \<Rightarrow> bool" where
  "d_fits s \<longleftrightarrow> unat (g_d (lgbl s)) \<le> 409"

lemma unat_mult_u32_small: "unat x * unat y < 4294967296 \<Longrightarrow> unat (x * y :: u32) = unat x * unat y"
  by (simp add: unat_word_ariths)

lemma spans:
  assumes "d_fits s"
  shows "unat (span32 LIBERA_DD_READSYNC_MARGIN s) = 64 * unat (g_d (lgbl s))"
    and "unat (span32 LIBERA_DD_MAX_INADVANCE s) = 10485760 * unat (g_d (lgbl s))"
    and "unat (span32 LIBERA_DD_CIRCBUF_ATOMS s - LIBERA_DD_CIRCBUF_SAFE (g_d (lgbl s))) =
      2097152 * unat (g_d (lgbl s)) - 2097152 * unat (g_d (lgbl s)) div 10"
proof -
  let ?d = "g_d (lgbl s)"
  have d: "unat ?d \<le> 409" using assms by (simp add: d_fits_def)
  show "unat (span32 LIBERA_DD_READSYNC_MARGIN s) = 64 * unat ?d"
    "unat (span32 LIBERA_DD_MAX_INADVANCE s) = 10485760 * unat ?d"
    using d by (simp_all add: span32_def reg_defs unat_mult_u32_small)
  have c: "unat (span32 LIBERA_DD_CIRCBUF_ATOMS s) = 2097152 * unat ?d"
    using d by (simp add: span32_def unat_mult_u32_small)
  then have f: "unat (LIBERA_DD_CIRCBUF_SAFE ?d) = 2097152 * unat ?d div 10"
    by (simp add: LIBERA_DD_CIRCBUF_SAFE_def span32_def unat_div)
  have "LIBERA_DD_CIRCBUF_SAFE ?d \<le> span32 LIBERA_DD_CIRCBUF_ATOMS s"
    unfolding word_le_nat_alt c f by (rule div_le_dividend)
  then show "unat (span32 LIBERA_DD_CIRCBUF_ATOMS s - LIBERA_DD_CIRCBUF_SAFE ?d) =
      2097152 * unat ?d - 2097152 * unat ?d div 10"
    by (simp add: unat_sub_le c f)
qed


lemma waits_decide:
  fixes clk t start s
  defines "now \<equiv> unat (clk t)" and "b \<equiv> unat (start :: u64)" and "d \<equiv> unat (g_d (lgbl s))"
  assumes "d_fits s" "now < 4611686018427387904" "b < 4611686018427387904"
  shows "wait_clock clk jiff c start t s =
    (if b + (2097152 * d - 2097152 * d div 10) < now then Some (- ENODATA, t, s)
     else if b + 64 * d \<le> now then Some (0, t, s)
     else if now + 10485760 * d < b + 64 * d then Some (- EAGAIN, t, s)
     else wait_clock_loop clk jiff c start (clk t - start - ucast (span32 LIBERA_DD_READSYNC_MARGIN s)) t s)"
proof -
  note d = spans [OF assms(4), folded d_def]
  note m = sint_diff64_margin [OF assms(5,6) [unfolded now_def b_def], of "span32 LIBERA_DD_READSYNC_MARGIN s",
      folded now_def b_def, unfolded d]
  have "too_late (clk t - start) s \<longleftrightarrow> b + (2097152 * d - 2097152 * d div 10) < now"
  proof -
    have "uint (span32 LIBERA_DD_CIRCBUF_ATOMS s - LIBERA_DD_CIRCBUF_SAFE (g_d (lgbl s))) =
        int (2097152 * d - 2097152 * d div 10)"
      unfolding d(3) [symmetric] by simp
    then have "too_late (clk t - start) s \<longleftrightarrow> int (2097152 * d - 2097152 * d div 10) < int now - int b"
      unfolding too_late_def sint_diff64 [OF assms(5,6) [unfolded now_def b_def]] now_def b_def
      by (simp only:)
    then show ?thesis by linarith
  qed
  moreover have "sint (clk t - start - ucast (span32 LIBERA_DD_READSYNC_MARGIN s)) < 0 \<longleftrightarrow> \<not> b + 64 * d \<le> now"
    unfolding m by linarith
  moreover have "too_early (clk t - start - ucast (span32 LIBERA_DD_READSYNC_MARGIN s)) s \<longleftrightarrow>
      now + 10485760 * d < b + 64 * d"
  proof -
    have "uint (span32 LIBERA_DD_MAX_INADVANCE s) = int (10485760 * d)"
      unfolding d(2) [symmetric] by simp
    then show ?thesis unfolding too_early_def m by linarith
  qed
  ultimately show ?thesis unfolding wait_clock_def Let_def by simp
qed


text \<open>
  Readings of the clock, each after a delay: the first \<open>n\<close> succeed and show a time before \<open>b\<close> plus
  the margin.
\<close>

definition early_readings ::
  "(Ltimestamp \<Rightarrow> u64) \<Rightarrow> ctx \<Rightarrow> nat \<Rightarrow> (nat \<Rightarrow> Ltimestamp) \<Rightarrow> (nat \<Rightarrow> libera) \<Rightarrow> nat \<Rightarrow> bool"
where
  "early_readings clk c b tm st n \<longleftrightarrow>
     (\<forall>k<n. libera_get_CTIME c (tm k) (schedule c (st k)) = Some (0, tm (Suc k), st (Suc k)) \<and>
        d_fits (st (Suc k)) \<and>
        unat (clk (tm (Suc k))) < b + 64 * unat (g_d (lgbl (st (Suc k)))) \<and>
        unat (clk (tm (Suc k))) < 4611686018427387904)"

lemma wait_loop_ends:
  assumes "early_readings clk c (unat start) tm st n" "unat start < 4611686018427387904"
    and last: "libera_get_CTIME c (tm n) (schedule c (st n)) = Some (r, t', s')"
    and stop: "r = 0 \<Longrightarrow> d_fits s' \<and> unat start + 64 * unat (g_d (lgbl s')) \<le> unat (clk t') \<and>
      unat (clk t') < 4611686018427387904"
  shows "wait_clock_loop clk jiff c start de (tm 0) (st 0) = Some (r, t', s')"
  using assms(1,3)
proof (induction n arbitrary: tm st de)
  case 0
  have "\<not> sint (clk t' - start - ucast (span32 LIBERA_DD_READSYNC_MARGIN s')) < 0" if "r = 0"
  proof -
    note h = stop [OF that]
    show ?thesis
      unfolding sint_diff64_margin(1) [OF conjunct2 [OF conjunct2 [OF h]] assms(2)] spans(1) [OF conjunct1 [OF h]]
      using h by linarith
  qed
  with 0 show ?case
    by (subst wait_clock_loop.simps) (simp add: libera_delay_jiffies_interruptible_def)
next
  case (Suc n)
  have e: "early_readings clk c (unat start) (\<lambda>k. tm (Suc k)) (\<lambda>k. st (Suc k)) n"
    and h: "libera_get_CTIME c (tm 0) (schedule c (st 0)) = Some (0, tm 1, st 1)"
      "d_fits (st 1)" "unat (clk (tm 1)) < unat start + 64 * unat (g_d (lgbl (st 1)))"
      "unat (clk (tm 1)) < 4611686018427387904"
    using Suc.prems(1) by (auto simp: early_readings_def dest: spec [of _ 0])
  have "sint (clk (tm 1) - start - ucast (span32 LIBERA_DD_READSYNC_MARGIN (st 1))) < 0"
    unfolding sint_diff64_margin(1) [OF h(4) assms(2)] spans(1) [OF h(2)] using h(3) by linarith
  then have "wait_clock_loop clk jiff c start de (tm 0) (st 0) =
      wait_clock_loop clk jiff c start (clk (tm 1) - start - ucast (span32 LIBERA_DD_READSYNC_MARGIN (st 1))) (tm 1) (st 1)"
    using h(1) by (subst wait_clock_loop.simps) (simp add: libera_delay_jiffies_interruptible_def)
  with Suc.IH [OF e] Suc.prems(2) show ?case by simp
qed

text \<open>
  C18: waiting for data is neither early, late nor endless. With \<open>d\<close> samples per revolution (at most
  409, so that the limits fit 32 bits) and time stamps below 2 to the 62: a start older than 90 \%
  of the circular buffer is refused with \<^verbatim>\<open>-ENODATA\<close>, one whose first 64 atoms are already
  recorded is accepted at once, one more than five buffers ahead is refused with \<^verbatim>\<open>-EAGAIN\<close>, and in
  between the call sleeps and reads the clock again until the first reading that is past the start
  by 64 atoms, with which it returns 0, or that fails, whose error it returns. The same code serves
  machine and system time, so this holds of \<^verbatim>\<open>wait_lmt\<close> and of \<^verbatim>\<open>wait_lst\<close>.
\<close>

theorem wait_clock_timely:
  fixes clk t start s tm st n
  defines "now \<equiv> unat (clk t)" and "b \<equiv> unat (start :: u64)" and "d \<equiv> unat (g_d (lgbl s))"
  assumes fits: "d_fits s" "now < 4611686018427387904" "b < 4611686018427387904"
    and readings: "tm 0 = t" "st 0 = s" "early_readings clk c b tm st n"
      "libera_get_CTIME c (tm n) (schedule c (st n)) = Some (r, t', s')"
      "r \<noteq> 0 \<or> d_fits s' \<and> b + 64 * unat (g_d (lgbl s')) \<le> unat (clk t') \<and> unat (clk t') < 4611686018427387904"
  shows "wait_clock clk jiff c start t s =
    (if b + (2097152 * d - 2097152 * d div 10) < now then Some (- ENODATA, t, s)
     else if b + 64 * d \<le> now then Some (0, t, s)
     else if now + 10485760 * d < b + 64 * d then Some (- EAGAIN, t, s)
     else Some (r, t', s'))"
proof -
  have "wait_clock_loop clk jiff c start de t s = Some (r, t', s')" for de
    using wait_loop_ends [OF readings(3) [unfolded b_def] _ readings(4), of jiff de] readings(1,2,5) fits(3)
    by (auto simp: b_def)
  then show ?thesis
    using waits_decide [where clk = clk and t = t and start = start and s = s and jiff = jiff and c = c] fits by (simp add: now_def b_def d_def)
qed


lemma blocked_at_once:
  assumes "\<not> lock_intr c s" "trig_wf (fifo_of q s)" "trig_contents (fifo_of q s) = x # xs"
  shows "\<exists>f. getBlockedFromFIFO c q s = Some (0, x, unlock_event (fifo_upd q f (lock_event s))) \<and> trig_contents f = xs"
proof -
  obtain f where f: "getFromFIFO (fifo_of q s) = (Some x, f)" "trig_contents f = xs"
    using ts.deq_some [OF assms(2,3)] by (metis prod.collapse)
  have "\<not> emptyFIFO (fifo_of q s)" using ts.empty_contents [OF assms(2)] assms(3) by simp
  then show ?thesis using assms(1) f
    by (intro exI [of _ f]) (simp add: getBlockedFromFIFO_def Let_def del: fifo_upd.simps)
qed

text \<open>When the pair is there already, reading the clock does not sleep and changes only its FIFOs.\<close>

lemma ctime_at_once:
  assumes intr: "\<And>s. \<not> lock_intr c s"
    and mc: "trig_wf (mc_timestamps (event s) T_TRIG_CTIME)" "trig_contents (mc_timestamps (event s) T_TRIG_CTIME) = m # ms"
    and sc: "trig_wf (sc_timestamps (event s) T_TRIG_CTIME)" "trig_contents (sc_timestamps (event s) T_TRIG_CTIME) = x # xs"
  shows "\<exists>s'. libera_get_CTIME c t0 s = Some (0, \<lparr>lst = x, lmt = m\<rparr>, s') \<and> lgbl s' = lgbl s \<and> dd s' = dd s \<and>
    modp s' = modp s \<and> cfg s' = cfg s \<and> fpga s' = fpga s \<and> klog s' = klog s \<and> sleeps s' = sleeps s \<and>
    trace s' = Wr T_SC_EVENTGEN (TRIGGER_BIT T_TRIG_CTIME) # trace s \<and>
    set_time (event s') = set_time (event s) \<and> HB_start_lmt (event s') = HB_start_lmt (event s) \<and>
    paired_timestamps (event s') = paired_timestamps (event s)"
proof -
  let ?s1 = "writel (TRIGGER_BIT T_TRIG_CTIME) T_SC_EVENTGEN (lock_CTIME True s)"
  obtain g where g: "getFromFIFO (sc_timestamps (event s) T_TRIG_CTIME) = (Some x, g)"
    using ts.deq_some [OF sc] by (metis prod.collapse)
  have fo: "fifo_of (MC_ts T_TRIG_CTIME) ?s1 = mc_timestamps (event s) T_TRIG_CTIME"
    "sc_timestamps (event (lock_event ?s1)) T_TRIG_CTIME = sc_timestamps (event s) T_TRIG_CTIME"
    by (simp_all add: lock_CTIME_def writel_def lock_event_def)
  obtain f where b: "getBlockedFromFIFO c (MC_ts T_TRIG_CTIME) ?s1 =
      Some (0, m, unlock_event (fifo_upd (MC_ts T_TRIG_CTIME) f (lock_event ?s1)))"
    using blocked_at_once [OF intr, of "MC_ts T_TRIG_CTIME" ?s1] mc unfolding fo by blast
  let ?u = "unlock_event (fifo_upd (MC_ts T_TRIG_CTIME) f (lock_event ?s1))"
  have sc_u: "sc_timestamps (event ?u) T_TRIG_CTIME = sc_timestamps (event s) T_TRIG_CTIME"
    using fo(2) by (simp add: unlock_event_def)
  let ?s' = "lock_CTIME False (fifo_upd (SC_ts T_TRIG_CTIME) g ?u)"
  have "libera_get_CTIME c t0 s = Some (0, \<lparr>lst = x, lmt = m\<rparr>, ?s')"
    using intr unfolding libera_get_CTIME_def Let_def b by (simp add: sc_u g del: fifo_upd.simps)
  then show ?thesis
    by (intro exI [of _ ?s']) (simp add: lock_CTIME_def unlock_event_def lock_event_def writel_def)
qed

text \<open>A system with the decimation of the electron beam position processor.\<close>

definition dd_sys :: "(io list \<Rightarrow> u32 \<Rightarrow> u32) \<Rightarrow> libera" where
  "dd_sys f = (libera_bss f)\<lparr>lgbl := (lgbl (libera_bss f))\<lparr>g_d := 220\<rparr>\<rparr>"

theorem wait_clock_timely_witness:
  "\<exists>s'. wait_lmt (woken_ctx 5 20000) \<lparr>lst = 3, lmt = 1000\<rparr> 2000 (dd_sys (\<lambda>_ _. 0)) =
     Some (0, \<lparr>lst = 5, lmt = 20000\<rparr>, s')"
proof -
  let ?s = "dd_sys (\<lambda>_ _. 0)" let ?t = "\<lparr>lst = 3, lmt = 1000\<rparr>" let ?c = "woken_ctx 5 20000"
  have w: "mc_timestamps (event (schedule ?c ?s)) T_TRIG_CTIME = one_stamp 20000"
    "sc_timestamps (event (schedule ?c ?s)) T_TRIG_CTIME = one_stamp 5" "lgbl (schedule ?c ?s) = lgbl ?s"
    by (simp_all add: schedule_def woken_ctx_def)
  obtain s' where s': "libera_get_CTIME ?c ?t (schedule ?c ?s) = Some (0, \<lparr>lst = 5, lmt = 20000\<rparr>, s')" "lgbl s' = lgbl ?s"
    using ctime_at_once [of ?c "schedule ?c ?s" 20000 "[]" 5 "[]" ?t] unfolding w by (auto simp: woken_ctx_def)
  have d: "g_d (lgbl ?s) = 220" by (simp add: dd_sys_def)
  show ?thesis
    using wait_clock_timely [of ?s lmt ?t 2000 "\<lambda>_. ?t" "\<lambda>_. ?s" ?c 0 0 "\<lparr>lst = 5, lmt = 20000\<rparr>" s' lmt_jiffies] s'
    by (simp add: wait_lmt_def early_readings_def d_fits_def d)
qed

section \<open>The command\<close>

lemma cb_high_fields:
  fixes a x :: u32
  assumes "x = 0 \<or> x = 1"
  shows "(push_bit 30 (x AND 3) OR (a AND mask 21)) AND mask 21 = a AND mask 21"
    and "drop_bit 30 (push_bit 30 (x AND 3) OR (a AND mask 21)) = x"
proof -
  show "(push_bit 30 (x AND 3) OR (a AND mask 21)) AND mask 21 = a AND mask 21"
    by (rule bit_word_eqI) (auto simp: bit_simps)
  have "drop_bit 30 (push_bit 30 (x AND 3) OR (a AND mask 21)) = drop_bit 30 (push_bit 30 (x AND 3))"
    by (rule bit_word_eqI) (auto simp: bit_simps)
  also have "\<dots> = x" using assms by auto
  finally show "drop_bit 30 (push_bit 30 (x AND 3) OR (a AND mask 21)) = x" .
qed

lemma mask22: "(4194303 :: u32) = mask 22" "(2097151 :: u32) = mask 21"
  by (simp_all add: mask_eq_exp_minus_1)

text \<open>
  C33: the command to the FPGA says what was asked for, up to two overflows. With \<open>p\<close> the number of
  atoms times the decimation, reduced to 32 bits: above 4194304 it is refused with \<^verbatim>\<open>-EINVAL\<close> and
  nothing is written; otherwise two words are written, the high one first, of which the FPGA
  reads back the start atom modulo the circular buffer, whether to decimate, and the
  number of atoms, except that exactly 4194304, which the limit admits, does not fit its 22 bits and
  reads back as 0.
\<close>

theorem dd_command_encodes:
  fixes a n k :: u32 and s :: libera
  defines "p \<equiv> unat n * unat k mod 4294967296"
  shows "if 4194304 < p then libera_dd_write_CBfifo a n k s = (- EINVAL, s)
    else \<exists>h lo. libera_dd_write_CBfifo a n k s = (0, writel lo DD_CB_FIFO_L (writel h DD_CB_FIFO_H s)) \<and>
      unat (h AND mask 21) = unat a mod 2097152 \<and> drop_bit 30 h = (if k > 1 then 1 else 0) \<and>
      unat lo = (if p = 4194304 then 0 else p)"
proof -
  have p: "unat (n * k) = p" by (simp add: p_def unat_word_ariths)
  have gt: "n * k > DD_MAX_NOATOMS \<longleftrightarrow> 4194304 < p"
    by (simp add: word_less_nat_alt p DD_MAX_NOATOMS_def)
  show ?thesis
  proof (cases "4194304 < p")
    case True
    then show ?thesis using gt by (simp add: libera_dd_write_CBfifo_def)
  next
    case False
    let ?x = "if k > 1 then 1 else 0 :: u32"
    let ?h = "push_bit 30 (?x AND 3) OR (a AND mask 21)" let ?lo = "(n * k) AND mask 22"
    have "libera_dd_write_CBfifo a n k s = (0, writel ?lo DD_CB_FIFO_L (writel ?h DD_CB_FIFO_H s))"
      using False gt unfolding libera_dd_write_CBfifo_def Let_def
      by (simp add: DD_CBH_DEC_64_def DD_CBH_DEC_1_def DD_CBH_FDEC_LSB_def DD_CBH_FDEC_WIDTH_def
          DD_CBH_SADDR_WIDTH_def DD_CBL_NOAT_LSB_def DD_CBL_NOAT_WIDTH_def mask22 [symmetric])
    moreover have "unat ?lo = (if p = 4194304 then 0 else p)"
      using False by (simp add: unat_and_mask p)
    moreover have "unat (?h AND mask 21) = unat a mod 2097152" "drop_bit 30 ?h = ?x"
      using cb_high_fields [of ?x a] by (simp_all add: unat_and_mask)
    ultimately show ?thesis using False by (intro if_not_P [THEN iffD2]) blast+
  qed
qed

section \<open>How a read ends\<close>

definition dd_released :: "dd_local \<Rightarrow> dd_local \<Rightarrow> libera \<Rightarrow> bool" where
  "dd_released l l' s' \<longleftrightarrow> \<not> sem (dd_com (dd s')) \<and>
     irqMask (lgbl s') AND LIBERA_INTERRUPT_DD_MASK = LIBERA_INTERRUPT_DD_MASK \<and>
     hd (trace s') = Wr SBC_IRQ_MASK (irqMask (lgbl s')) \<and> dec l' = dec l"

lemma dd_out_released: "dd_out r out l s = Some (r', out', l', s') \<Longrightarrow> dec l = dec l0 \<Longrightarrow> dd_released l0 l' s'"
proof -
  have m: "(m OR k) AND k = k" for m k :: u32 by (rule bit_word_eqI) (auto simp: bit_simps)
  assume "dd_out r out l s = Some (r', out', l', s')" "dec l = dec l0"
  then show ?thesis
    by (auto simp: dd_out_def Let_def dd_released_def upd_dd_com_def set_irqMask_def m writel_def)
qed

lemma dd_out_zero_released:
  "dd_out_zero r n out l s = Some (r', out', l', s') \<Longrightarrow> dec l = dec l0 \<Longrightarrow> dd_released l0 l' s'"
  unfolding dd_out_zero_def Let_def by (erule dd_out_released) simp

lemma dd_fetch_released:
  "dd_fetch c room n l s = Some (r, out, l', s') \<Longrightarrow> dec l = dec l0 \<Longrightarrow> dd_released l0 l' s'"
  unfolding dd_fetch_def
  by (auto simp: Let_def case_prod_unfold bind_eq_Some_conv split: if_splits
      elim!: dd_out_released dd_out_zero_released)

text \<open>
  However a read ends, it leaves the device usable. Whatever the arguments, the clock, the
  interrupts and the transfer do, when the call returns it was either interrupted while waiting for
  the lock, changing nothing, or the lock is free again, the interrupt of the device, which its
  handler masks, is enabled in the mirror, and the last access to the FPGA is the write of that
  mirror to the mask register; the decimation is as it was.
\<close>

lemma dd_read_releases:
  assumes "libera_dd_read c room count l s = Some (r, out, l', s')"
  shows "if lock_intr c s then r = - ERESTARTSYS \<and> l' = l \<and> s' = s
    else \<not> sem (dd_com (dd s')) \<and>
      irqMask (lgbl s') AND LIBERA_INTERRUPT_DD_MASK = LIBERA_INTERRUPT_DD_MASK \<and>
      hd (trace s') = Wr SBC_IRQ_MASK (irqMask (lgbl s')) \<and> dec l' = dec l"
proof (cases "lock_intr c s")
  case True
  then show ?thesis using assms by (simp add: libera_dd_read_def libera_dd_read_specific_def)
next
  case False
  with assms have "dd_released l l' s'"
    unfolding libera_dd_read_def libera_dd_read_specific_def
    by (auto simp: Let_def case_prod_unfold bind_eq_Some_conv split: if_splits
        elim!: dd_out_released dd_out_zero_released dd_fetch_released)
  then show ?thesis using False by (simp add: dd_released_def)
qed

section \<open>A whole read\<close>

lemma circ_atom_advance:
  assumes d: "g_d (lgbl s) \<noteq> 0" and o: "unat (lmt_off (set_time (event s))) + unat (HB_start_lmt (event s)) \<le> unat mt * unat (g_d (lgbl s))"
    and small: "(unat mt + n + 1) * unat (g_d (lgbl s)) < 18446744073709551616" and nn: "unat k = n"
  shows "unat (circ_atom (mt2lmt (g_d (lgbl s)) (mt + k)) s) = (unat (circ_atom (mt2lmt (g_d (lgbl s)) mt) s) + n) mod 2097152"
proof -
  let ?d = "g_d (lgbl s)"
  have d1: "1 \<le> unat ?d" using d by (simp add: Suc_le_eq unat_gt_0)
  have le: "unat mt + n \<le> (unat mt + n + 1) * unat ?d"
    using mult_le_mono [OF order_refl d1, of "unat mt + n + 1"] by simp
  have mk: "unat (mt + k) = unat mt + n" using le small nn by (subst unat_add_u64_small) linarith+
  have s1: "unat mt * unat ?d + unat ?d + n * unat ?d < 18446744073709551616"
    using small by (simp add: algebra_simps)
  then have l1: "unat (mt2lmt ?d mt) = unat mt * unat ?d" by (intro mt2lmt_nat) linarith
  have "(unat mt + n) * unat ?d < 18446744073709551616" using s1 by (simp add: algebra_simps)
  then have l2: "unat (mt2lmt ?d (mt + k)) = (unat mt + n) * unat ?d"
    using mt2lmt_nat [of "mt + k" ?d] by (simp add: mk)
  let ?o = "unat (lmt_off (set_time (event s))) + unat (HB_start_lmt (event s))"
  have a: "unat (circ_atom (mt2lmt ?d mt) s) = (unat mt * unat ?d - ?o + unat ?d div 2) div unat ?d mod 2097152"
    unfolding circ_atom_def lgbl_d_def l1 [symmetric]
  proof (rule circ_offset_lmt_nat [OF d])
    show "?o \<le> unat (mt2lmt ?d mt)" unfolding l1 by (rule o)
    show "unat (mt2lmt ?d mt) + unat ?d < 18446744073709551616" unfolding l1 using s1 by linarith
  qed
  have o2: "?o \<le> (unat mt + n) * unat ?d" using o by (simp add: algebra_simps)
  have "unat (circ_atom (mt2lmt ?d (mt + k)) s) = ((unat mt + n) * unat ?d - ?o + unat ?d div 2) div unat ?d mod 2097152"
    unfolding circ_atom_def lgbl_d_def l2 [symmetric]
  proof (rule circ_offset_lmt_nat [OF d])
    show "?o \<le> unat (mt2lmt ?d (mt + k))" unfolding l2 by (rule o2)
    show "unat (mt2lmt ?d (mt + k)) + unat ?d < 18446744073709551616"
      unfolding l2 using s1 by (simp only: distrib_right)
  qed
  also have "(unat mt + n) * unat ?d - ?o + unat ?d div 2 = (unat mt * unat ?d - ?o + unat ?d div 2) + n * unat ?d"
    using o by (simp add: algebra_simps)
  also have "\<dots> div unat ?d = (unat mt * unat ?d - ?o + unat ?d div 2) div unat ?d + n"
    using d1 by simp
  finally show ?thesis unfolding a by (simp add: mod_add_left_eq)
qed



text \<open>
  C6: a read delivers the recorded atoms. When the clock has been read and the requested start is
  settled (\<open>dd_start\<close>), the read gives the FPGA the command for that start; if the interrupt arrives
  and the output buffer then holds the atoms \<open>as\<close>, as many as were asked for, it returns their size in
  bytes, having copied them all, once and in order, to the user, records the start for
  \<^verbatim>\<open>LIBERA_IOC_GET_DD_TSTAMP\<close>, and moves the request on by the machine time they cover.
\<close>

theorem dd_read_delivers:
  fixes as l q s2
  defines "n \<equiv> of_nat (length as) :: u32"
  assumes env: "dma_env c" "\<not> lock_intr c s"
    and n: "as \<noteq> []" "dec l \<noteq> 0" "length as * unat (dec l) \<le> 4194304" "length as \<le> room"
    and clock: "libera_get_CTIME c zero_stamp (lock_dd True s) = Some (0, t, s1)"
    and start: "dd_start c (Qts l) t s1 = Some (0, q, s2)"
    and irq: "getBlockedFromFIFO c DD_irq
        (snd (libera_dd_write_CBfifo (circ_atom (lmt (Q_L q)) s2) n (dec l) s2)) = Some (0, x, s3)"
    and ob: "ob_source as (pops (trace s3)) (fpga s3)" "\<not> pm_entry (dd s3)"
  shows "\<exists>l' s'. libera_dd_read c room (32 * n) l s = Some (32 * int (length as), as, l', s') \<and>
    tstamp l' = Q_U q \<and> request (Qts l') = LIBERA_DD_TIME_EXPLICIT_MT \<and>
    ts_mt (Q_U (Qts l')) = ts_mt (Q_U q) + of_nat (length as * unat (dec l)) \<and> klog s' = klog s3"
proof -
  let ?k = "dec l"
  have k1: "1 \<le> unat ?k" using n(2) by (simp add: Suc_le_eq unat_gt_0)
  have le: "length as \<le> 4194304" using mult_le_mono [OF order_refl k1, of "length as"] n(3) by linarith
  have un: "unat n = length as" using le by (simp add: n_def unsigned_of_nat take_bit_nat_eq_self_iff)
  have cnt: "unat (32 * n) = 32 * length as" using le by (simp add: unat_mult_u32_small un)
  have c: "\<not> 32 * n > LIBERA_DD_MAX_INTERVAL * dd_atom_bytes" "32 * n mod dd_atom_bytes = 0" "32 * n div dd_atom_bytes = n" "n \<noteq> 0"
  proof -
    show "\<not> 32 * n > LIBERA_DD_MAX_INTERVAL * dd_atom_bytes"
      using le by (simp add: word_less_nat_alt cnt LIBERA_DD_MAX_INTERVAL_def DD_MAX_NOATOMS_def dd_atom_bytes_def)
    show "32 * n mod dd_atom_bytes = 0" "32 * n div dd_atom_bytes = n"
      by (simp_all add: word_unat_eq_iff unat_mod unat_div cnt un dd_atom_bytes_def)
    show "n \<noteq> 0" using n(1) un by auto
  qed
  have "unat (n * ?k) = length as * unat ?k" using n(3) by (simp add: unat_mult_u32_small un)
  then have cb: "fst (libera_dd_write_CBfifo (circ_atom (lmt (Q_L q)) s2) n ?k s2) = 0"
    using n(3) by (simp add: libera_dd_write_CBfifo_def Let_def word_less_nat_alt DD_MAX_NOATOMS_def)
  obtain s4 where tr: "libera_dd_transfer_OBfifo_DMA c (User room) n s3 = Some (int (length as), as, s4)" "klog s4 = klog s3"
    using transfer_all [OF env(1) ob(1) n(1) _ _ ob(2), of "User room"] le n(4) unfolding n_def by auto
  have by32: "sint (n * dd_atom_bytes) = 32 * int (length as)"
    using le sint_small [of "n * dd_atom_bytes"] by (simp add: dd_atom_bytes_def mult.commute [of n] cnt)
  let ?l = "l\<lparr>Qts := q, tstamp := Q_U q\<rparr>"
  have "dd_fetch c room n (l\<lparr>Qts := q\<rparr>) s2 = dd_out_zero (32 * int (length as)) n as ?l s4"
    using cb irq tr(1) by32 unfolding dd_fetch_def Let_def
    by (simp add: case_prod_unfold n_def [symmetric])
  then have "libera_dd_read c room (32 * n) l s = dd_out_zero (32 * int (length as)) n as ?l s4"
    using env(2) c clock start by (simp add: libera_dd_read_def libera_dd_read_specific_def)
  moreover have "(ucast (n * ?k) :: u64) = of_nat (length as * unat ?k)"
  proof -
    have "length as * unat ?k < 2 ^ 64" using n(3) by simp
    then show ?thesis using \<open>unat (n * ?k) = length as * unat ?k\<close>
      by (intro word_eq_if_unat_eq) (simp add: unsigned_of_nat take_bit_nat_eq_self del: of_nat_mult)
  qed
  ultimately show ?thesis
    using tr(2) by (simp add: dd_out_zero_def dd_out_def Let_def upd_dd_com_def set_irqMask_def writel_def del: of_nat_mult)
qed

text \<open>A system in which the clock and the interrupt have answered already.\<close>

definition dd_ready :: "dd_atom list \<Rightarrow> libera" where
  "dd_ready as =
     fifo_upd (MC_ts T_TRIG_CTIME) (one_stamp 100000) (fifo_upd (SC_ts T_TRIG_CTIME) (one_stamp 5)
       (fifo_upd DD_irq (one_stamp 0) (dd_sys (ob_fpga as))))"

theorem dd_read_delivers_witness:
  "\<exists>l' s'. libera_dd_read dma_ctx 10 96 (zero_dd_local\<lparr>dec := 1, Qts := (Qts zero_dd_local)
       \<lparr>request := LIBERA_DD_TIME_EXPLICIT_MT, Q_L := \<lparr>lst = 0, lmt = 2200\<rparr>\<rparr>\<rparr>) (dd_ready (replicate 3 zero_atom)) =
     Some (96, replicate 3 zero_atom, l', s')"
proof -
  let ?as = "replicate 3 zero_atom" let ?s = "dd_ready ?as"
  let ?l = "zero_dd_local\<lparr>dec := 1, Qts := (Qts zero_dd_local)
       \<lparr>request := LIBERA_DD_TIME_EXPLICIT_MT, Q_L := \<lparr>lst = 0, lmt = 2200\<rparr>\<rparr>\<rparr>"
  let ?t = "\<lparr>lst = 5, lmt = 100000\<rparr>"
  have f: "mc_timestamps (event (lock_dd True ?s)) T_TRIG_CTIME = one_stamp 100000"
    "sc_timestamps (event (lock_dd True ?s)) T_TRIG_CTIME = one_stamp 5"
    by (simp_all add: dd_ready_def upd_dd_com_def)
  have e: "dd_irqevents (dd (lock_dd True ?s)) = one_stamp 0" "\<not> pm_entry (dd (lock_dd True ?s))"
    "fpga (lock_dd True ?s) = ob_fpga ?as" "pops (trace (lock_dd True ?s)) = 0" "g_d (lgbl (lock_dd True ?s)) = 220"
    by (simp_all add: dd_ready_def upd_dd_com_def dd_sys_def libera_bss_def pops_def)
  obtain s1 where s1: "libera_get_CTIME dma_ctx zero_stamp (lock_dd True ?s) = Some (0, ?t, s1)"
    "dd s1 = dd (lock_dd True ?s)" "lgbl s1 = lgbl (lock_dd True ?s)" "fpga s1 = fpga (lock_dd True ?s)"
    "trace s1 = Wr T_SC_EVENTGEN (TRIGGER_BIT T_TRIG_CTIME) # trace (lock_dd True ?s)"
    "modp s1 = modp (lock_dd True ?s)"
    using ctime_at_once [of dma_ctx "lock_dd True ?s" 100000 "[]" 5 "[]" zero_stamp] unfolding f by (auto simp: dma_ctx_def)
  have "wait_lmt dma_ctx ?t 2200 s1 = Some (0, ?t, s1)"
    unfolding wait_lmt_def by (subst waits_decide) (simp_all add: d_fits_def s1(3) e(5))
  moreover have "modp s1 = modp (libera_bss (ob_fpga ?as))"
    using s1(6) by (simp add: dd_ready_def upd_dd_com_def dd_sys_def)
  then have "fst (lmt2lst (flmcdHz (modp s1)) 2200 0 ?t) = 0"
    by (simp add: lmt2lst_exact libera_bss_def LIBERA_FLMC_INITIAL_def dist64_def)
  ultimately obtain q where q: "dd_start dma_ctx (Qts ?l) ?t s1 = Some (0, q, s1)"
    by (auto simp: dd_start_def dd_start_mt_def Let_def case_prod_unfold)
  let ?w = "snd (libera_dd_write_CBfifo (circ_atom (lmt (Q_L q)) s1) 3 1 s1)"
  have w: "dd_irqevents (dd ?w) = one_stamp 0" "\<not> pm_entry (dd ?w)" "fpga ?w = ob_fpga ?as" "pops (trace ?w) = 0"
    using s1 e by (simp_all add: libera_dd_write_CBfifo_def Let_def DD_MAX_NOATOMS_def writel_def)
  obtain g where g: "getBlockedFromFIFO dma_ctx DD_irq ?w = Some (0, 0, unlock_event (fifo_upd DD_irq g (lock_event ?w)))"
    using blocked_at_once [of dma_ctx ?w DD_irq 0 "[]"] w(1) by (auto simp: dma_ctx_def)
  let ?v = "unlock_event (fifo_upd DD_irq g (lock_event ?w))"
  have v: "\<not> pm_entry (dd ?v)" "fpga ?v = ob_fpga ?as" "pops (trace ?v) = 0"
    using w by (simp_all add: unlock_event_def lock_event_def)
  show ?thesis
    using dd_read_delivers [OF dma_ctx_env, of ?s ?as ?l 10 ?t s1 q s1 0 ?v] s1(1) q g v ob_fpga_ok [of ?as]
    by (auto simp: dma_ctx_def numeral_3_eq_3)
qed

end
