(* ===== verification/Pm.thy ===== *)
theory Pm
  imports Dd
begin

text \<open>
  The post-mortem device (\<^verbatim>\<open>drivers/libera/libera_pm.c\<close>) and the acquisition of post-mortem data
  (\<^verbatim>\<open>libera_acq_pm\<close> of \<^verbatim>\<open>ebpp.c\<close>), which takes the data-on-demand device over. Opening and closing
  is shared with the ADC device, whose code is the same.
\<close>

section \<open>Opening and closing a device for reading\<close>

definition open_reader :: "filep \<Rightarrow> common \<Rightarrow> int \<times> common" where
  "open_reader f c =
     (let c = c\<lparr>sem := True\<rparr> in
      if f_write f then (- EACCES, c\<lparr>sem := False\<rparr>)
      else
        let c = (if master_filp c = None then c\<lparr>master_filp := Some (filp f)\<rparr> else c);
            c = c\<lparr>readers := readers c + 1\<rparr>;
            c = c\<lparr>open_count := open_count c + 1\<rparr>
        in (0, c\<lparr>sem := False\<rparr>))"

definition release_reader :: "common \<Rightarrow> int \<times> common" where
  "release_reader c =
     (let c = c\<lparr>open_count := open_count c - 1\<rparr>;
          c = c\<lparr>readers := readers c - 1\<rparr>
      in (0, if readers c = 0 then c\<lparr>master_filp := None\<rparr> else c))"

section \<open>The post-mortem device\<close>

definition libera_pm_open :: "filep \<Rightarrow> libera \<Rightarrow> int \<times> libera" where
  "libera_pm_open f s =
     (let (r, c) = open_reader f (pm_com (pm s)) in (r, s\<lparr>pm := (pm s)\<lparr>pm_com := c\<rparr>\<rparr>))"

definition libera_pm_release :: "filep \<Rightarrow> libera \<Rightarrow> int \<times> libera" where
  "libera_pm_release f s =
     (let (r, c) = release_reader (pm_com (pm s)) in (r, s\<lparr>pm := (pm s)\<lparr>pm_com := c\<rparr>\<rparr>))"

definition lock_pm :: "bool \<Rightarrow> libera \<Rightarrow> libera" where
  "lock_pm b s = s\<lparr>pm := (pm s)\<lparr>pm_com := (pm_com (pm s))\<lparr>sem := b\<rparr>\<rparr>\<rparr>"

text \<open>\<open>left\<close> is the number of bytes the copy to user memory fails to transfer.\<close>

definition libera_pm_read :: "ctx \<Rightarrow> u32 \<Rightarrow> nat \<Rightarrow> libera \<Rightarrow> int \<times> dd_atom list \<times> libera" where
  "libera_pm_read c count left s =
     (if lock_intr c s then (- ERESTARTSYS, [], s)
      else
        let s = lock_pm True s in
        if count > pmsize (modp s) * dd_atom_bytes then (- EINVAL, [], lock_pm False s)
        else if count mod dd_atom_bytes \<noteq> 0 then (- EINVAL, [], lock_pm False s)
        else
          let span_atoms = count div dd_atom_bytes;
              begin = unat (pmsize (modp s) - span_atoms)
          in if left \<noteq> 0 then (- EFAULT, [], lock_pm False s)
             else (sint (span_atoms * dd_atom_bytes), take (unat span_atoms) (drop begin (pm_buf (pm s))),
                   lock_pm False s))"

definition LIBERA_IOC_PM :: u32 where [reg_defs]: "LIBERA_IOC_PM = 128"

definition libera_pm_ioctl :: "ctx \<Rightarrow> filep \<Rightarrow> u32 \<Rightarrow> ucopy \<Rightarrow> libera \<Rightarrow> int \<times> uout \<times> libera" where
  "libera_pm_ioctl c f cmd u s =
     (if IOC_TYPE cmd \<noteq> LIBERA_IOC_MAGIC then (- ENOTTY, No_out, s)
      else if IOC_NR cmd AND LIBERA_IOC_MASK \<noteq> LIBERA_IOC_PM then (- ENOTTY, No_out, s)
      else if range_error cmd u then (- EFAULT, No_out, s)
      else if IOC_DIR cmd = IOC_WRITE \<and> master_filp (pm_com (pm s)) \<noteq> Some (filp f) then (- EPERM, No_out, s)
      else if lock_intr c s then (- ERESTARTSYS, No_out, s)
      else
        let s = lock_pm True s in
        if cmd = LIBERA_IOC_GET_PM_TSTAMP then
          (if to_left u \<noteq> 0 then (int (to_left u), No_out, lock_pm False s)
           else (0, Out_words (words_of_timestamp (pm_tstamp (pm s))), lock_pm False s))
        else (- ENOTTY, No_out, lock_pm False s))"

section \<open>Acquiring post-mortem data\<close>

definition DD_WAIT_STEP :: u32 where [reg_defs]: "DD_WAIT_STEP = 1"

text \<open>
  Getting hold of the data-on-demand device: at most \<open>n + 1\<close> attempts, each waking the process that
  may be asleep in a transfer, so that it notices \<open>pm_entry\<close> and gives up.
\<close>

fun pm_lock_dd :: "nat \<Rightarrow> ctx \<Rightarrow> libera \<Rightarrow> bool \<times> libera" where
  "pm_lock_dd n c s =
     (let s = (if dma_waiter c s then wake_up_interruptible DMA_queue s else s) in
      if \<not> sem (dd_com (dd s)) then (True, lock_dd True s)
      else
        let s = snd (libera_delay_jiffies_interruptible c DD_WAIT_STEP s)
        in case n of 0 \<Rightarrow> (False, s) | Suc n \<Rightarrow> pm_lock_dd n c s)"

declare pm_lock_dd.simps [simp del]

definition set_pm_entry :: "bool \<Rightarrow> libera \<Rightarrow> libera" where
  "set_pm_entry b s = s\<lparr>dd := (dd s)\<lparr>pm_entry := b\<rparr>\<rparr>"

text \<open>
  The start of the stretch: the offset and the size are signed 32-bit numbers, and so is their
  product with the decimation.
\<close>

definition pm_start :: "u64 \<Rightarrow> libera \<Rightarrow> u64" where
  "pm_start t s = t + scast ((param (cfg s) LIBERA_CFG_PMOFFSET - pmsize (modp s)) * g_d (lgbl s))"

text \<open>The part that runs with the lock held; its end releases the lock.\<close>

definition pm_stamp :: "Ltimestamp \<Rightarrow> libera \<Rightarrow> libera" where
  "pm_stamp ev s =
     s\<lparr>pm := (pm s)\<lparr>PMevent := ev,
        pm_tstamp := \<lparr>ts_st = lst2st (lst ev), ts_mt = lmt2mt (g_d (lgbl s)) (lmt ev)\<rparr>\<rparr>\<rparr>"

definition pm_transfer :: "ctx \<Rightarrow> libera \<Rightarrow> (int \<times> libera) option" where
  "pm_transfer c s =
     Option.bind (libera_dd_read_OBfifo_DMA c (pmsize (modp s)) s) (\<lambda>(ret, out, s).
       let s = s\<lparr>pm := (pm s)\<lparr>pm_buf := out @ drop (length out) (pm_buf (pm s))\<rparr>\<rparr>;
           s = set_irqMask (get_irqMask s OR LIBERA_INTERRUPT_DD_MASK) s
       in if ret < 0 then Some (ret, s)
          else if of_int ret < pmsize (modp s) then Some (- EIO, s)
          else Some (0, s))"

definition pm_acquire :: "ctx \<Rightarrow> libera \<Rightarrow> (int \<times> libera) option" where
  "pm_acquire c s =
     (let s = pm_stamp (getFromCircBuf (paired_timestamps (event s) T_TRIG_POST_MORTEM)) s;
          LMTstart = pm_start (lmt (PMevent (pm s))) s
      in Option.bind (libera_get_CTIME c zero_stamp s) (\<lambda>(ret, ctime, s).
           if ret \<noteq> 0 then Some (ret, s)
           else
             Option.bind (wait_lmt c ctime LMTstart s) (\<lambda>(ret, ctime, s).
               if ret \<noteq> 0 then Some (ret, s)
               else
                 let (ret, s) = libera_dd_write_CBfifo (circ_atom LMTstart s) (pmsize (modp s))
                                  (param (cfg s) LIBERA_CFG_PMDEC) s
                 in if ret < 0 then Some (ret, s)
                    else
                      Option.bind (getBlockedFromFIFO c DD_irq s) (\<lambda>(ret, dd_dummy, s).
                        if ret \<noteq> 0 then Some (ret, s) else pm_transfer c s))))"

definition libera_acq_pm :: "ctx \<Rightarrow> libera \<Rightarrow> (int \<times> libera) option" where
  "libera_acq_pm c s =
     (let s = set_pm_entry True s;
          (locked, s) = pm_lock_dd 30 c s;
          s = set_pm_entry False s
      in if \<not> locked then Some (- EBUSY, s)
         else map_option (\<lambda>(ret, s). (ret, lock_dd False s)) (pm_acquire c s))"

section \<open>The transfer leaves the rest of the driver alone\<close>

lemma modp_io [simp]: "modp (snd (readl a s)) = modp (s :: libera)" "modp (writel v a s) = modp (s :: libera)"
  "modp (upd_dma f s) = modp s" "modp (wake_up_interruptible q s) = modp s" "modp (printk_crit k s) = modp s"
  by (simp_all add: readl_def writel_def Let_def upd_dma_def wake_up_interruptible_def printk_crit_def)

lemma modp_start_dma [simp]: "modp (start_dma s) = modp s"
  by (simp add: start_dma_def libera_dma_command_def)

lemma modp_interrupt [simp]: "modp (libera_dma_interrupt e b s) = modp s"
  by (simp add: libera_dma_interrupt_def Let_def case_prod_unfold)

lemma modp_block [simp]: "modp (snd (libera_readlBlock a n s)) = modp (s :: libera)"
  by (induction n arbitrary: a s) (simp_all add: Let_def case_prod_unfold)

lemma modp_completes [simp]: "modp (dma_completes s) = modp s"
  by (simp add: dma_completes_def dmac_copy_def Let_def case_prod_unfold)

lemma modp_completions [simp]: "modp ((dma_completes ^^ n) s) = modp s"
  by (induction n) simp_all

lemma modp_schedule:
  assumes "dma_env c"
  shows "modp (schedule c s) = modp s"
proof -
  obtain n where "wake c s = (dma_completes ^^ n) s" using assms by (auto simp: dma_env_def)
  then have "modp (wake c s) = modp s" by simp
  then show ?thesis by (simp add: schedule_def)
qed

lemma modp_OB_sync:
  assumes "dma_env c"
  shows "modp (snd (OB_sync_loop n c s)) = modp s"
proof (induction n arbitrary: s)
  case 0
  show ?case by (subst OB_sync_loop.simps) (simp add: Let_def case_prod_unfold modp_schedule [OF assms])
next
  case (Suc n)
  show ?case
    by (subst OB_sync_loop.simps) (simp add: Let_def case_prod_unfold modp_schedule [OF assms] Suc.IH)
qed

lemma modp_wait_dma:
  assumes "dma_env c0" "wait_dma c s = Some x" "c = c0"
  shows "modp (snd x) = modp s"
proof -
  have "c = c0 \<longrightarrow> modp (snd x) = modp s"
  proof (rule wait_dma.raw_induct [OF _ assms(2), of "\<lambda>c s x. c = c0 \<longrightarrow> modp (snd x) = modp s"])
    fix f c s x
    assume ih: "\<And>c s x. f c s = Some x \<Longrightarrow> c = c0 \<longrightarrow> modp (snd x) = modp s"
      and b: "(if not_emptyDMA_FIFO (dma_of s) then Some (0, s)
        else if \<not> (sigpend c s \<or> pm_entry (dd s)) then f c (schedule c s) else Some (- ERESTARTSYS, s)) = Some x"
    show "c = c0 \<longrightarrow> modp (snd x) = modp s"
      using b ih [of c "schedule c s" x] modp_schedule [OF assms(1), of s] by (auto split: if_splits)
  qed
  then show ?thesis using assms(3) by simp
qed

lemma modp_restart:
  assumes "dma_env c"
  shows "modp (snd (restart_dma c s)) = modp s"
  by (simp add: restart_dma_def Let_def case_prod_unfold libera_OB_fifo_sync_def modp_OB_sync [OF assms])

lemma modp_body:
  assumes "dma_env c" "transfer_body c tgt n ly ob out s = Some (fl, ly', ob', out', s')"
  shows "modp s' = modp s"
  using assms(2) modp_wait_dma [OF assms(1) _ refl] unfolding transfer_body_def
  by (auto simp: bind_eq_Some_conv Let_def case_prod_unfold modp_restart [OF assms(1)]
      modp_schedule [OF assms(1)] abort_dma_def split: if_splits)


lemma modp_finish [simp]: "modp (snd (finish_transfer n ob s)) = modp s"
  by (simp add: finish_transfer_def Let_def case_prod_unfold)

lemma modp_loop:
  assumes "dma_env c0" "transfer_loop c tgt n ly ob out s = Some x" "c = c0"
  shows "modp (snd (snd x)) = modp s"
proof -
  let ?P = "\<lambda>c (tgt :: dma_target) (n :: u32) (ly :: u32) (ob :: u32) (out :: dd_atom list) s x. c = c0 \<longrightarrow> modp (snd (snd x)) = modp s"
  have "?P c tgt n ly ob out s x"
  proof (rule transfer_loop.raw_induct [OF _ assms(2), of ?P])
    fix f c tgt n ly ob out s x
    assume ih: "\<And>c tgt n ly ob out s x. f c tgt n ly ob out s = Some x \<Longrightarrow> ?P c tgt n ly ob out s x"
      and b: "Option.bind (transfer_body c tgt n ly ob out s) (\<lambda>(fl, last_yield, OBAtoms, out, s).
          case fl of Return r \<Rightarrow> Some (r, out, s)
          | Break \<Rightarrow> (let (r, s) = finish_transfer n OBAtoms s in Some (r, out, s))
          | Continue \<Rightarrow> if remaining (dma_of s) \<noteq> 0 \<or> not_emptyDMA_FIFO (dma_of s)
              then f c tgt n last_yield OBAtoms out s
              else (let (r, s) = finish_transfer n OBAtoms s in Some (r, out, s))) = Some x"
    obtain fl ly' ob' out' s' where t: "transfer_body c tgt n ly ob out s = Some (fl, ly', ob', out', s')"
      using b by (auto simp: bind_eq_Some_conv)
    show "?P c tgt n ly ob out s x"
      using b t ih [of c tgt n ly' ob' out' s' x] modp_body [of c tgt n ly ob out s fl ly' ob' out' s'] assms(1)
      by (auto simp: case_prod_unfold Let_def split: flow.splits if_splits)
  qed
  then show ?thesis using assms(3) by simp
qed

lemma modp_transfer:
  assumes "dma_env c" "libera_dd_transfer_OBfifo_DMA c tgt n s = Some (r, out, s')"
  shows "modp s' = modp s"
  using assms(2) modp_loop [OF assms(1), of c tgt n "jiffies c s" 0 "[]" _ "(r, out, s')"]
  unfolding libera_dd_transfer_OBfifo_DMA_def
  by (auto simp: Let_def case_prod_unfold libera_OB_fifo_sync_def modp_OB_sync [OF assms(1)] split: if_splits)

section \<open>Getting hold of the device\<close>

definition pm_attempt :: "ctx \<Rightarrow> libera \<Rightarrow> libera" where
  "pm_attempt c s = schedule c (if dma_waiter c s then wake_up_interruptible DMA_queue s else s)"

text \<open>At most \<open>n + 1\<close> attempts are made, and the first that finds the lock free takes it.\<close>

lemma pm_lock_attempts:
  "pm_lock_dd n c s =
    (case find (\<lambda>k. \<not> sem (dd_com (dd ((pm_attempt c ^^ k) s)))) [0..<Suc n] of
       None \<Rightarrow> (False, (pm_attempt c ^^ Suc n) s)
     | Some k \<Rightarrow> (let t = (pm_attempt c ^^ k) s
                  in (True, lock_dd True (if dma_waiter c t then wake_up_interruptible DMA_queue t else t))))"
proof (induction n arbitrary: s)
  case 0
  show ?case
    by (subst pm_lock_dd.simps)
      (simp add: Let_def libera_delay_jiffies_interruptible_def pm_attempt_def wake_up_interruptible_def)
next
  case (Suc n)
  have find_map: "find P (map f xs) = map_option f (find (P \<circ> f) xs)" for P and f :: "nat \<Rightarrow> nat" and xs
    by (induction xs) simp_all
  have r: "find (\<lambda>k. \<not> sem (dd_com (dd ((pm_attempt c ^^ k) s)))) [0..<Suc (Suc n)] =
      (if \<not> sem (dd_com (dd s)) then Some 0
       else map_option Suc (find (\<lambda>k. \<not> sem (dd_com (dd ((pm_attempt c ^^ k) (pm_attempt c s))))) [0..<Suc n]))"
  proof -
    have u: "[0..<Suc (Suc n)] = 0 # map Suc [0..<Suc n]" by (simp add: upt_conv_Cons map_Suc_upt del: upt_Suc)
    show ?thesis unfolding u by (simp add: find_map comp_def funpow_swap1 del: upt_Suc)
  qed
  have e: "pm_lock_dd (Suc n) c s =
      (if \<not> sem (dd_com (dd s)) then (True, lock_dd True (if dma_waiter c s then wake_up_interruptible DMA_queue s else s))
       else pm_lock_dd n c (pm_attempt c s))"
    by (subst pm_lock_dd.simps)
      (simp add: Let_def libera_delay_jiffies_interruptible_def pm_attempt_def wake_up_interruptible_def)
  show ?case
    unfolding e r Suc.IH
    by (auto simp: Let_def funpow_swap1 split: option.split)
qed

section \<open>What is acquired is what is read\<close>

lemma pm_read_last:
  assumes "unat (pmsize (modp s)) = length as" "take (length as) (pm_buf (pm s)) = as" "length as \<le> 4194304"
    and "k \<le> length as" "\<not> lock_intr c s"
  shows "libera_pm_read c (32 * of_nat k) 0 s = (32 * int k, drop (length as - k) as, lock_pm False (lock_pm True s))"
proof -
  have uk: "unat (of_nat k :: u32) = k" using assms(3,4) by (simp add: unsigned_of_nat take_bit_nat_eq_self_iff)
  then have c: "unat (32 * of_nat k :: u32) = 32 * k" using assms(3,4) by (simp add: unat_mult_u32_small)
  have m: "unat (pmsize (modp s) * dd_atom_bytes) = 32 * length as"
    using assms(1,3) by (simp add: dd_atom_bytes_def unat_mult_u32_small)
  have d: "(32 * of_nat k :: u32) div dd_atom_bytes = of_nat k" "(32 * of_nat k :: u32) mod dd_atom_bytes = 0"
    by (simp_all add: word_unat_eq_iff unat_mod unat_div c uk dd_atom_bytes_def)
  have le: "\<not> 32 * of_nat k > pmsize (modp s) * dd_atom_bytes" "of_nat k \<le> pmsize (modp s)"
    using assms(1,4) by (simp_all add: word_less_nat_alt word_le_nat_alt c m uk)
  have b: "unat (pmsize (modp s) - of_nat k) = length as - k" using le(2) by (simp add: unat_sub_le assms(1) uk)
  have "sint (of_nat k * dd_atom_bytes) = 32 * int k"
    using assms(3,4) sint_small [of "of_nat k * dd_atom_bytes"] by (simp add: dd_atom_bytes_def mult.commute [of "of_nat k"] c)
  moreover have "take k (drop (length as - k) (pm_buf (pm s))) = drop (length as - k) as"
  proof -
    have "take k (drop (length as - k) (pm_buf (pm s))) = drop (length as - k) (take (length as) (pm_buf (pm s)))"
      using assms(4) by (simp add: drop_take)
    then show ?thesis by (simp only: assms(2))
  qed
  ultimately show ?thesis
    using assms(5) le(1) d by (simp add: libera_pm_read_def Let_def b uk lock_pm_def)
qed

lemma modp_set_irqMask: "modp (set_irqMask m s) = modp s"
  by (simp add: set_irqMask_def writel_def)


text \<open>A system with a buffer of three atoms in which the clock and the interrupt have answered already.\<close>

definition pm_ready :: "dd_atom list \<Rightarrow> libera" where
  "pm_ready as = (let s = dd_ready as in
     s\<lparr>modp := (modp s)\<lparr>pmsize := of_nat (length as)\<rparr>,
       cfg := (cfg s)\<lparr>param := (\<lambda>i. if i = LIBERA_CFG_PMDEC then 1 else if i = LIBERA_CFG_PMOFFSET then 13 else 0)\<rparr>\<rparr>)"


end
