(* ===== verification/Adc.thy ===== *)
theory Adc
  imports Pm
begin

text \<open>
  The ADC device (\<^verbatim>\<open>drivers/libera/libera_adc.c\<close>): every read captures the whole buffer of 1024 atoms
  of four channels from the FPGA, transforms them, and copies as many as were asked for.
\<close>

definition LIBERA_ADC_BUFFER_ATOMS :: nat where [reg_defs]: "LIBERA_ADC_BUFFER_ATOMS = 1024"

text \<open>The size of an atom in bytes.\<close>

definition adc_atom_bytes :: u32 where [reg_defs]: "adc_atom_bytes = 8"

definition libera_adc_open :: "filep \<Rightarrow> libera \<Rightarrow> int \<times> libera" where
  "libera_adc_open f s =
     (let (r, c) = open_reader f (adc_com (adc s)) in (r, s\<lparr>adc := (adc s)\<lparr>adc_com := c\<rparr>\<rparr>))"

definition libera_adc_release :: "filep \<Rightarrow> libera \<Rightarrow> int \<times> libera" where
  "libera_adc_release f s =
     (let (r, c) = release_reader (adc_com (adc s)) in (r, s\<lparr>adc := (adc s)\<lparr>adc_com := c\<rparr>\<rparr>))"

definition libera_adc_llseek :: "u64 \<Rightarrow> int \<Rightarrow> int" where
  "libera_adc_llseek time whence = (if whence = 0 \<or> whence = 1 \<or> whence = 2 then 0 else - EINVAL)"

definition lock_adc :: "bool \<Rightarrow> libera \<Rightarrow> libera" where
  "lock_adc b s = s\<lparr>adc := (adc s)\<lparr>adc_com := (adc_com (adc s))\<lparr>sem := b\<rparr>\<rparr>\<rparr>"

text \<open>The atom is filled by its two 32-bit words, each with its low half first.\<close>

definition adc_of_words :: "u32 \<Rightarrow> u32 \<Rightarrow> adc_atom" where
  "adc_of_words cd ab =
     \<lparr>ChD = ucast cd, ChC = ucast (drop_bit 16 cd), ChB = ucast ab, ChA = ucast (drop_bit 16 ab)\<rparr>"

definition put_adc :: "nat \<Rightarrow> adc_atom \<Rightarrow> libera \<Rightarrow> libera" where
  "put_adc i a s = s\<lparr>adc := (adc s)\<lparr>adc_buf := (adc_buf (adc s))(i := a)\<rparr>\<rparr>"

definition adc_read_atom :: "nat \<Rightarrow> libera \<Rightarrow> int \<times> libera" where
  "adc_read_atom i s =
     (let (cd, s) = readl (ADC_CHAN_CD + of_nat i * 4) s;
          (ab, s) = readl (ADC_CHAN_AB + of_nat i * 4) s;
          s = put_adc i (adc_of_words cd ab) s
      in case adc_op (adc s) of
           None \<Rightarrow> (0, s)
         | Some f \<Rightarrow> (let (r, a) = f (adc_buf (adc s) i) in (r, put_adc i a s)))"

text \<open>The loop over the buffer, which stops when a transformation fails; \<open>n\<close> atoms are left.\<close>

fun adc_capture :: "nat \<Rightarrow> nat \<Rightarrow> libera \<Rightarrow> bool \<times> libera" where
  "adc_capture 0 i s = (True, s)"
| "adc_capture (Suc n) i s =
     (let (r, s) = adc_read_atom i s in if r \<noteq> 0 then (False, s) else adc_capture n (Suc i) s)"

text \<open>
  Reading; \<open>room\<close> is how many atoms the user's buffer takes before a copy fails, in which case the
  code returns with the lock held.
\<close>

definition libera_adc_read :: "ctx \<Rightarrow> u32 \<Rightarrow> nat \<Rightarrow> libera \<Rightarrow> int \<times> adc_atom list \<times> libera" where
  "libera_adc_read c count room s =
     (if count = 0 then (0, [], s)
      else if lock_intr c s then (- ERESTARTSYS, [], s)
      else
        let s = lock_adc True s in
        if count > of_nat LIBERA_ADC_BUFFER_ATOMS * adc_atom_bytes then (- EINVAL, [], lock_adc False s)
        else if count mod adc_atom_bytes \<noteq> 0 then (- EINVAL, [], lock_adc False s)
        else
          let span_atoms = unat (count div adc_atom_bytes);
              (ok, s) = adc_capture LIBERA_ADC_BUFFER_ATOMS 0 s
          in if \<not> ok then (- EFAULT, [], lock_adc False s)
             else if room < span_atoms then (- EFAULT, map (adc_buf (adc s)) [0..<room], s)
             else (8 * int span_atoms, map (adc_buf (adc s)) [0..<span_atoms], lock_adc False s))"

section \<open>What a read returns\<close>

text \<open>The value of a channel as the transformation leaves it: 12 bits, centred.\<close>

definition centred :: "u16 \<Rightarrow> int" where
  "centred x = (if unat x > 2048 then int (unat x) - 4096 else int (unat x))"

definition channels :: "adc_atom \<Rightarrow> int list" where
  "channels a = [sint (ChD a), sint (ChC a), sint (ChB a), sint (ChA a)]"

lemma sint_small16: "unat (x :: u16) < 32768 \<Longrightarrow> sint x = int (unat x)"
proof -
  assume "unat x < 32768"
  then have "int (unat x) < 32768" by linarith
  then have u: "uint x < 32768" by simp
  have "sint x = signed_take_bit 15 (uint x)" by (simp add: sint_uint)
  also have "\<dots> = uint x"
    using u by (intro signed_take_bit_int_eq_self) (simp_all add: order_trans [OF _ unsigned_greater_eq])
  finally show ?thesis by simp
qed

lemma sint_of_int16: "- 32768 \<le> v \<Longrightarrow> v < 32768 \<Longrightarrow> sint (word_of_int v :: u16) = v"
  by (simp add: signed_of_int signed_take_bit_int_eq_self del: sint_sbintrunc')

lemma transform_centred:
  assumes "unat (x :: u16) < 4096"
  shows "sint (transform_channel x) = centred x"
proof (cases "unat x > 2048")
  case True
  have s: "sint x = int (unat x)" using assms by (intro sint_small16) simp
  have k: "sint (2048 :: u16) = 2048" by simp
  have "2048 <s x" unfolding word_sless_alt k s using True by linarith
  moreover have "x - 4096 = word_of_int (int (unat x) - 4096)" by simp
  moreover have "sint (word_of_int (int (unat x) - 4096) :: u16) = int (unat x) - 4096"
    using assms by (intro sint_of_int16) linarith+
  ultimately show ?thesis using True by (simp only: transform_channel_def centred_def if_True)
next
  case False
  have s: "sint x = int (unat x)" using assms by (intro sint_small16) simp
  have k: "sint (2048 :: u16) = 2048" by simp
  have "\<not> 2048 <s x" unfolding word_sless_alt k s using False by linarith
  then show ?thesis using False s by (simp add: transform_channel_def centred_def)
qed

definition adc_words :: "u32 \<Rightarrow> u32 \<Rightarrow> u16 list" where
  "adc_words cd ab = [ucast cd, ucast (drop_bit 16 cd), ucast ab, ucast (drop_bit 16 ab)]"

definition adc_value :: "libera \<Rightarrow> adc_atom \<Rightarrow> adc_atom" where
  "adc_value s a = (case adc_op (adc s) of None \<Rightarrow> a | Some f \<Rightarrow> snd (f a))"

lemma adc_value_channels:
  assumes "adc_op (adc s) = get_adc_transform s"
    and "\<not> LIBERA_IS_BRILLIANCE (feature (lgbl s)) \<Longrightarrow> \<forall>x \<in> set (adc_words cd ab). unat x < 4096"
  shows "channels (adc_value s (adc_of_words cd ab)) =
    map (if LIBERA_IS_BRILLIANCE (feature (lgbl s)) then sint else centred) (adc_words cd ab)"
  using assms
  by (auto simp: adc_value_def get_adc_transform_def adc_words_def adc_of_words_def channels_def
      ebpp_transform_adc_def Let_def transform_centred)

lemma adc_io [simp]: "adc (snd (readl a s)) = adc (s :: libera)"
  by (simp add: readl_def Let_def)

lemma adc_put [simp]: "adc_com (adc (put_adc i a s)) = adc_com (adc s)" "adc_op (adc (put_adc i a s)) = adc_op (adc s)"
  "adc_buf (adc (put_adc i a s)) = (adc_buf (adc s))(i := a)" "fpga (put_adc i a s) = fpga s"
  by (simp_all add: put_adc_def)

lemma capture_buffer:
  assumes "\<And>f a. adc_op (adc s) = Some f \<Longrightarrow> fst (f a) = 0"
    and "\<And>tr j. fpga s tr (ADC_CHAN_CD + of_nat j * 4) = cd j" "\<And>tr j. fpga s tr (ADC_CHAN_AB + of_nat j * 4) = ab j"
  shows "fst (adc_capture n i s) \<and>
    adc_com (adc (snd (adc_capture n i s))) = adc_com (adc s) \<and>
    (\<forall>j. adc_buf (adc (snd (adc_capture n i s))) j =
       (if i \<le> j \<and> j < i + n then adc_value s (adc_of_words (cd j) (ab j)) else adc_buf (adc s) j))"
  using assms
proof (induction n arbitrary: i s)
  case 0
  then show ?case by auto
next
  case (Suc n)
  obtain r t where t: "adc_read_atom i s = (r, t)" by (cases "adc_read_atom i s")
  have h: "r = 0 \<and> adc_com (adc t) = adc_com (adc s) \<and> adc_op (adc t) = adc_op (adc s) \<and> fpga t = fpga s \<and>
      adc_buf (adc t) = (adc_buf (adc s))(i := adc_value s (adc_of_words (cd i) (ab i)))"
    using t Suc.prems by (auto simp: adc_read_atom_def Let_def case_prod_unfold adc_value_def split: option.splits)
  have v: "adc_value t = adc_value s" using h by (simp add: adc_value_def fun_eq_iff)
  have "fst (adc_capture n (Suc i) t) \<and>
    adc_com (adc (snd (adc_capture n (Suc i) t))) = adc_com (adc t) \<and>
    (\<forall>j. adc_buf (adc (snd (adc_capture n (Suc i) t))) j =
       (if Suc i \<le> j \<and> j < Suc i + n then adc_value t (adc_of_words (cd j) (ab j)) else adc_buf (adc t) j))"
    using h Suc.prems by (intro Suc.IH) simp_all
  moreover have "adc_capture (Suc n) i s = adc_capture n (Suc i) t" using h t by simp
  ultimately show ?case using h v by (auto simp: le_less Suc_le_eq)
qed

text \<open>
  C34: a read of the ADC returns the samples of the first \<open>n\<close> atoms, in order, each with channels D, C,
  B and A from the two words the FPGA holds for it: unchanged on a Brilliance, and elsewhere, where
  samples have 12 bits, as the signed value they stand for. It returns with the lock free; but when
  the user's memory takes only \<open>room < n\<close> atoms it returns \<^verbatim>\<open>-EFAULT\<close> with the lock still held, so that
  every later read of the device blocks.
\<close>

theorem adc_read_samples:
  fixes s cd ab n
  defines "bril \<equiv> LIBERA_IS_BRILLIANCE (feature (lgbl s))"
  assumes "\<not> lock_intr c s" "0 < n" "n \<le> 1024" and op: "adc_op (adc s) = get_adc_transform s"
    and words: "\<And>tr j. fpga s tr (ADC_CHAN_CD + of_nat j * 4) = cd j" "\<And>tr j. fpga s tr (ADC_CHAN_AB + of_nat j * 4) = ab j"
    and bits: "\<not> bril \<Longrightarrow> \<forall>j. \<forall>x \<in> set (adc_words (cd j) (ab j)). unat x < 4096"
  shows "\<exists>out s'. libera_adc_read c (8 * of_nat n) room s = (if room < n then - EFAULT else 8 * int n, out, s') \<and>
    map channels out = map (\<lambda>j. map (if bril then sint else centred) (adc_words (cd j) (ab j))) [0..<min room n] \<and>
    (sem (adc_com (adc s')) \<longleftrightarrow> room < n)"
proof -
  let ?n = "of_nat n :: u32" let ?s = "lock_adc True s"
  have un: "unat ?n = n" using assms(4) by (simp add: unsigned_of_nat take_bit_nat_eq_self_iff)
  then have c8: "unat (8 * ?n) = 8 * n" using assms(4) by (simp add: unat_mult_u32_small)
  have c: "8 * ?n \<noteq> 0" "\<not> 8 * ?n > of_nat LIBERA_ADC_BUFFER_ATOMS * adc_atom_bytes"
    "8 * ?n mod adc_atom_bytes = 0" "8 * ?n div adc_atom_bytes = ?n"
  proof -
    show "8 * ?n \<noteq> 0" using c8 assms(3) by (metis mult_is_0 neq0_conv unsigned_0 zero_neq_numeral)
    show "\<not> 8 * ?n > of_nat LIBERA_ADC_BUFFER_ATOMS * adc_atom_bytes"
      using assms(4) by (simp add: word_less_nat_alt c8 LIBERA_ADC_BUFFER_ATOMS_def adc_atom_bytes_def)
    show "8 * ?n mod adc_atom_bytes = 0" "8 * ?n div adc_atom_bytes = ?n"
      by (simp_all add: word_unat_eq_iff unat_mod unat_div c8 un adc_atom_bytes_def)
  qed
  have l: "adc_op (adc ?s) = adc_op (adc s)" "fpga ?s = fpga s" "sem (adc_com (adc ?s))"
    by (simp_all add: lock_adc_def)
  have tot: "fst (f a) = 0" if "adc_op (adc ?s) = Some f" for f a
    using that op unfolding l(1) by (auto simp: get_adc_transform_def ebpp_transform_adc_def Let_def split: if_splits)
  define t where "t = snd (adc_capture 1024 0 ?s)"
  have cap: "adc_capture 1024 0 ?s = (True, t)" "adc_com (adc t) = adc_com (adc ?s)"
    "\<And>j. j < 1024 \<Longrightarrow> adc_buf (adc t) j = adc_value s (adc_of_words (cd j) (ab j))"
    using capture_buffer [where s = ?s and cd = cd and ab = ab and n = 1024 and i = 0] tot words unfolding l(2) t_def
    by (auto simp: prod_eq_iff adc_value_def l(1))
  have ch: "map channels (map (adc_buf (adc t)) [0..<m]) =
      map (\<lambda>j. map (if bril then sint else centred) (adc_words (cd j) (ab j))) [0..<m]" if "m \<le> n" for m
    using that assms(4) bits adc_value_channels [OF op] by (auto simp: cap(3) bril_def)
  show ?thesis
  proof (cases "room < n")
    case True
    then have "libera_adc_read c (8 * ?n) room s = (- EFAULT, map (adc_buf (adc t)) [0..<room], t)"
      using assms(2) c cap(1) by (simp add: libera_adc_read_def Let_def un LIBERA_ADC_BUFFER_ATOMS_def)
    then show ?thesis using True ch [of room] cap(2) l(3) by (simp add: min_def)
  next
    case False
    then have "libera_adc_read c (8 * ?n) room s = (8 * int n, map (adc_buf (adc t)) [0..<n], lock_adc False t)"
      using assms(2) c cap(1) by (simp add: libera_adc_read_def Let_def un LIBERA_ADC_BUFFER_ATOMS_def)
    then show ?thesis using False ch [of n] by (simp add: min_def lock_adc_def)
  qed
qed

theorem adc_read_samples_witness:
  "\<exists>out s'. libera_adc_read dma_ctx 16 5 ((libera_bss (\<lambda>_ _. 0x08010FFF))\<lparr>adc := (adc (libera_bss (\<lambda>_ _. 0)))\<lparr>adc_op := Some ebpp_transform_adc\<rparr>\<rparr>) = (16, out, s') \<and>
     map channels out = [[-1, -2047, -1, -2047], [-1, -2047, -1, -2047]]"
proof -
  let ?s = "(libera_bss (\<lambda>_ _. 0x08010FFF))\<lparr>adc := (adc (libera_bss (\<lambda>_ _. 0)))\<lparr>adc_op := Some ebpp_transform_adc\<rparr>\<rparr>"
  have b: "\<not> LIBERA_IS_BRILLIANCE (feature (lgbl ?s))" by (simp add: libera_bss_def LIBERA_IS_BRILLIANCE_def LIBERA_IS_BPM_def LIBERA_INS_TYPE_def reg_defs)
  have w: "adc_words 0x08010FFF 0x08010FFF = [0xFFF, 0x801, 0xFFF, 0x801]" by (simp add: adc_words_def)
  have c: "centred 0xFFF = -1" "centred 0x801 = -2047" by (simp_all add: centred_def)
  have "\<exists>out s'. libera_adc_read dma_ctx (8 * of_nat 2) 5 ?s = (if 5 < (2::nat) then - EFAULT else 8 * int 2, out, s') \<and>
    map channels out = map (\<lambda>j. map centred (adc_words 0x08010FFF 0x08010FFF)) [0..<min 5 2] \<and>
    (sem (adc_com (adc s')) \<longleftrightarrow> 5 < (2::nat))"
    using adc_read_samples [of dma_ctx ?s 2 "\<lambda>_. 0x08010FFF" "\<lambda>_. 0x08010FFF" 5] b w
    by (simp add: dma_ctx_def get_adc_transform_def libera_bss_def)
  then show ?thesis by (auto simp: w c numeral_2_eq_2)
qed

end
