(* ===== verification/Event_Dev.thy ===== *)
theory Event_Dev
  imports Pm
begin

text \<open>
  The event device (\<^verbatim>\<open>drivers/libera/libera_event.c\<close>): opening and closing with the triggers a file has
  enabled, the ioctl commands, the blocking read of events and poll.
\<close>

section \<open>Opening and closing\<close>

text \<open>\<^verbatim>\<open>struct libera_event_local\<close>, allocated for every open file.\<close>

record event_local =
  l_sc_trigVec :: u32
  l_mc_trigVec :: u32

definition upd_event :: "(event_dev \<Rightarrow> event_dev) \<Rightarrow> libera \<Rightarrow> libera" where
  "upd_event g s = s\<lparr>event := g (event s)\<rparr>"

definition upd_event_com :: "(common \<Rightarrow> common) \<Rightarrow> libera \<Rightarrow> libera" where
  "upd_event_com g s = upd_event (\<lambda>e. e\<lparr>ev_com := g (ev_com e)\<rparr>) s"

definition flush_events :: "libera \<Rightarrow> libera" where
  "flush_events s = upd_event (\<lambda>e. e\<lparr>events := flush_eventFIFO (events e)\<rparr>) s"

text \<open>\<open>mem\<close> tells whether the allocation succeeds.\<close>

definition libera_event_open :: "bool \<Rightarrow> filep \<Rightarrow> libera \<Rightarrow> int \<times> event_local option \<times> libera" where
  "libera_event_open mem f s =
     (let s = lock_event s in
      if \<not> mem then (- ENOMEM, None, unlock_event s)
      else
        let l = \<lparr>l_sc_trigVec = 0, l_mc_trigVec = 0\<rparr> in
        if f_write f \<and> master_filp (ev_com (event s)) \<noteq> None then (- EBUSY, Some l, unlock_event s)
        else
          let s = (if f_write f then
                     let s = upd_event_com (\<lambda>c. c\<lparr>master_filp := Some (filp f)\<rparr>) s;
                         s = flush_events s
                     in upd_event_com (\<lambda>c. c\<lparr>writers := writers c + 1\<rparr>) s
                   else s);
              s = (if f_read f then upd_event_com (\<lambda>c. c\<lparr>readers := readers c + 1\<rparr>) s else s);
              s = upd_event_com (\<lambda>c. c\<lparr>open_count := open_count c + 1\<rparr>) s
          in (0, Some l, unlock_event s))"

definition libera_event_release :: "event_local \<Rightarrow> filep \<Rightarrow> libera \<Rightarrow> int \<times> libera" where
  "libera_event_release l f s =
     (let s = upd_event_com (\<lambda>c. c\<lparr>open_count := open_count c - 1\<rparr>) s;
          s = (if f_read f then
                 let s = upd_event_com (\<lambda>c. c\<lparr>readers := readers c - 1\<rparr>) s in
                 if \<not> f_write f then
                   let s = upd_event (\<lambda>e. e\<lparr>mc_trigVec := mc_trigVec e AND NOT (l_mc_trigVec l),
                                            sc_trigVec := sc_trigVec e AND NOT (l_sc_trigVec l)\<rparr>) s;
                       s = writel (sc_trigVec (event s) OR 0x80000000) T_SC_TRIGGER_MASK s
                   in writel (mc_trigVec (event s) OR 0x80000000) T_MC_TRIGGER_MASK s
                 else s
               else s);
          s = (if f_write f then
                 let s = upd_event_com (\<lambda>c. c\<lparr>writers := writers c - 1\<rparr>) s in
                 if writers (ev_com (event s)) = 0 then
                   let s = upd_event_com (\<lambda>c. c\<lparr>master_filp := None\<rparr>) s;
                       s = s\<lparr>lgbl := (lgbl s)\<lparr>event_mask := 0\<rparr>\<rparr>
                   in flush_events s
                 else s
               else s)
      in (0, s))"

section \<open>Commands\<close>

definition TRIG_EVENTS_MAX :: nat where [reg_defs]: "TRIG_EVENTS_MAX = 11"

text \<open>
  Flushing the FIFOs of the triggers about to be enabled. The mask starts at the first trigger in
  every pass, but the index \<open>i\<close> goes on from where it was. The FIFOs are an array of 11; the result
  is the list of indices flushed, or \<open>None\<close> when one of them is outside, which is undefined in C.
\<close>

fun flush_indices :: "nat \<Rightarrow> u32 \<Rightarrow> nat \<Rightarrow> nat list option" where
  "flush_indices 0 arg i = None"
| "flush_indices (Suc n) arg i =
     (if arg AND TRIG_VECTOR = 0 then Some []
      else case next_trigger 32 arg TRIG_ZERO i of
             None \<Rightarrow> None
           | Some (m, i) \<Rightarrow>
               if i < TRIG_EVENTS_MAX then map_option ((#) i) (flush_indices n (arg AND NOT m) i) else None)"

definition flush_sc :: "nat list \<Rightarrow> libera \<Rightarrow> libera" where
  "flush_sc is s = fold (\<lambda>i. upd_event (\<lambda>e. e\<lparr>sc_timestamps := (sc_timestamps e)(i := flushFIFO (sc_timestamps e i))\<rparr>)) is s"

definition flush_mc :: "nat list \<Rightarrow> libera \<Rightarrow> libera" where
  "flush_mc is s = fold (\<lambda>i. upd_event (\<lambda>e. e\<lparr>mc_timestamps := (mc_timestamps e)(i := flushFIFO (mc_timestamps e i))\<rparr>)) is s"

definition event_enable_sc :: "event_local \<Rightarrow> u32 \<Rightarrow> libera \<Rightarrow> (int \<times> event_local \<times> libera) option" where
  "event_enable_sc l arg s =
     (if arg = 0 \<or> arg AND not_TRIG_ALL_MASK \<noteq> 0 then Some (- EINVAL, l, s)
      else if arg AND sc_trigVec (event s) \<noteq> 0 then Some (- EBUSY, l, s)
      else
        let l = l\<lparr>l_sc_trigVec := l_sc_trigVec l OR arg\<rparr> in
        map_option (\<lambda>is. (0, l, snd (libera_sctrig_enable (l_sc_trigVec l) (flush_sc is s)))) (flush_indices 10 arg 0))"

definition event_enable_mc :: "event_local \<Rightarrow> u32 \<Rightarrow> libera \<Rightarrow> (int \<times> event_local \<times> libera) option" where
  "event_enable_mc l arg s =
     (if arg = 0 \<or> arg AND not_TRIG_ALL_MASK \<noteq> 0 then Some (- EINVAL, l, s)
      else if arg AND mc_trigVec (event s) \<noteq> 0 then Some (- EBUSY, l, s)
      else
        let l = l\<lparr>l_mc_trigVec := l_mc_trigVec l OR arg\<rparr> in
        map_option (\<lambda>is. (0, l, snd (libera_mctrig_enable (l_mc_trigVec l) (flush_mc is s)))) (flush_indices 10 arg 0))"

text \<open>
  The macros that read a stamp of a trigger the file has enabled; the timeout is one second or, for
  the MC triggers 0 and 1, the largest \<^verbatim>\<open>long\<close>.
\<close>

definition MAX_SCHEDULE_TIMEOUT :: nat where [reg_defs]: "MAX_SCHEDULE_TIMEOUT = 2147483647"

definition event_get_trigger ::
  "ctx \<Rightarrow> u32 \<Rightarrow> nat \<Rightarrow> fifo_ref \<Rightarrow> nat \<Rightarrow> ucopy \<Rightarrow> libera \<Rightarrow> (int \<times> uout \<times> libera) option"
where
  "event_get_trigger c vec X q timeout u s =
     (if vec AND TRIGGER_BIT X = 0 then Some (- EPERM, No_out, s)
      else map_option (\<lambda>(r, ws, s). (r, if r = 0 then Out_words ws else No_out, s))
             (getBlockedFromFIFOuser c q u timeout s))"

text \<open>Copying \<open>ws\<close> to the user and returning what is left.\<close>

definition give :: "ucopy \<Rightarrow> u32 list \<Rightarrow> libera \<Rightarrow> int \<times> uout \<times> libera" where
  "give u ws s = (int (to_left u), if to_left u = 0 then Out_words ws else No_out, s)"

definition words_of_Ltimestamp :: "Ltimestamp \<Rightarrow> u32 list" where
  "words_of_Ltimestamp t = words64 (lst t) @ words64 (lmt t)"

definition arm_set_time :: "u32 \<Rightarrow> libera \<Rightarrow> libera" where
  "arm_set_time flag s =
     (let s = set_param LIBERA_CFG_TRIGMODE LIBERA_TRIGMODE_SET s
      in upd_event (\<lambda>e. e\<lparr>set_time := (set_time e)\<lparr>update := update (set_time e) OR flag\<rparr>\<rparr>) s)"

text \<open>
  The commands that set something. \<^verbatim>\<open>SET_ST\<close> and \<^verbatim>\<open>SET_MT\<close> transfer a packed structure of five words:
  the system time, the machine time and the phase.
\<close>

definition event_set_st :: "ucopy \<Rightarrow> libera \<Rightarrow> int \<times> libera" where
  "event_set_st u s =
     (let st = \<lparr>tv_sec = uword u 0, tv_nsec = uword u 1\<rparr>;
          s = upd_event (\<lambda>e. e\<lparr>set_time := (set_time e)\<lparr>lst_ref := st2lst st\<rparr>\<rparr>) s
      in (int (from_left u), arm_set_time LIBERA_SETTIME_ST s))"

definition event_set_mt :: "ucopy \<Rightarrow> libera \<Rightarrow> int \<times> libera" where
  "event_set_mt u s =
     (let mt = u64_of (uword u 2) (uword u 3); phase = uword u 4 in
      if phase \<ge> g_d (lgbl s) then (- EINVAL, s)
      else
        let s = upd_event (\<lambda>e. e\<lparr>set_time := (set_time e)\<lparr>lmt_ref := mt2lmt (g_d (lgbl s)) mt + ucast phase\<rparr>\<rparr>) s;
            s = arm_set_time LIBERA_SETTIME_MT s
        in (int (from_left u), writel 0xffffffff FAI_COUNTER_RESET s))"

definition event_set_mcpll :: "ucopy \<Rightarrow> libera \<Rightarrow> int \<times> libera" where
  "event_set_mcpll u s =
     (let s = set_param LIBERA_CFG_MCPLL (uword u 0 AND FAI_PLL_STATUS_MASK) s;
          (v, s) = readl FAI_SW_STATUS s;
          s = writel ((v AND NOT FAI_PLL_STATUS_MASK) OR param (cfg s) LIBERA_CFG_MCPLL) FAI_SW_STATUS s
      in (int (from_left u), send_event LIBERA_EVENT_CFG (of_nat LIBERA_CFG_MCPLL) s))"

definition event_set_scpll :: "ucopy \<Rightarrow> libera \<Rightarrow> int \<times> libera" where
  "event_set_scpll u s =
     (let s = set_param LIBERA_CFG_SCPLL (uword u 0 AND FAI_PLL_STATUS_MASK) s
      in (int (from_left u), send_event LIBERA_EVENT_CFG (of_nat LIBERA_CFG_SCPLL) s))"

definition event_fifolen :: "(event_dev \<Rightarrow> nat \<Rightarrow> u64 ring) \<Rightarrow> ucopy \<Rightarrow> libera \<Rightarrow> int \<times> uout \<times> libera" where
  "event_fifolen sel u s =
     (if from_left u \<noteq> 0 then (int (from_left u), No_out, s)
      else
        let fifo = uword u 0 in
        if fifo \<ge> of_nat TRIG_EVENTS_MAX then (- EINVAL, No_out, s)
        else give u [lenFIFO (sel (event s) (unat fifo))] s)"

text \<open>
  The decoder, in the order of its \<^verbatim>\<open>switch\<close>: triggers, settings, times, queues. \<open>arg\<close> is the argument of
  the call where it is a number; \<open>junk\<close> is what the uninitialised local variable for the current time
  holds, which reaches the user when reading the clock fails, since its result is not checked. \<open>None\<close>
  is a call that sleeps for ever, or flushes outside the array.
\<close>

definition event_queue_cmd ::
  "ctx \<Rightarrow> event_local \<Rightarrow> filep \<Rightarrow> u32 \<Rightarrow> ucopy \<Rightarrow> libera \<Rightarrow> (int \<times> uout \<times> event_local \<times> libera) option"
where
  "event_queue_cmd c l f cmd u s =
     (let fin = (\<lambda>(r, s). Some (r, No_out, l, s));
          out = (\<lambda>(r, w, s). Some (r, w, l, s))
      in
      if cmd = LIBERA_EVENT_GET_FIFOLEN_SC then out (event_fifolen sc_timestamps u s)
      else if cmd = LIBERA_EVENT_GET_FIFOLEN_MC then out (event_fifolen mc_timestamps u s)
      else if cmd = LIBERA_EVENT_GET_MASK then out (give u [event_mask (lgbl s)] s)
      else if cmd = LIBERA_EVENT_SET_MASK then
        (if master_filp (ev_com (event s)) \<noteq> Some (filp f) then fin (- EPERM, s)
         else fin (int (from_left u), s\<lparr>lgbl := (lgbl s)\<lparr>event_mask := uword u 0\<rparr>\<rparr>))
      else if cmd = LIBERA_EVENT_FLUSH then
        (if master_filp (ev_com (event s)) \<noteq> Some (filp f) then fin (- EPERM, s) else fin (0, flush_events s))
      else if cmd = LIBERA_EVENT_ACQ_PM then Option.bind (libera_acq_pm c s) fin
      else if cmd = FIONREAD then
        (if to_left u \<noteq> 0 then fin (- EFAULT, s) else out (0, Out_words [len_eventFIFO (events (event s)) * 8], s))
      else fin (- ENOTTY, s))"

definition event_time_cmd ::
  "ctx \<Rightarrow> Ltimestamp \<Rightarrow> event_local \<Rightarrow> filep \<Rightarrow> u32 \<Rightarrow> ucopy \<Rightarrow> libera \<Rightarrow> (int \<times> uout \<times> event_local \<times> libera) option"
where
  "event_time_cmd c junk l f cmd u s =
     (let fin = (\<lambda>(r, s). Some (r, No_out, l, s));
          out = (\<lambda>(r, w, s). Some (r, w, l, s));
          time = (\<lambda>g. Option.bind (libera_get_CTIME c junk s) (\<lambda>(ret, t, s). out (give u (g t s) s)))
      in
      if cmd = LIBERA_EVENT_GET_CTIME then time (\<lambda>t s. words_of_Ltimestamp t)
      else if cmd = LIBERA_EVENT_GET_ST then time (\<lambda>t s. let st = lst2st (lst t) in [tv_sec st, tv_nsec st])
      else if cmd = LIBERA_EVENT_SET_ST then fin (event_set_st u s)
      else if cmd = LIBERA_EVENT_GET_MT then time (\<lambda>t s. words64 (lmt2mt (g_d (lgbl s)) (lmt t)))
      else if cmd = LIBERA_EVENT_SET_MT then fin (event_set_mt u s)
      else if cmd = LIBERA_EVENT_GET_TRIG_TRIGGER then
        out (give u (words_of_Ltimestamp (getFromCircBuf (paired_timestamps (event s) T_TRIG_TRIGGER))) s)
      else event_queue_cmd c l f cmd u s)"

definition event_setting_cmd ::
  "ctx \<Rightarrow> Ltimestamp \<Rightarrow> event_local \<Rightarrow> filep \<Rightarrow> u32 \<Rightarrow> ucopy \<Rightarrow> libera \<Rightarrow> (int \<times> uout \<times> event_local \<times> libera) option"
where
  "event_setting_cmd c junk l f cmd u s =
     (let fin = (\<lambda>(r, s). Some (r, No_out, l, s));
          out = (\<lambda>(r, w, s). Some (r, w, l, s))
      in
      if cmd = LIBERA_EVENT_GET_FLMC then out (give u [flmcdHz (modp s)] s)
      else if cmd = LIBERA_EVENT_SET_FLMC then
        fin (int (from_left u), if uword u 0 = 0 then s else s\<lparr>modp := (modp s)\<lparr>flmcdHz := uword u 0\<rparr>\<rparr>)
      else if cmd = LIBERA_EVENT_GET_MCPHI then out (give u (words64 (lmt_mcphi (set_time (event s)))) s)
      else if cmd = LIBERA_EVENT_SET_MCPHI then
        fin (int (from_left u), upd_event (\<lambda>e. e\<lparr>set_time := (set_time e)\<lparr>lmt_mcphi := u64_of (uword u 0) (uword u 1)\<rparr>\<rparr>) s)
      else if cmd = LIBERA_EVENT_GET_SCPHI then out (give u (words64 (lst_scphi (set_time (event s)))) s)
      else if cmd = LIBERA_EVENT_SET_SCPHI then
        fin (int (from_left u), upd_event (\<lambda>e. e\<lparr>set_time := (set_time e)\<lparr>lst_scphi := u64_of (uword u 0) (uword u 1)\<rparr>\<rparr>) s)
      else if cmd = LIBERA_EVENT_SET_NCO then fin (int (from_left u), writel (uword u 0) DDC_NCO s)
      else if cmd = LIBERA_EVENT_SET_MCPLL then fin (event_set_mcpll u s)
      else if cmd = LIBERA_EVENT_SET_SCPLL then fin (event_set_scpll u s)
      else event_time_cmd c junk l f cmd u s)"

definition libera_event_cmd ::
  "ctx \<Rightarrow> Ltimestamp \<Rightarrow> event_local \<Rightarrow> filep \<Rightarrow> u32 \<Rightarrow> u32 \<Rightarrow> ucopy \<Rightarrow> libera \<Rightarrow> (int \<times> uout \<times> event_local \<times> libera) option"
where
  "libera_event_cmd c junk l f cmd arg u s =
     (let fin = (\<lambda>(r, s). Some (r, No_out, l, s));
          out = (\<lambda>(r, w, s). Some (r, w, l, s));
          enable = map_option (\<lambda>(r, l, s). (r, No_out, l, s));
          trig = (\<lambda>x. Option.bind x out)
      in
      if cmd = LIBERA_EVENT_SET_DAC_A then
        (if arg AND NOT 0xFFFF \<noteq> 0 then fin (- EINVAL, s) else fin (0, writel arg EVENT_MC_DAC s))
      else if cmd = LIBERA_EVENT_SET_DAC_B then
        (if arg AND NOT 0xFFFF \<noteq> 0 then fin (- EINVAL, s) else fin (0, writel arg EVENT_SC_DAC s))
      else if cmd = LIBERA_EVENT_ENABLE_SC_TRIG then enable (event_enable_sc l arg s)
      else if cmd = LIBERA_EVENT_ENABLE_MC_TRIG then enable (event_enable_mc l arg s)
      else if cmd = LIBERA_EVENT_GET_SC_TRIGGER_19 then fin (- ENOSYS, s)
      else if cmd = LIBERA_EVENT_GET_MC_TRIGGER_19 then fin (- ENOSYS, s)
      else if cmd = LIBERA_EVENT_GET_SC_TRIGGER_10 then trig (event_get_trigger c (l_sc_trigVec l) 6 (SC_ts 6) HZ u s)
      else if cmd = LIBERA_EVENT_GET_SC_TRIGGER_9 then trig (event_get_trigger c (l_sc_trigVec l) 5 (SC_ts 5) HZ u s)
      else if cmd = LIBERA_EVENT_GET_MC_TRIGGER_10 then trig (event_get_trigger c (l_mc_trigVec l) 6 (MC_ts 6) HZ u s)
      else if cmd = LIBERA_EVENT_GET_MC_TRIGGER_1 then
        trig (event_get_trigger c (l_mc_trigVec l) 1 (MC_ts 1) MAX_SCHEDULE_TIMEOUT u s)
      else if cmd = LIBERA_EVENT_GET_MC_TRIGGER_0 then
        trig (event_get_trigger c (l_mc_trigVec l) 0 (MC_ts 0) MAX_SCHEDULE_TIMEOUT u s)
      else if cmd = LIBERA_EVENT_SET_SC_EVENT then fin (0, writel (TRIGGER_BIT 5) T_SC_EVENTGEN s)
      else event_setting_cmd c junk l f cmd u s)"

lemmas event_cmd_defs = libera_event_cmd_def event_setting_cmd_def event_time_cmd_def event_queue_cmd_def

definition libera_event_ioctl ::
  "ctx \<Rightarrow> Ltimestamp \<Rightarrow> event_local \<Rightarrow> filep \<Rightarrow> u32 \<Rightarrow> u32 \<Rightarrow> ucopy \<Rightarrow> libera
     \<Rightarrow> (int \<times> uout \<times> event_local \<times> libera) option"
where
  "libera_event_ioctl c junk l f cmd arg u s =
     (if IOC_TYPE cmd \<noteq> LIBERA_EVENT_MAGIC \<and> cmd \<noteq> FIONREAD then Some (- ENOTTY, No_out, l, s)
      else if range_error cmd u then Some (- EFAULT, No_out, l, s)
      else libera_event_cmd c junk l f cmd arg u s)"

section \<open>Reading events\<close>

definition event_bytes :: nat where [reg_defs]: "event_bytes = 8"

partial_function (option) wait_event :: "ctx \<Rightarrow> libera \<Rightarrow> (int \<times> libera) option" where
  "wait_event c s =
     (if not_empty_eventFIFO (events (event s)) then Some (0, s)
      else if \<not> sigpend c s then wait_event c (lock_event (schedule c (unlock_event s)))
      else Some (- ERESTARTSYS, s))"

text \<open>The copying loop; \<open>room\<close> is how many events the user's buffer takes before a copy fails.\<close>

definition event_copy ::
  "nat \<Rightarrow> nat \<Rightarrow> int \<Rightarrow> libera_event list \<Rightarrow> libera_event ring \<Rightarrow> int \<times> libera_event list \<times> libera_event ring"
where
  "event_copy = copy_out getFrom_eventFIFO (int event_bytes)"

definition libera_event_read ::
  "ctx \<Rightarrow> filep \<Rightarrow> nat \<Rightarrow> nat \<Rightarrow> libera \<Rightarrow> (int \<times> libera_event list \<times> libera) option"
where
  "libera_event_read c f count room s =
     (if lock_intr c s then Some (- ERESTARTSYS, [], s)
      else
        let s = lock_event s in
        if f_nonblock f \<and> empty_eventFIFO (events (event s)) then Some (- EAGAIN, [], unlock_event s)
        else if count = 0 then Some (0, [], unlock_event s)
        else if count mod event_bytes \<noteq> 0 then Some (- EINVAL, [], unlock_event s)
        else
          Option.bind (if empty_eventFIFO (events (event s)) then wait_event c s else Some (0, s)) (\<lambda>(ret, s).
            if ret \<noteq> 0 then Some (ret, [], unlock_event s)
            else
              let event_count = count div event_bytes;
                  len = unat (len_eventFIFO (events (event s)));
                  event_count = (if event_count < len then event_count else len);
                  (ret, out, q) = event_copy event_count room 0 [] (events (event s));
                  s = upd_event (\<lambda>e. e\<lparr>events := q\<rparr>) s
              in Some (ret, out, unlock_event s)))"

definition libera_event_poll :: "libera \<Rightarrow> u32" where
  "libera_event_poll s = (if not_empty_eventFIFO (events (event s)) then 0x1 OR 0x40 else 0)"

interpretation event_sw: single_writer "\<lambda>s. ev_com (event s)"
  "\<lambda>f s. (fst (libera_event_open True f s), snd (snd (libera_event_open True f s)))" "libera_event_release l" for l
  by unfold_locales
    (auto simp: libera_event_open_def libera_event_release_def open_single_def release_single_def Let_def
      upd_event_com_def upd_event_def flush_events_def lock_event_def unlock_event_def writel_def)

section \<open>Reading\<close>

interpretation event_wait: waiting_loop "\<lambda>s. not_empty_eventFIFO (events (event s))" "sigpend c" "nap c" "wait_event c" for c
  by unfold_locales (subst wait_event.simps, simp add: nap_def)

abbreviation pending_events :: "libera \<Rightarrow> libera_event list" where
  "pending_events s \<equiv> trig_contents (events (event s))"

text \<open>The wait of a read, from its lock on: \<open>t\<close> is the state after \<open>n\<close> sleeps.\<close>

lemma event_empty:
  assumes "trig_wf (events (event s))"
  shows "not_empty_eventFIFO (events (event s)) \<longleftrightarrow> pending_events s \<noteq> []"
    "empty_eventFIFO (events (event s)) \<longleftrightarrow> pending_events s = []"
  using ev.empty_contents [OF assms] by (simp_all add: empty_eventFIFO_def not_empty_eventFIFO_def)

lemma event_unlock: "events (event (unlock_event s)) = events (event s)" "\<not> sem (ev_com (event (unlock_event s)))"
  by (simp_all add: unlock_event_def)

lemma event_wait_returns:
  fixes n c l
  defines "t \<equiv> (nap c ^^ n) l"
  assumes "\<forall>k<n. pending_events ((nap c ^^ k) l) = [] \<and> trig_wf (events (event ((nap c ^^ k) l))) \<and> \<not> sigpend c ((nap c ^^ k) l)"
    and "trig_wf (events (event t))" "pending_events t \<noteq> [] \<or> sigpend c t"
  shows "empty_eventFIFO (events (event l)) \<longleftrightarrow> n \<noteq> 0 \<or> pending_events t = []"
    and "(if empty_eventFIFO (events (event l)) then wait_event c l else Some (0, l)) =
      Some (if pending_events t \<noteq> [] then 0 else - ERESTARTSYS, t)"
proof -
  show e: "empty_eventFIFO (events (event l)) \<longleftrightarrow> n \<noteq> 0 \<or> pending_events t = []"
    using assms(2,3) event_empty [of l] by (cases n) (auto simp: t_def dest: spec [of _ 0])
  have "wait_event c l = Some (if pending_events t \<noteq> [] then 0 else - ERESTARTSYS, t)"
    using event_wait.naps [of n c l] assms(2-4) event_empty by (auto simp: t_def)
  then show "(if empty_eventFIFO (events (event l)) then wait_event c l else Some (0, l)) =
      Some (if pending_events t \<noteq> [] then 0 else - ERESTARTSYS, t)"
    using e by (auto simp: t_def)
qed

text \<open>What a read does once the wait is over.\<close>

lemma event_read_copies:
  assumes "(if empty_eventFIFO (events (event (lock_event s))) then wait_event c (lock_event s) else Some (0, lock_event s)) =
      Some (if pending_events t \<noteq> [] then 0 else - ERESTARTSYS, t)"
    and "0 < count" "count mod 8 = 0" "\<not> lock_intr c s" "trig_wf (events (event t))"
    and "\<not> (f_nonblock f \<and> empty_eventFIFO (events (event (lock_event s))))"
  shows "libera_event_read c f count room s =
    (if pending_events t = [] then Some (- ERESTARTSYS, [], unlock_event t)
     else let (ret, out, q) = event_copy (min (count div 8) (length (pending_events t))) room 0 [] (events (event t))
          in Some (ret, out, unlock_event (upd_event (\<lambda>e. e\<lparr>events := q\<rparr>) t)))"
proof -
  have m: "(if count div 8 < length (pending_events t) then count div 8 else length (pending_events t)) =
      min (count div 8) (length (pending_events t))" by simp
  show ?thesis
    using assms(2-4) by (cases "pending_events t = []")
      (simp_all add: libera_event_read_def Let_def event_bytes_def assms(1,6) ev.len_contents [OF assms(5)] m ERESTARTSYS_def
        split del: if_split cong: if_cong)
qed


section \<open>Enabling triggers\<close>

lemma next_trigger_shift:
  "next_trigger n sl m (i + d) = map_option (\<lambda>(m, i). (m, i + d)) (next_trigger n sl m i)"
proof (induction n arbitrary: m i)
  case 0
  then show ?case by simp
next
  case (Suc n)
  have "Suc (i + d) = Suc i + d" by simp
  then show ?case using Suc.IH [of "push_bit 1 m" "i + 1"] by simp
qed

text \<open>The running sums of a list of positions.\<close>

fun running :: "nat \<Rightarrow> nat list \<Rightarrow> nat list" where
  "running i [] = []"
| "running i (p # ps) = (i + p) # running (i + p) ps"

lemma flush_indices_sums:
  "length (triggers arg) < n \<Longrightarrow>
     flush_indices n arg i = (if \<forall>x \<in> set (running i (triggers arg)). x < 11 then Some (running i (triggers arg)) else None)"
proof (induction n arbitrary: arg i)
  case 0
  then show ?case by simp
next
  case (Suc n)
  show ?case
  proof (cases "\<exists>j<9. bit arg (22 + j)")
    case False
    then have "triggers arg = []" by (auto simp: triggers_def filter_empty_conv)
    with False show ?thesis by (simp add: trig_vector_zero)
  next
    case True
    define j where "j = (LEAST j. j < 9 \<and> bit arg (22 + j))"
    from True have j: "j < 9" "bit arg (22 + j)" unfolding j_def by (metis (mono_tags, lifting) LeastI)+
    have least: "\<not> bit arg (22 + k)" if "k < j" for k
      using that not_less_Least [of k "\<lambda>j. j < 9 \<and> bit arg (22 + j)"] j(1) unfolding j_def
      by (metis (mono_tags, lifting) order.strict_trans)
    let ?arg = "arg AND NOT (2 ^ (22 + j))"
    have "triggers arg = j # filter (\<lambda>k. bit ?arg (22 + k)) [j..<9]"
      using filter_upt_first [of 0 j 9 "\<lambda>k. bit arg (22 + k)"] j least by (simp add: triggers_def bit_clear)
    moreover have "filter (\<lambda>k. bit ?arg (22 + k)) [0..<9] = filter (\<lambda>k. bit ?arg (22 + k)) [j..<9]"
    proof -
      have "[0..<9] = [0..<j] @ [j..<9]" using upt_add_eq_append [of 0 j "9 - j"] j(1) by simp
      moreover have "filter (\<lambda>k. bit ?arg (22 + k)) [0..<j] = []"
        using least by (auto simp: filter_empty_conv bit_clear)
      ultimately show ?thesis by simp
    qed
    ultimately have t: "triggers arg = j # triggers ?arg" by (simp add: triggers_def)
    have "next_trigger 32 arg (2 ^ (22 + 0)) 0 = Some (2 ^ (22 + j), j)"
      using j least by (intro next_trigger_finds) auto
    then have f: "next_trigger 32 arg TRIG_ZERO i = Some (2 ^ (22 + j), i + j)"
      using next_trigger_shift [of 32 arg TRIG_ZERO 0 i] by (simp add: TRIG_ZERO_def)
    have "arg AND TRIG_VECTOR \<noteq> 0" using True by (auto simp: trig_vector_zero)
    moreover have "length (triggers ?arg) < n" using Suc.prems t by simp
    ultimately show ?thesis using f Suc.IH [of ?arg "i + j"] by (auto simp: t TRIG_EVENTS_MAX_def)
  qed
qed

lemma length_triggers: "length (triggers x) < 10"
proof -
  have "length (triggers x) \<le> length [0..<9]" unfolding triggers_def by (rule length_filter_le)
  then show ?thesis by simp
qed

text \<open>
  C36: which FIFOs enabling triggers flushes. A vector that is empty or has bit 31 is refused, and so
  is one with a trigger that is enabled already; nothing changes then. Otherwise the FIFOs flushed
  before the triggers are enabled are the running sums of the positions of the triggers, because the
  index is not reset with the mask: the right one for a single trigger, but for triggers
  1 and 2 the FIFOs 1 and 3, and for a sum beyond 10 memory outside the array.
\<close>

theorem enable_flushes_sums:
  "event_enable_sc l arg s =
    (if arg = 0 \<or> bit arg 31 then Some (- EINVAL, l, s)
     else if arg AND sc_trigVec (event s) \<noteq> 0 then Some (- EBUSY, l, s)
     else if list_all (\<lambda>x. x < 11) (running 0 (triggers arg))
     then Some (0, l\<lparr>l_sc_trigVec := l_sc_trigVec l OR arg\<rparr>,
       snd (libera_sctrig_enable (l_sc_trigVec l OR arg) (flush_sc (running 0 (triggers arg)) s)))
     else None)"
proof -
  have "not_TRIG_ALL_MASK = 2 ^ 31"
    by (simp add: not_TRIG_ALL_MASK_def)
  then have "arg AND not_TRIG_ALL_MASK \<noteq> 0 \<longleftrightarrow> bit arg 31"
    using and_trigger_bit [of arg 31] by (simp del: power_numeral)
  then show ?thesis
    using flush_indices_sums [OF length_triggers, of arg 0] by (simp add: event_enable_sc_def list_all_iff)
qed

section \<open>Triggers belong to the files that enabled them\<close>

text \<open>
  The steps that change which triggers are enabled: opening a file, enabling triggers on it, closing
  it. The second component gives the open files with their data.
\<close>

inductive ev_step :: "libera \<times> (nat \<Rightarrow> (filep \<times> event_local) option) \<Rightarrow> libera \<times> (nat \<Rightarrow> (filep \<times> event_local) option) \<Rightarrow> bool" where
  open_file: "fs i = None \<Longrightarrow> libera_event_open mem f s = (0, Some l, s') \<Longrightarrow> ev_step (s, fs) (s', fs(i \<mapsto> (f, l)))"
| enabling_sc: "fs i = Some (f, l) \<Longrightarrow> event_enable_sc l arg s = Some (r, l', s') \<Longrightarrow> ev_step (s, fs) (s', fs(i \<mapsto> (f, l')))"
| enabling_mc: "fs i = Some (f, l) \<Longrightarrow> event_enable_mc l arg s = Some (r, l', s') \<Longrightarrow> ev_step (s, fs) (s', fs(i \<mapsto> (f, l')))"
| close_file: "fs i = Some (f, l) \<Longrightarrow> libera_event_release l f s = (r, s') \<Longrightarrow> ev_step (s, fs) (s', fs(i := None))"

text \<open>The vectors \<open>v i\<close> of the open files are apart and within the vector of the device.\<close>

definition owned :: "(nat \<Rightarrow> u32) \<Rightarrow> u32 \<Rightarrow> bool" where
  "owned v dev \<longleftrightarrow> (\<forall>i. v i AND NOT dev = 0) \<and> (\<forall>i j. i \<noteq> j \<longrightarrow> v i AND v j = 0)"

definition vec :: "(event_local \<Rightarrow> u32) \<Rightarrow> (nat \<Rightarrow> (filep \<times> event_local) option) \<Rightarrow> nat \<Rightarrow> u32" where
  "vec sel fs i = (case fs i of None \<Rightarrow> 0 | Some (f, l) \<Rightarrow> sel l)"

lemma and_zero_iff: "x AND y = 0 \<longleftrightarrow> (\<forall>n. \<not> (bit x n \<and> bit (y :: u32) n))"
proof
  assume "x AND y = 0"
  then have "\<not> bit (x AND y) n" for n by simp
  then show "\<forall>n. \<not> (bit x n \<and> bit y n)" by (simp only: bit_and_iff) simp
next
  assume "\<forall>n. \<not> (bit x n \<and> bit y n)"
  then show "x AND y = 0" by (intro bit_word_eqI) (simp add: bit_and_iff)
qed

lemma and_not_zero_iff: "x AND NOT y = 0 \<longleftrightarrow> (\<forall>n. bit x n \<longrightarrow> bit (y :: u32) n)"
  unfolding and_zero_iff bit_not_iff using bit_imp_le_length [of x] by auto

lemma owned_bits:
  "owned v dev \<longleftrightarrow> (\<forall>i n. bit (v i) n \<longrightarrow> bit dev n) \<and> (\<forall>i j n. i \<noteq> j \<longrightarrow> bit (v i) n \<longrightarrow> \<not> bit (v j) n)"
  unfolding owned_def and_not_zero_iff
  unfolding and_zero_iff by (rule arg_cong2 [where f = conj]) auto

lemma owned_enable:
  assumes "owned v dev" "arg AND dev = 0"
  shows "owned (v(i := v i OR arg)) (dev OR (v i OR arg))"
proof -
  have "\<forall>n. \<not> (bit arg n \<and> bit dev n)" using assms(2) by (simp add: and_zero_iff)
  then show ?thesis using assms(1) unfolding owned_bits fun_upd_def by (simp add: bit_or_iff) blast
qed

lemma owned_close:
  assumes "owned v dev"
  shows "owned (v(i := 0)) (dev AND NOT (v i))" "owned (v(i := 0)) dev"
proof -
  have n: "bit (NOT (v i)) n \<longleftrightarrow> n < 32 \<and> \<not> bit (v i) n" for n by (simp add: bit_not_iff)
  have l: "bit (v j) n \<Longrightarrow> n < 32" for j n using bit_imp_le_length [of "v j" n] by simp
  show "owned (v(i := 0)) (dev AND NOT (v i))"
    using assms l unfolding owned_bits fun_upd_def by (simp add: bit_and_iff n)
  show "owned (v(i := 0)) dev"
    using assms unfolding owned_bits fun_upd_def by simp
qed

definition ev_inv :: "libera \<times> (nat \<Rightarrow> (filep \<times> event_local) option) \<Rightarrow> bool" where
  "ev_inv x = (case x of (s, fs) \<Rightarrow>
     owned (vec l_sc_trigVec fs) (sc_trigVec (event s)) \<and> (\<forall>i. \<not> bit (vec l_sc_trigVec fs i) 31) \<and>
     owned (vec l_mc_trigVec fs) (mc_trigVec (event s)) \<and> (\<forall>i. \<not> bit (vec l_mc_trigVec fs i) 31))"

lemma vec_upd: "vec sel (fs(i \<mapsto> (f, l))) = (vec sel fs)(i := sel l)" "vec sel (fs(i := None)) = (vec sel fs)(i := 0)"
  by (auto simp: vec_def)

lemma vec_at: "fs i = Some (f, l) \<Longrightarrow> vec sel fs i = sel l" "fs i = None \<Longrightarrow> vec sel fs i = 0"
  by (simp_all add: vec_def)

lemma flush_vecs [simp]:
  "sc_trigVec (event (flush_sc is s)) = sc_trigVec (event s)" "mc_trigVec (event (flush_sc is s)) = mc_trigVec (event s)"
  "sc_trigVec (event (flush_mc is s)) = sc_trigVec (event s)" "mc_trigVec (event (flush_mc is s)) = mc_trigVec (event s)"
  by (induction "is" arbitrary: s) (simp_all add: flush_sc_def flush_mc_def upd_event_def)

lemma no_bit31: "x AND not_TRIG_ALL_MASK = 0 \<longleftrightarrow> \<not> bit x 31"
proof -
  have "not_TRIG_ALL_MASK = 2 ^ 31" by (simp add: not_TRIG_ALL_MASK_def)
  then show ?thesis using and_trigger_bit [of x 31] by (simp del: power_numeral)
qed

lemma enable_sc_vecs:
  assumes "event_enable_sc l arg s = Some (r, l', s')" "\<not> bit (l_sc_trigVec l) 31"
  shows "l_mc_trigVec l' = l_mc_trigVec l \<and> mc_trigVec (event s') = mc_trigVec (event s) \<and>
    (l_sc_trigVec l' = l_sc_trigVec l \<and> sc_trigVec (event s') = sc_trigVec (event s) \<or>
     arg AND sc_trigVec (event s) = 0 \<and> \<not> bit arg 31 \<and> l_sc_trigVec l' = l_sc_trigVec l OR arg \<and>
     sc_trigVec (event s') = sc_trigVec (event s) OR (l_sc_trigVec l OR arg))"
  using assms by (auto simp: event_enable_sc_def libera_sctrig_enable_def no_bit31 bit_or_iff Let_def writel_def
      split: if_splits)

lemma enable_mc_vecs:
  assumes "event_enable_mc l arg s = Some (r, l', s')" "\<not> bit (l_mc_trigVec l) 31"
  shows "l_sc_trigVec l' = l_sc_trigVec l \<and> sc_trigVec (event s') = sc_trigVec (event s) \<and>
    (l_mc_trigVec l' = l_mc_trigVec l \<and> mc_trigVec (event s') = mc_trigVec (event s) \<or>
     arg AND mc_trigVec (event s) = 0 \<and> \<not> bit arg 31 \<and> l_mc_trigVec l' = l_mc_trigVec l OR arg \<and>
     mc_trigVec (event s') = mc_trigVec (event s) OR (l_mc_trigVec l OR arg))"
  using assms by (auto simp: event_enable_mc_def libera_mctrig_enable_def no_bit31 bit_or_iff Let_def writel_def
      split: if_splits)

lemma open_vecs:
  assumes "libera_event_open mem f s = (0, Some l, s')"
  shows "l_sc_trigVec l = 0 \<and> l_mc_trigVec l = 0 \<and> sc_trigVec (event s') = sc_trigVec (event s) \<and>
    mc_trigVec (event s') = mc_trigVec (event s)"
  using assms by (auto simp: libera_event_open_def Let_def upd_event_com_def upd_event_def flush_events_def
      lock_event_def unlock_event_def errno_defs split: if_splits)

lemma release_vecs:
  assumes "libera_event_release l f s = (r, s')"
  shows "(sc_trigVec (event s') = sc_trigVec (event s) \<or> sc_trigVec (event s') = sc_trigVec (event s) AND NOT (l_sc_trigVec l)) \<and>
    (mc_trigVec (event s') = mc_trigVec (event s) \<or> mc_trigVec (event s') = mc_trigVec (event s) AND NOT (l_mc_trigVec l))"
  using assms by (auto simp: libera_event_release_def Let_def upd_event_com_def upd_event_def flush_events_def
      writel_def split: if_splits)

lemma ev_step_inv: "ev_step x y \<Longrightarrow> ev_inv x \<Longrightarrow> ev_inv y"
proof (induction rule: ev_step.induct)
  case (open_file fs i mem f s l s')
  note o = open_vecs [OF open_file(2)]
  have "(vec sel fs)(i := 0) = vec sel fs" for sel
    using vec_at(2) [where fs = fs and i = i and sel = sel] open_file(1) by (auto simp: fun_eq_iff)
  then show ?case using open_file(3) o by (simp add: ev_inv_def vec_upd)
next
  case (enabling_sc fs i f l arg s r l' s')
  have v: "vec sel fs i = sel l" for sel using enabling_sc(1) by (rule vec_at(1))
  have "\<not> bit (vec l_sc_trigVec fs i) 31" using enabling_sc(3) by (simp add: ev_inv_def)
  then have nb: "\<not> bit (l_sc_trigVec l) 31" by (simp only: v simp_thms)
  note e = enable_sc_vecs [OF enabling_sc(2) nb]
  have k: "(vec sel fs)(i := sel l) = vec sel fs" for sel using v [of sel] by (auto simp: fun_eq_iff)
  show ?case
    using enabling_sc(3) e owned_enable [of "vec l_sc_trigVec fs" "sc_trigVec (event s)" arg i] k v nb
    by (auto simp: ev_inv_def vec_upd bit_or_iff)
next
  case (enabling_mc fs i f l arg s r l' s')
  have v: "vec sel fs i = sel l" for sel using enabling_mc(1) by (rule vec_at(1))
  have "\<not> bit (vec l_mc_trigVec fs i) 31" using enabling_mc(3) by (simp add: ev_inv_def)
  then have nb: "\<not> bit (l_mc_trigVec l) 31" by (simp only: v simp_thms)
  note e = enable_mc_vecs [OF enabling_mc(2) nb]
  have k: "(vec sel fs)(i := sel l) = vec sel fs" for sel using v [of sel] by (auto simp: fun_eq_iff)
  show ?case
    using enabling_mc(3) e owned_enable [of "vec l_mc_trigVec fs" "mc_trigVec (event s)" arg i] k v nb
    by (auto simp: ev_inv_def vec_upd bit_or_iff)
next
  case (close_file fs i f l s r s')
  have v: "vec sel fs i = sel l" for sel using close_file(1) by (rule vec_at(1))
  show ?case
    using close_file(3) release_vecs [OF close_file(2)] owned_close [of "vec l_sc_trigVec fs" "sc_trigVec (event s)" i]
      owned_close [of "vec l_mc_trigVec fs" "mc_trigVec (event s)" i] v
    by (auto simp: ev_inv_def vec_upd)
qed



text \<open>A reader that sleeps once and is woken with one event pending.\<close>

definition event_ctx :: "libera_event \<Rightarrow> ctx" where
  "event_ctx e = \<lparr>wake = upd_event (\<lambda>d. d\<lparr>events := snd (putTo_eventFIFO e (zero_ring e))\<rparr>),
     sigpend = (\<lambda>_. False), lock_intr = (\<lambda>_. False), timeleft = (\<lambda>_ n. n - 1),
     jiffies = (\<lambda>_. 0), dma_waiter = (\<lambda>_. False)\<rparr>"


end
