(* ===== verification/Resources.thy ===== *)
theory Resources
  imports Prelude
begin

text \<open>
  What a module holds of the kernel, a list with the latest first. Giving back what is not held is an error of
  the driver, and the result is then \<open>None\<close>.
\<close>

definition give_back :: "'r \<Rightarrow> 'r list \<Rightarrow> 'r list option" where
  "give_back r held = (if r \<in> set held then Some (remove1 r held) else None)"

fun give_back_all :: "'r list \<Rightarrow> 'r list \<Rightarrow> 'r list option" where
  "give_back_all [] held = Some held"
| "give_back_all (r # rs) held = Option.bind (give_back r held) (give_back_all rs)"

lemma give_back_hd [simp]: "give_back r (r # held) = Some held"
  by (simp add: give_back_def)

lemma give_back_all_append:
  "give_back_all (xs @ ys) held = Option.bind (give_back_all xs held) (give_back_all ys)"
  by (induction xs arbitrary: held) (auto simp: Option.bind_eq_Some_conv split: Option.bind_split)

end
