(* ===== verification/Driver.thy ===== *)
theory Driver
  imports Resources Event_Dev Adc Block_Dev Trigger Sa
begin

text \<open>
  The driver as a whole, from \<^verbatim>\<open>drivers/libera/libera_main.c\<close>: the interrupt handler that
  dispatches to the handlers of the sources, the \<^verbatim>\<open>open\<close> that dispatches to the devices by minor
  number, the initialisation of the device structures, and the loading and unloading of the module
  with the kernel resources it takes and gives back.
\<close>

section \<open>The interrupt handler\<close>

datatype irqreturn = IRQ_NONE | IRQ_HANDLED

text \<open>
  One pass of the loop: the handlers of the pending sources in the order of their priority, the
  system clock before the machine clock.
\<close>

definition irq_pass :: "u32 \<Rightarrow> libera \<Rightarrow> libera option" where
  "irq_pass int_vec s =
     (let s = (if int_vec AND LIBERA_INTERRUPT_ILK_MASK \<noteq> 0 then libera_ilk_handler s else s) in
      Option.bind (if int_vec AND LIBERA_INTERRUPT_SC_MASK \<noteq> 0 then libera_sc_handler s else Some s) (\<lambda>s.
      Option.bind (if int_vec AND LIBERA_INTERRUPT_MC_MASK \<noteq> 0 then libera_mc_handler s else Some s) (\<lambda>s.
        let s = (if int_vec AND (LIBERA_INTERRUPT_HELPSC_MASK OR LIBERA_INTERRUPT_HELPMC_MASK) \<noteq> 0
                 then libera_scmchelp_handler s else s);
            s = (if int_vec AND LIBERA_INTERRUPT_DD_MASK \<noteq> 0 then libera_dd_handler s else s)
        in if int_vec AND LIBERA_INTERRUPT_SA_MASK \<noteq> 0 then libera_sa_handler s else Some s)))"

partial_function (option) irq_loop :: "libera \<Rightarrow> libera option" where
  "irq_loop s =
     (let (v, s) = readl SBC_IRQ s;
          int_vec = v AND get_irqMask s
      in if int_vec = 0 then Some s
         else Option.bind (irq_pass int_vec s) irq_loop)"

definition libera_interrupt :: "int \<Rightarrow> libera \<Rightarrow> (irqreturn \<times> libera) option" where
  "libera_interrupt irq s =
     (if irq \<noteq> g_irq (lgbl s) then Some (IRQ_NONE, s)
      else map_option (Pair IRQ_HANDLED) (irq_loop s))"

section \<open>Opening a device\<close>

definition LIBERA_MAX_MINOR :: nat where [reg_defs]: "LIBERA_MAX_MINOR = 7"
definition LIBERA_MINOR_CFG :: nat where [reg_defs]: "LIBERA_MINOR_CFG = 0"
definition LIBERA_MINOR_DD :: nat where [reg_defs]: "LIBERA_MINOR_DD = 1"
definition LIBERA_MINOR_FA :: nat where [reg_defs]: "LIBERA_MINOR_FA = 2"
definition LIBERA_MINOR_PM :: nat where [reg_defs]: "LIBERA_MINOR_PM = 3"
definition LIBERA_MINOR_SA :: nat where [reg_defs]: "LIBERA_MINOR_SA = 4"
definition LIBERA_MINOR_EVENT :: nat where [reg_defs]: "LIBERA_MINOR_EVENT = 5"
definition LIBERA_MINOR_ADC :: nat where [reg_defs]: "LIBERA_MINOR_ADC = 6"
definition LIBERA_MINOR_DSC :: nat where [reg_defs]: "LIBERA_MINOR_DSC = 7"

text \<open>
  What an open file keeps: nothing of its own, or the data its device allocated for it. \<open>mem\<close> is the
  address the allocation returns, if it succeeds. The table of the file operations is indexed by the
  minor number.
\<close>

datatype file_data = No_data | Dd_file dd_local | Sa_file nat | Event_file event_local

definition no_data :: "int \<times> libera \<Rightarrow> int \<times> file_data \<times> libera" where
  "no_data p = (fst p, No_data, snd p)"

definition with_data :: "('a \<Rightarrow> file_data) \<Rightarrow> int \<times> 'a option \<times> libera \<Rightarrow> int \<times> file_data \<times> libera" where
  "with_data g p = (case p of (r, d, s) \<Rightarrow> (r, (case d of None \<Rightarrow> No_data | Some l \<Rightarrow> g l), s))"

definition libera_fops_array :: "nat option \<Rightarrow> filep \<Rightarrow> (libera \<Rightarrow> int \<times> file_data \<times> libera) list" where
  "libera_fops_array mem f =
     [no_data \<circ> libera_cfg_open f,
      with_data Dd_file \<circ> libera_dd_open (mem \<noteq> None) f,
      no_data \<circ> libera_fa_open f,
      no_data \<circ> libera_pm_open f,
      with_data Sa_file \<circ> libera_sa_open mem f,
      with_data Event_file \<circ> libera_event_open (mem \<noteq> None) f,
      no_data \<circ> libera_adc_open f,
      no_data \<circ> libera_dsc_open f]"

definition libera_open :: "nat option \<Rightarrow> nat \<Rightarrow> filep \<Rightarrow> libera \<Rightarrow> int \<times> file_data \<times> libera" where
  "libera_open mem minor f s =
     (if minor > LIBERA_MAX_MINOR then (- ENODEV, No_data, s)
      else (libera_fops_array mem f ! minor) s)"

section \<open>Initialising the device structures\<close>

definition T_EG_DDC :: nat where [reg_defs]: "T_EG_DDC = 31"
definition T_EG_HB :: nat where [reg_defs]: "T_EG_HB = 30"
definition T_EG_FA :: nat where [reg_defs]: "T_EG_FA = 29"
definition T_EG_FAI :: nat where [reg_defs]: "T_EG_FAI = 25"

definition zero_global :: libera_global where
  "zero_global = \<lparr>event_mask = 0, g_irq = 0, g_dma = zero_dma, irqMask = 0, feature = 0, g_d = 0,
     g_dfa = 0, g_dcic = 0, num_dfir = 0\<rparr>"

definition flush_stamps :: "nat \<Rightarrow> event_dev \<Rightarrow> event_dev" where
  "flush_stamps i e =
     e\<lparr>sc_timestamps := (sc_timestamps e)(i := flushFIFO (sc_timestamps e i)),
       mc_timestamps := (mc_timestamps e)(i := flushFIFO (mc_timestamps e i)),
       paired_timestamps := (paired_timestamps e)(i := flushCircBuf)\<rparr>"

text \<open>The pipes of the slow acquisition device are memory of its files and stay as they are.\<close>

definition libera_init_devs :: "libera \<Rightarrow> libera" where
  "libera_init_devs s =
     (let s = s\<lparr>cfg := \<lparr>cfg_com = zero_common, param = (\<lambda>_. 0), pm_freezed = False\<rparr>,
                dd := \<lparr>dd_com = zero_common, dd_irqevents = zero_ring 0, pm_entry = False\<rparr>,
                fa := \<lparr>blk_com = zero_common, blk_buf = replicate (FAI_BLOCKSIZE div 4) 0\<rparr>,
                pm := \<lparr>pm_com = zero_common, pm_buf = [], PMevent = zero_stamp,
                       pm_tstamp = \<lparr>ts_st = \<lparr>tv_sec = 0, tv_nsec = 0\<rparr>, ts_mt = 0\<rparr>\<rparr>,
                sa := \<lparr>sa_com = zero_common,
                       pipes = \<lparr>sa_pipe = (\<lambda>_. None), registered = 0, next_pipe = 0\<rparr>,
                       sa_heap = sa_heap (sa s), sa_buf = (\<lambda>_. replicate 16 0), buf_head = 0,
                       buf_tail = 0, inputovr = False\<rparr>,
                event := zero_event_dev,
                adc := \<lparr>adc_com = zero_common, adc_buf = (\<lambda>_. \<lparr>ChD = 0, ChC = 0, ChB = 0, ChA = 0\<rparr>),
                        adc_op = None\<rparr>,
                dsc := \<lparr>blk_com = zero_common, blk_buf = replicate (DSC_BLOCKSIZE div 4) 0\<rparr>\<rparr>;
          s = s\<lparr>cfg := (cfg s)\<lparr>param := (param (cfg s))(LIBERA_CFG_TRIGMODE := LIBERA_TRIGMODE_GET)\<rparr>\<rparr>;
          s = s\<lparr>sa := (sa s)\<lparr>buf_head := 0, buf_tail := 0, inputovr := False\<rparr>\<rparr>;
          s = s\<lparr>event := fold flush_stamps [0..<TRIG_EVENTS_MAX] (event s)\<rparr>;
          s = s\<lparr>event := (event s)\<lparr>HB_start_lmt := 0x8000000\<rparr>\<rparr>;
          s = s\<lparr>event := (event s)\<lparr>list_head :=
                \<lparr>eg_time = HB_start_lmt (event s),
                 eg_event = push_bit T_EG_DDC 1 OR push_bit T_EG_HB 1 OR push_bit T_EG_FAI 1 OR
                            push_bit T_EG_FA 1 OR push_bit T_EG_SA 1\<rparr>\<rparr>\<rparr>;
          s = s\<lparr>adc := (adc s)\<lparr>adc_op := None\<rparr>\<rparr>
      in s\<lparr>lgbl := zero_global\<rparr>)"

section \<open>Kernel resources\<close>

text \<open>
  What the module holds of the kernel, the latest first.
\<close>

datatype resource = Mem_region | Io_mapping | Dma_pages | Dma_channel | Pm_pages | Irq_line
  | Chrdev_region | Cdev | Dev_class | Dev_node nat

text \<open>
  What the kernel answers while the module is loaded: whether the region of bus addresses is free,
  where it is mapped, the pages for the DMA buffer (with what is in them), the DMA channel, whether
  memory is left for the post-mortem buffer, the number of the interrupt of the GPIO pin, and the
  result of registering the interrupt, the device numbers, the device, its class and each node.
\<close>

record load_env =
  region_free :: bool
  io_address :: u32
  dma_pages :: "(nat \<Rightarrow> dd_atom) option"
  dma_chan :: int
  vmalloc_ok :: bool
  irq_gpio :: int
  irq_result :: int
  chrdev_result :: int
  cdev_result :: int
  class_error :: "int option"
  node_error :: "nat \<Rightarrow> int option"

definition dev_count :: nat where "dev_count = 8"

text \<open>The nodes from \<open>minor\<close> on; an error is left with the minor number of its node.\<close>

fun create_nodes :: "load_env \<Rightarrow> nat \<Rightarrow> nat \<Rightarrow> resource list \<Rightarrow> (int \<times> nat \<times> resource list) + resource list" where
  "create_nodes env 0 minor held = Inr held"
| "create_nodes env (Suc n) minor held =
     (case node_error env minor of
        Some e \<Rightarrow> Inl (e, minor, held)
      | None \<Rightarrow> create_nodes env n (minor + 1) (Dev_node minor # held))"

definition undo :: "int \<Rightarrow> resource list \<Rightarrow> resource list \<Rightarrow> (int \<times> resource list) option" where
  "undo ret rs held = map_option (Pair ret) (give_back_all rs held)"

definition install_devices :: "load_env \<Rightarrow> resource list \<Rightarrow> (int \<times> resource list) option" where
  "install_devices env held =
     (let ret = chrdev_result env in
      if ret < 0 then undo ret [] held
      else
        let held = Chrdev_region # held; ret = cdev_result env in
        if ret < 0 then undo ret [Chrdev_region] held
        else
          let held = Cdev # held in
          case class_error env of
            Some ret \<Rightarrow> undo ret [Cdev, Chrdev_region] held
          | None \<Rightarrow>
              let held = Dev_class # held in
              (case create_nodes env dev_count 0 held of
                 Inl (ret, last_minor, held) \<Rightarrow>
                   undo ret (map Dev_node [0..<last_minor] @ [Dev_class, Cdev, Chrdev_region]) held
               | Inr held \<Rightarrow> Some (0, held)))"

definition uninstall_devices :: "resource list \<Rightarrow> resource list option" where
  "uninstall_devices held =
     give_back_all (map Dev_node [0..<dev_count] @ [Dev_class, Cdev, Chrdev_region]) held"

definition uninstall_interrupts :: "libera \<Rightarrow> resource list \<Rightarrow> (libera \<times> resource list) option" where
  "uninstall_interrupts s held =
     (let s = set_irqMask 0 s;
          s = writel 0 T_SC_TRIGGER_MASK s;
          s = writel 0 T_MC_TRIGGER_MASK s
      in map_option (Pair s) (give_back Irq_line held))"

section \<open>Loading and unloading the module\<close>

definition LIBERA_PMSIZE_MAX :: u32 where [reg_defs]: "LIBERA_PMSIZE_MAX = 262144"

definition upd_lgbl :: "(libera_global \<Rightarrow> libera_global) \<Rightarrow> libera \<Rightarrow> libera" where
  "upd_lgbl g s = s\<lparr>lgbl := g (lgbl s)\<rparr>"

text \<open>The features and the decimations of the FPGA.\<close>

definition probe_fpga :: "libera \<Rightarrow> libera" where
  "probe_fpga s =
     (let (feat, s) = readl FPGA_FEATURE_ITECH s;
          s = upd_lgbl (\<lambda>g. g\<lparr>feature := feat\<rparr>) s;
          s = (if LIBERA_IS_BPM (feature (lgbl s)) then
                 let (dfa, s) = readl FPGA_INFO_DEC_CIC_FIR s;
                     s = upd_lgbl (\<lambda>g. g\<lparr>g_dfa := dfa\<rparr>) s;
                     (d, s) = readl FPGA_INFO_DEC_DDC s
                 in upd_lgbl (\<lambda>g. g\<lparr>g_d := d\<rparr>) s
               else upd_lgbl (\<lambda>g. g\<lparr>g_dfa := 0, g_d := 0\<rparr>) s);
          s = upd_lgbl (\<lambda>g. g\<lparr>g_dcic := drop_bit 16 (g_dfa g)\<rparr>) s;
          s = upd_lgbl (\<lambda>g. g\<lparr>num_dfir := g_dfa g mod push_bit 16 1\<rparr>) s;
          s = upd_lgbl (\<lambda>g. g\<lparr>g_dfa := g_dcic g * num_dfir g\<rparr>) s
      in upd_lgbl (\<lambda>g. g\<lparr>num_dfir := num_dfir g * 3\<rparr>) s)"

definition driver_triggers :: u32 where
  "driver_triggers = TRIGGER_BIT T_TRIG_CTIME OR TRIGGER_BIT T_TRIG_TRIGGER OR TRIGGER_BIT T_TRIG_POST_MORTEM"

definition start_interrupts :: "libera \<Rightarrow> libera" where
  "start_interrupts s =
     (let s = snd (readl SBC_IRQ2 s);
          s = set_irqMask (LIBERA_INTERRUPT_SC_MASK OR LIBERA_INTERRUPT_MC_MASK OR
                LIBERA_INTERRUPT_HELPSC_MASK OR LIBERA_INTERRUPT_HELPMC_MASK OR
                LIBERA_INTERRUPT_DD_MASK OR LIBERA_INTERRUPT_SA_MASK OR LIBERA_INTERRUPT_ILK_MASK) s;
          s = snd (libera_sctrig_enable driver_triggers s)
      in snd (libera_mctrig_enable driver_triggers s))"

text \<open>
  \<^verbatim>\<open>libera_init\<close>, in the order of its \<^verbatim>\<open>goto\<close>s: each failure gives back what was taken before it.
  \<open>abandon\<close> is the tail of labels it jumps into. What the interrupt handler does once it is installed
  is not interleaved here.
\<close>

definition abandon :: "int \<Rightarrow> resource list \<Rightarrow> resource list \<Rightarrow> libera \<Rightarrow> (int \<times> libera \<times> resource list) option" where
  "abandon ret rs held s = map_option (\<lambda>held. (ret, s, held)) (give_back_all rs held)"

definition libera_init :: "load_env \<Rightarrow> libera \<Rightarrow> resource list \<Rightarrow> (int \<times> libera \<times> resource list) option" where
  "libera_init env s held =
     (if flmcdHz (modp s) = 0 then Some (- EINVAL, s, held)
      else
        let s = libera_init_devs s in
        if \<not> region_free env then abandon (- ENODEV) [] held s
        else
          let held = Io_mapping # Mem_region # held;
              s = probe_fpga s in
          case dma_pages env of
            None \<Rightarrow> abandon (- ENOMEM) [Io_mapping, Mem_region] held s
          | Some pages \<Rightarrow>
              let held = Dma_pages # held;
                  s = upd_lgbl (\<lambda>g. g\<lparr>g_dma := (g_dma g)\<lparr>dma_buf := pages\<rparr>\<rparr>) s in
              if dma_chan env < 0 then abandon (- ECHRNG) [Dma_pages, Io_mapping, Mem_region] held s
              else
                let held = Dma_channel # held;
                    s = upd_lgbl (\<lambda>g. g\<lparr>g_dma := (g_dma g)\<lparr>aborting := False\<rparr>\<rparr>) s in
                if pmsize (modp s) > LIBERA_PMSIZE_MAX then
                  abandon (- EINVAL) [Dma_channel, Dma_pages, Io_mapping, Mem_region] held s
                else if \<not> vmalloc_ok env then
                  abandon (- ENOMEM) [Dma_channel, Dma_pages, Io_mapping, Mem_region] held s
                else
                  let held = Pm_pages # held;
                      s = s\<lparr>pm := (pm s)\<lparr>pm_buf := replicate (unat (pmsize (modp s))) zero_atom\<rparr>\<rparr>;
                      s = set_irqMask 0 s;
                      s = upd_lgbl (\<lambda>g. g\<lparr>g_irq := irq_gpio env\<rparr>) s;
                      ret = irq_result env in
                  if ret \<noteq> 0 then
                    abandon ret [Pm_pages, Dma_channel, Dma_pages, Io_mapping, Mem_region] held
                      (upd_lgbl (\<lambda>g. g\<lparr>g_irq := -1\<rparr>) s)
                  else
                    let held = Irq_line # held;
                        s = start_interrupts s;
                        s = snd (libera_init_specific s) in
                    Option.bind (install_devices env held) (\<lambda>(ret, held).
                      if ret < 0 then
                        Option.bind (uninstall_interrupts s held) (\<lambda>(s, held).
                          abandon ret [Pm_pages, Dma_channel, Dma_pages, Io_mapping, Mem_region] held s)
                      else Some (0, s, held)))"

text \<open>The channel and the address are those the module was loaded with.\<close>

definition libera_exit :: "load_env \<Rightarrow> libera \<Rightarrow> resource list \<Rightarrow> (libera \<times> resource list) option" where
  "libera_exit env s held =
     Option.bind (uninstall_devices held) (\<lambda>held.
     Option.bind (uninstall_interrupts s held) (\<lambda>(s, held).
     Option.bind (give_back Pm_pages held) (\<lambda>held.
     Option.bind (if dma_chan env \<ge> 0 then give_back Dma_channel held else Some held) (\<lambda>held.
     Option.bind (give_back Dma_pages held) (\<lambda>held.
     Option.bind (if io_address env \<noteq> 0 then give_back_all [Io_mapping, Mem_region] held else Some held) (\<lambda>held.
       Some (s, held)))))))"

section \<open>Nothing leaks\<close>

text \<open>
  What the kernel documents: \<^verbatim>\<open>request_irq\<close> returns 0 or a negative error, an error pointer holds a
  negative error, and the mapping of the registers is not at address 0 (the driver reads through it
  at once).
\<close>

definition env_ok :: "load_env \<Rightarrow> bool" where
  "env_ok env \<longleftrightarrow> irq_result env \<le> 0 \<and> (\<forall>e. class_error env = Some e \<longrightarrow> e < 0) \<and>
     (\<forall>n e. node_error env n = Some e \<longrightarrow> e < 0) \<and> io_address env \<noteq> 0"

text \<open>The nodes are given back in the order they were made, the opposite of the order they are held.\<close>

lemma give_back_nodes:
  "give_back_all (map Dev_node [k..<n]) (map Dev_node (rev [k..<n]) @ held) = Some held"
proof (induction n arbitrary: held)
  case 0
  then show ?case by simp
next
  case (Suc n)
  show ?case
  proof (cases "k \<le> n")
    case True
    have *: "give_back_all xs (y # ys) = map_option ((#) y) (give_back_all xs ys)"
      if "y \<notin> set xs" for xs y ys
      using that by (induction xs arbitrary: ys) (auto simp: give_back_def)
    have "give_back_all (map Dev_node [k..<n]) (Dev_node n # map Dev_node (rev [k..<n]) @ held) =
        Some (Dev_node n # held)"
      using Suc.IH [of held] by (subst *) auto
    then show ?thesis using True by (simp add: give_back_all_append)
  qed simp
qed

lemma create_nodes_held:
  "create_nodes env n k held = Inr h \<Longrightarrow> h = map Dev_node (rev [k..<k + n]) @ held"
  "create_nodes env n k held = Inl (e, m, h) \<Longrightarrow>
     k \<le> m \<and> node_error env m = Some e \<and> h = map Dev_node (rev [k..<m]) @ held"
proof (induction n arbitrary: k held)
  case 0
  { case 1 then show ?case using 0 by simp }
  { case 2 then show ?case using 0 by simp }
next
  case (Suc n)
  { case 1
    then have "create_nodes env n (k + 1) (Dev_node k # held) = Inr h" by (simp split: option.splits)
    from Suc.IH(1) [OF this] show ?case by (simp add: upt_conv_Cons del: upt_Suc) }
  { case 2
    then consider "node_error env k = Some e" "m = k" "h = held"
      | "create_nodes env n (k + 1) (Dev_node k # held) = Inl (e, m, h)"
      by (simp split: option.splits)
    then show ?case
    proof cases
      case 2
      from Suc.IH(2) [OF this] show ?thesis by (simp add: upt_conv_Cons del: upt_Suc)
    qed simp }
qed

lemma install_devices_ok:
  assumes "env_ok env"
  shows "(\<exists>e<0. install_devices env held = Some (e, held)) \<or>
    install_devices env held =
      Some (0, map Dev_node (rev [0..<dev_count]) @ [Dev_class, Cdev, Chrdev_region] @ held)"
proof (cases "create_nodes env dev_count 0 (Dev_class # Cdev # Chrdev_region # held)")
  case (Inl x)
  then obtain e m h where i: "create_nodes env dev_count 0 (Dev_class # Cdev # Chrdev_region # held) = Inl (e, m, h)"
    by (cases x) auto
  from create_nodes_held(2) [OF i]
  have "e < 0" "give_back_all (map Dev_node [0..<m] @ [Dev_class, Cdev, Chrdev_region]) h = Some held"
    using assms give_back_nodes [of 0 m] by (auto simp: env_ok_def give_back_all_append)
  then show ?thesis using assms i
    by (auto simp: install_devices_def undo_def Let_def env_ok_def split: option.splits)
next
  case (Inr h)
  from create_nodes_held(1) [OF Inr] show ?thesis using assms Inr
    by (auto simp: install_devices_def undo_def Let_def env_ok_def split: option.splits)
qed

lemma create_nodes_result:
  "(\<exists>h. create_nodes env n k held = Inr h) \<longleftrightarrow> (\<forall>m. k \<le> m \<and> m < k + n \<longrightarrow> node_error env m = None)"
proof (induction n arbitrary: k held)
  case 0
  then show ?case by auto
next
  case (Suc n)
  have "(\<forall>m. k \<le> m \<and> m < k + Suc n \<longrightarrow> P m) \<longleftrightarrow> P k \<and> (\<forall>m. k + 1 \<le> m \<and> m < k + 1 + n \<longrightarrow> P m)" for P
  proof -
    have "k \<le> m \<and> m < k + Suc n \<longleftrightarrow> m = k \<or> (k + 1 \<le> m \<and> m < k + 1 + n)" for m by auto
    then show ?thesis by auto
  qed
  then show ?case using Suc.IH [of "k + 1"] by (simp split: option.splits)
qed

definition devices_ok :: "load_env \<Rightarrow> bool" where
  "devices_ok env \<longleftrightarrow> chrdev_result env \<ge> 0 \<and> cdev_result env \<ge> 0 \<and> class_error env = None \<and>
     (\<forall>m<dev_count. node_error env m = None)"

definition module_resources :: "resource list" where
  "module_resources = map Dev_node (rev [0..<dev_count]) @ [Dev_class, Cdev, Chrdev_region, Irq_line,
     Pm_pages, Dma_channel, Dma_pages, Io_mapping, Mem_region]"

lemma install_devices_result:
  assumes "env_ok env"
  shows "if devices_ok env
    then install_devices env held =
      Some (0, map Dev_node (rev [0..<dev_count]) @ [Dev_class, Cdev, Chrdev_region] @ held)
    else \<exists>e<0. install_devices env held = Some (e, held)"
proof -
  have n: "(\<exists>h. create_nodes env dev_count 0 x = Inr h) \<longleftrightarrow> (\<forall>m<dev_count. node_error env m = None)" for x
    using create_nodes_result [of env dev_count 0 x] by simp
  have "devices_ok env" if "install_devices env held = Some (0, h)" for h
    using that n [of "Dev_class # Cdev # Chrdev_region # held"]
    by (auto simp: install_devices_def devices_ok_def undo_def Let_def
        dest!: create_nodes_held(2) split: if_splits option.splits sum.splits)
       (use assms in \<open>auto simp: env_ok_def\<close>)
  moreover have "\<exists>h. install_devices env held = Some (0, h)" if "devices_ok env"
    using that n [of "Dev_class # Cdev # Chrdev_region # held"]
    by (auto simp: install_devices_def devices_ok_def Let_def)
  ultimately show ?thesis using install_devices_ok [OF assms, of held] by auto
qed

lemma abandon_some: "abandon e rs held s = Some (r, t, h) \<longleftrightarrow> r = e \<and> t = s \<and> give_back_all rs held = Some h"
  by (auto simp: abandon_def)

lemma modp_init [simp]:
  "modp (libera_init_devs s) = modp s" "modp (probe_fpga s) = modp s" "modp (upd_lgbl g s) = modp s"
  by (simp_all add: libera_init_devs_def probe_fpga_def upd_lgbl_def Let_def case_prod_unfold)

text \<open>The faults that make loading fail.\<close>

definition load_ok :: "load_env \<Rightarrow> modparams \<Rightarrow> bool" where
  "load_ok env m \<longleftrightarrow> flmcdHz m \<noteq> 0 \<and> region_free env \<and> dma_pages env \<noteq> None \<and> dma_chan env \<ge> 0 \<and>
     pmsize m \<le> LIBERA_PMSIZE_MAX \<and> vmalloc_ok env \<and> irq_result env = 0 \<and> devices_ok env"

lemma exit_all:
  assumes "io_address env \<noteq> 0" "dma_chan env \<ge> 0"
  shows "\<exists>u. libera_exit env t module_resources = Some (u, []) \<and> irqMask (lgbl u) = 0 \<and>
    take 3 (trace u) = [Wr T_MC_TRIGGER_MASK 0, Wr T_SC_TRIGGER_MASK 0, Wr SBC_IRQ_MASK 0]"
  using give_back_nodes [of 0 dev_count] assms
  by (simp add: libera_exit_def uninstall_devices_def uninstall_interrupts_def module_resources_def
      give_back_all_append set_irqMask_def Let_def writel_def eval_nat_numeral del: upt_Suc)

lemma load_succeeds:
  assumes "env_ok env" "load_ok env (modp s)"
  shows "\<exists>t. libera_init env s [] = Some (0, t, module_resources)"
proof -
  let ?h = "[Irq_line, Pm_pages, Dma_channel, Dma_pages, Io_mapping, Mem_region]"
  have "install_devices env ?h = Some (0, module_resources)" "dma_chan env \<ge> 0"
    using assms(2) install_devices_result [OF assms(1), of ?h] by (simp_all add: load_ok_def module_resources_def)
  moreover obtain pages where "dma_pages env = Some pages" using assms(2) by (auto simp: load_ok_def)
  ultimately show ?thesis
    using assms(2) by (simp add: libera_init_def Let_def load_ok_def not_less [symmetric])
qed


text \<open>A kernel where the registration of node 3 fails, and one where nothing fails.\<close>

definition sample_env :: "int option \<Rightarrow> load_env" where
  "sample_env e = \<lparr>region_free = True, io_address = 0xC0000000, dma_pages = Some (\<lambda>_. zero_atom), dma_chan = 2,
     vmalloc_ok = True, irq_gpio = 24, irq_result = 0, chrdev_result = 0, cdev_result = 0, class_error = None,
     node_error = (\<lambda>n. if n = 3 then e else None)\<rparr>"


section \<open>Both clocks at once\<close>

text \<open>
  What the FPGA promises for its timing modules: each shows its FIFO, and the vector shows the source
  of each module as long as its FIFO holds an entry.
\<close>

definition clocks_fpga :: "(u32 \<times> u32) list \<Rightarrow> (u32 \<times> u32) list \<Rightarrow> (io list \<Rightarrow> u32 \<Rightarrow> u32) \<Rightarrow> io list \<Rightarrow> bool" where
  "clocks_fpga es ms f tr0 \<longleftrightarrow>
     timing_fifo T_SC_STATUSL T_SC_STATUSH T_SC_FIFOADV es f tr0 \<and>
     timing_fifo T_MC_STATUSL T_MC_STATUSH T_MC_FIFOADV ms f tr0 \<and>
     (\<forall>tr. f tr SBC_IRQ =
        (if advances T_SC_FIFOADV tr - advances T_SC_FIFOADV tr0 < length es then LIBERA_INTERRUPT_SC_MASK else 0) OR
        (if advances T_MC_FIFOADV tr - advances T_MC_FIFOADV tr0 < length ms then LIBERA_INTERRUPT_MC_MASK else 0))"

text \<open>The wake ups of the readers of the two clocks, the latest first.\<close>

definition clock_wakes :: "libera \<Rightarrow> wq list" where
  "clock_wakes s = filter (\<lambda>q. q = SC_queue \<or> q = MC_queue) (wakes s)"

lemma clock_wakes_simps [simp]:
  "clock_wakes (snd (readl a s)) = clock_wakes s" "clock_wakes (writel v a s) = clock_wakes s"
  "clock_wakes (wake_up_interruptible q s) = (if q = SC_queue \<or> q = MC_queue then q # clock_wakes s else clock_wakes s)"
  "clock_wakes (s\<lparr>event := e\<rparr>) = clock_wakes s" "clock_wakes (s\<lparr>cfg := c\<rparr>) = clock_wakes s"
  "clock_wakes (printk_crit m s) = clock_wakes s"
  by (simp_all add: clock_wakes_def readl_def writel_def Let_def wake_up_interruptible_def printk_crit_def)

lemma send_event_wakes [simp]: "clock_wakes (send_event i p s) = clock_wakes s"
  by (simp add: libera_send_event_def Let_def case_prod_unfold)

lemma sc_trigger_wakes: "clock_wakes (sc_trigger x y i m s) = clock_wakes s"
  by (simp add: sc_trigger_def libera_SCtrig_specific_def put_pair_lst_def put_sc_stamp_def Let_def case_prod_unfold)

lemma fold_same: "(\<And>x s. g (f x s) = g s) \<Longrightarrow> g (fold f xs s) = g s"
  by (induction xs arbitrary: s) auto

lemma sc_act_wakes: "clock_wakes (sc_act sl sh s) = clock_wakes s"
  unfolding sc_act_def Let_def by (subst fold_same [of clock_wakes]) (simp_all add: sc_trigger_wakes)

text \<open>What the machine clock's handler leaves to the readers of the system clock.\<close>

definition sc_side :: "libera \<Rightarrow> (nat \<Rightarrow> u64 ring) \<times> wq list" where
  "sc_side s = (sc_timestamps (event s), clock_wakes s)"

lemma send_event_side [simp]: "sc_side (send_event i p s) = sc_side s"
  by (simp add: sc_side_def) (simp add: libera_send_event_def Let_def case_prod_unfold printk_crit_def)

lemma sc_side_simps [simp]:
  "sc_side (snd (readl a s)) = sc_side s" "sc_side (writel v a s) = sc_side s" "sc_side (s\<lparr>cfg := c\<rparr>) = sc_side s"
  "sc_side (printk_crit m s) = sc_side s"
  by (simp_all add: sc_side_def) (simp add: printk_crit_def)

lemma sc_side_event: "sc_timestamps e = sc_timestamps (event s) \<Longrightarrow> sc_side (s\<lparr>event := e\<rparr>) = sc_side s"
  by (simp add: sc_side_def)

lemma set_time_side: "sc_side (libera_set_time s) = sc_side s"
  by (simp add: libera_set_time_def libera_set_LST_def libera_set_LMT_def Let_def sc_side_event)

lemma mc_trigger_side: "sc_side (mc_trigger x y i m s) = sc_side s"
  by (simp add: mc_trigger_def libera_MCtrig_specific_def Let_def put_mc_stamp_def put_pair_lmt_def
      case_prod_unfold set_time_side sc_side_event)

lemma selfinc_side: "sc_side (libera_mc_selfinc_specific s) = sc_side s"
  unfolding libera_mc_selfinc_specific_def Let_def by (auto simp only: sc_side_simps split: if_split)

lemma mc_act_side: "sc_side (mc_act sl sh s) = sc_side s"
  unfolding mc_act_def Let_def
  by (subst fold_same [of sc_side]) (auto simp: mc_trigger_side selfinc_side sc_side_event)

lemma advances_Rd: "advances a (Rd b v # tr) = (if b = a then Suc (advances a tr) else advances a tr)"
  by (simp add: advances_def)

lemma sc_pass_frame:
  "advances T_MC_FIFOADV (trace (sc.pass e s)) = advances T_MC_FIFOADV (trace s)"
  "clock_wakes (sc.pass e s) = clock_wakes s"
  using sc_act_quiet [of "snd (readl T_SC_FIFOADV (snd (readl T_SC_STATUSH s)))" "fst e" "snd e"]
  by (simp_all add: timing_pass_def Let_def quiet_def advances_Rd sc_act_wakes reg_defs)

lemma mc_pass_frame:
  "advances T_SC_FIFOADV (trace (mc.pass e s)) = advances T_SC_FIFOADV (trace s)"
  "sc_side (mc.pass e s) = sc_side s"
  using mc_act_quiet [of "snd (readl T_MC_FIFOADV (snd (readl T_MC_STATUSH s)))" "fst e" "snd e"]
  by (simp_all add: timing_pass_def Let_def quiet_def advances_Rd mc_act_side reg_defs)

lemma timing_fifo_cong:
  "advances c tr1 = advances c tr0 \<Longrightarrow> timing_fifo a b c es f tr1 = timing_fifo a b c es f tr0"
  by (simp add: timing_fifo_def)

text \<open>Each handler empties its module and leaves the other's.\<close>

lemma sc_served:
  assumes "timing_fifo T_SC_STATUSL T_SC_STATUSH T_SC_FIFOADV es (fpga s) (trace s)"
    and "\<forall>i. trig_wf (sc_timestamps (event s) i)" "j \<noteq> T_TRIG_TRIGGER" "j \<noteq> T_TRIG_POST_MORTEM"
  obtains t where "libera_sc_handler s = Some t" "fpga t = fpga s"
    "advances T_SC_FIFOADV (trace t) = advances T_SC_FIFOADV (trace s) + length es"
    "advances T_MC_FIFOADV (trace t) = advances T_MC_FIFOADV (trace s)"
    "clock_wakes t = SC_queue # clock_wakes s"
    "trig_contents (sc_timestamps (event t) j) =
      accept 4095 (trig_contents (sc_timestamps (event s) j))
        (map (sc_value j (lst_off (set_time (event s))) \<circ> snd)
          (filter (\<lambda>(i, _). i = j) (sc_stamps (sc_time (event s)) es)))"
proof -
  let ?u = "fold sc.pass es (snd (readl T_SC_STATUSL s))"
  have h: "libera_sc_handler s = Some (wake_up_interruptible SC_queue ?u)"
    using sc.handler_drains [OF assms(1)] by (simp add: libera_sc_handler_def case_prod_unfold)
  have a: "advances T_SC_FIFOADV (trace ?u) = advances T_SC_FIFOADV (trace s) + length es"
    using fold_advances [of T_SC_FIFOADV sc.pass, OF sc.pass_advances] by (simp add: advances_Rd reg_defs)
  have f: "fpga ?u = fpga s" using fold_same [of fpga sc.pass, OF sc.pass_fpga] by simp
  have b: "advances T_MC_FIFOADV (trace ?u) = advances T_MC_FIFOADV (trace s)"
    using fold_same [of "\<lambda>s. advances T_MC_FIFOADV (trace s)" sc.pass, OF sc_pass_frame(1)]
    by (simp add: advances_Rd reg_defs)
  have w: "clock_wakes ?u = clock_wakes s"
    using fold_same [of clock_wakes sc.pass, OF sc_pass_frame(2)] by simp
  note d = sc_passes_deliver [of "snd (readl T_SC_STATUSL s)" j es]
  show thesis
    by (rule that [OF h]) (use a f b w d assms(2-4) in \<open>simp_all add: wake_up_interruptible_def clock_wakes_def\<close>)
qed

lemma mc_served:
  assumes "timing_fifo T_MC_STATUSL T_MC_STATUSH T_MC_FIFOADV ms (fpga s) (trace s)"
  obtains t where "libera_mc_handler s = Some t" "fpga t = fpga s"
    "advances T_MC_FIFOADV (trace t) = advances T_MC_FIFOADV (trace s) + length ms"
    "advances T_SC_FIFOADV (trace t) = advances T_SC_FIFOADV (trace s)"
    "clock_wakes t = MC_queue # clock_wakes s" "sc_timestamps (event t) = sc_timestamps (event s)"
proof -
  let ?u = "fold mc.pass ms (snd (readl T_MC_STATUSL s))"
  have h: "libera_mc_handler s = Some (wake_up_interruptible MC_queue ?u)"
    using mc.handler_drains [OF assms(1)] by (simp add: libera_mc_handler_def case_prod_unfold)
  have a: "advances T_MC_FIFOADV (trace ?u) = advances T_MC_FIFOADV (trace s) + length ms"
    using fold_advances [of T_MC_FIFOADV mc.pass, OF mc.pass_advances] by (simp add: advances_Rd reg_defs)
  have f: "fpga ?u = fpga s" using fold_same [of fpga mc.pass, OF mc.pass_fpga] by simp
  have b: "advances T_SC_FIFOADV (trace ?u) = advances T_SC_FIFOADV (trace s)"
    using fold_same [of "\<lambda>s. advances T_SC_FIFOADV (trace s)" mc.pass, OF mc_pass_frame(1)]
    by (simp add: advances_Rd reg_defs)
  have "sc_side ?u = sc_side s" using fold_same [of sc_side mc.pass, OF mc_pass_frame(2)] by simp
  then have "clock_wakes ?u = clock_wakes s" "sc_timestamps (event ?u) = sc_timestamps (event s)"
    by (simp_all add: sc_side_def)
  then show thesis
    by (intro that [OF h]) (use a f b in \<open>simp_all add: wake_up_interruptible_def clock_wakes_def\<close>)
qed

lemma clock_vec: "((if p then 0 else 2) OR (if q then 0 else 8) :: u32) = 0 \<longleftrightarrow> p \<and> q"
  by (cases p; cases q) simp_all

lemma clock_bits:
  assumes "(m :: u32) AND 0xA = 0xA"
  shows "((if p then 2 else 0) OR (if q then 8 else 0)) AND m = (if p then 2 else 0) OR (if q then 8 else 0)"
proof -
  have "x AND m = x" if "x AND 0xA = x" for x
  proof -
    have "x AND m = (x AND 0xA) AND m" by (simp only: that)
    also have "\<dots> = x AND (m AND 0xA)" by (simp only: ac_simps)
    finally show ?thesis by (simp only: assms that)
  qed
  then show ?thesis by (cases p; cases q) simp_all
qed

text \<open>One pass over the sources pending, after which none is.\<close>

lemma one_pass:
  assumes "fst (readl SBC_IRQ s) AND get_irqMask (snd (readl SBC_IRQ s)) = v"
    and "v \<noteq> 0 \<Longrightarrow> irq_pass v (snd (readl SBC_IRQ s)) = Some t" "v = 0 \<Longrightarrow> t = snd (readl SBC_IRQ s)"
    and "fst (readl SBC_IRQ t) = 0"
  obtains u where "irq_loop s = Some u" "u = t \<or> u = snd (readl SBC_IRQ t)"
proof (cases "v = 0")
  case True
  then have "irq_loop s = Some t"
    using assms(1,3) by (simp add: irq_loop.simps [of s] case_prod_unfold Let_def del: fst_readl)
  then show thesis using that by blast
next
  case False
  have "irq_loop t = Some (snd (readl SBC_IRQ t))"
    using assms(4) by (subst irq_loop.simps) (simp add: case_prod_unfold Let_def del: fst_readl)
  then have "irq_loop s = Some (snd (readl SBC_IRQ t))"
    using assms(1,2) False by (simp add: irq_loop.simps [of s] case_prod_unfold Let_def del: fst_readl)
  then show thesis using that by blast
qed

text \<open>The handlers of the two clocks, each run when its module has entries, the system clock's first.\<close>

lemma clocks_pass:
  fixes es ms
  defines "v \<equiv> (if es = [] then 0 else 2) OR (if ms = [] then 0 else 8) :: u32"
  assumes "timing_fifo T_SC_STATUSL T_SC_STATUSH T_SC_FIFOADV es (fpga s) (trace s)"
    and "timing_fifo T_MC_STATUSL T_MC_STATUSH T_MC_FIFOADV ms (fpga s) (trace s)"
    and "\<forall>i. trig_wf (sc_timestamps (event s) i)" "j \<noteq> T_TRIG_TRIGGER" "j \<noteq> T_TRIG_POST_MORTEM"
  obtains t where "v \<noteq> 0 \<Longrightarrow> irq_pass v s = Some t" "v = 0 \<Longrightarrow> t = s" "fpga t = fpga s"
    "advances T_SC_FIFOADV (trace t) = advances T_SC_FIFOADV (trace s) + length es"
    "advances T_MC_FIFOADV (trace t) = advances T_MC_FIFOADV (trace s) + length ms"
    "trig_contents (sc_timestamps (event t) j) =
      accept 4095 (trig_contents (sc_timestamps (event s) j))
        (map (sc_value j (lst_off (set_time (event s))) \<circ> snd)
          (filter (\<lambda>(i, _). i = j) (sc_stamps (sc_time (event s)) es)))"
    "clock_wakes t = (if ms = [] then [] else [MC_queue]) @ (if es = [] then [] else [SC_queue]) @ clock_wakes s"
proof -
  obtain t1 where t1: "(if es = [] then Some s else libera_sc_handler s) = Some t1" "fpga t1 = fpga s"
    "advances T_SC_FIFOADV (trace t1) = advances T_SC_FIFOADV (trace s) + length es"
    "advances T_MC_FIFOADV (trace t1) = advances T_MC_FIFOADV (trace s)"
    "clock_wakes t1 = (if es = [] then [] else [SC_queue]) @ clock_wakes s"
    "trig_contents (sc_timestamps (event t1) j) =
      accept 4095 (trig_contents (sc_timestamps (event s) j))
        (map (sc_value j (lst_off (set_time (event s))) \<circ> snd)
          (filter (\<lambda>(i, _). i = j) (sc_stamps (sc_time (event s)) es)))"
    by (cases "es = []", use assms(4) in \<open>force simp: ts.accept_empty\<close>, rule sc_served [OF assms(2,4-6)]) auto
  have "timing_fifo T_MC_STATUSL T_MC_STATUSH T_MC_FIFOADV ms (fpga t1) (trace t1)"
    using assms(3) t1(2,4) timing_fifo_cong [of T_MC_FIFOADV "trace t1" "trace s"] by simp
  note mc = mc_served [OF this]
  obtain t2 where t2: "(if ms = [] then Some t1 else libera_mc_handler t1) = Some t2" "fpga t2 = fpga s"
    "advances T_MC_FIFOADV (trace t2) = advances T_MC_FIFOADV (trace s) + length ms"
    "advances T_SC_FIFOADV (trace t2) = advances T_SC_FIFOADV (trace s) + length es"
    "clock_wakes t2 = (if ms = [] then [] else [MC_queue]) @ clock_wakes t1"
    "sc_timestamps (event t2) = sc_timestamps (event t1)"
    by (cases "ms = []", use t1(2-4) in force, rule mc) (use t1(2-4) in auto)
  have "v \<noteq> 0 \<Longrightarrow> irq_pass v s = Some t2"
    using t1(1) t2(1) by (cases "es = []"; cases "ms = []") (simp_all add: v_def irq_pass_def reg_defs)
  moreover have "t2 = s" if "v = 0"
  proof -
    have "es = [] \<and> ms = []" using that unfolding v_def by (simp only: clock_vec)
    then show ?thesis using t1(1) t2(1) by simp
  qed
  ultimately show thesis using t1(5,6) t2 by (intro that [of t2]) simp_all
qed

text \<open>
  C4: an interrupt with both clocks pending is served completely and returns: with any entries in the
  FIFOs of the two timing modules, the handler takes every one of them, queues the stamps of the
  system clock, and ends with no source pending; the system clock is always handled before the machine
  clock (the waiting pair of a CTIME request needs that), each at most once.
\<close>

theorem clock_interrupts_served:
  assumes "clocks_fpga es ms (fpga s) (trace s)"
    and "irqMask (lgbl s) AND 0xA = 0xA" "\<forall>i. trig_wf (sc_timestamps (event s) i)"
    and "j \<noteq> T_TRIG_TRIGGER" "j \<noteq> T_TRIG_POST_MORTEM"
  shows "\<exists>t. libera_interrupt (g_irq (lgbl s)) s = Some (IRQ_HANDLED, t) \<and>
    advances T_SC_FIFOADV (trace t) = advances T_SC_FIFOADV (trace s) + length es \<and>
    advances T_MC_FIFOADV (trace t) = advances T_MC_FIFOADV (trace s) + length ms \<and>
    trig_contents (sc_timestamps (event t) j) =
      accept 4095 (trig_contents (sc_timestamps (event s) j))
        (map (sc_value j (lst_off (set_time (event s))) \<circ> snd)
          (filter (\<lambda>(i, _). i = j) (sc_stamps (sc_time (event s)) es))) \<and>
    clock_wakes t = (if ms = [] then [] else [MC_queue]) @ (if es = [] then [] else [SC_queue]) @ clock_wakes s"
proof -
  let ?s = "snd (readl SBC_IRQ s)"
  let ?v = "(if es = [] then 0 else 2) OR (if ms = [] then 0 else 8) :: u32"
  have v: "fst (readl SBC_IRQ s) AND get_irqMask ?s = ?v"
    using assms(1) clock_bits [OF assms(2), of "es \<noteq> []" "ms \<noteq> []"]
    by (simp add: clocks_fpga_def get_irqMask_def reg_defs del: clock_bits cong: if_cong)
  have adv: "advances T_SC_FIFOADV (trace ?s) = advances T_SC_FIFOADV (trace s)"
    "advances T_MC_FIFOADV (trace ?s) = advances T_MC_FIFOADV (trace s)"
    by (simp_all add: advances_Rd reg_defs)
  have fifos: "timing_fifo T_SC_STATUSL T_SC_STATUSH T_SC_FIFOADV es (fpga ?s) (trace ?s)"
    "timing_fifo T_MC_STATUSL T_MC_STATUSH T_MC_FIFOADV ms (fpga ?s) (trace ?s)"
    using assms(1) timing_fifo_cong [OF adv(1)] timing_fifo_cong [OF adv(2)] by (simp_all add: clocks_fpga_def)
  show ?thesis
  proof (rule clocks_pass [OF fifos, of j])
    fix t2
    assume t2: "?v \<noteq> 0 \<Longrightarrow> irq_pass ?v ?s = Some t2" "?v = 0 \<Longrightarrow> t2 = ?s" "fpga t2 = fpga ?s"
      "advances T_SC_FIFOADV (trace t2) = advances T_SC_FIFOADV (trace ?s) + length es"
      "advances T_MC_FIFOADV (trace t2) = advances T_MC_FIFOADV (trace ?s) + length ms"
      "trig_contents (sc_timestamps (event t2) j) =
        accept 4095 (trig_contents (sc_timestamps (event ?s) j))
          (map (sc_value j (lst_off (set_time (event ?s))) \<circ> snd)
            (filter (\<lambda>(i, _). i = j) (sc_stamps (sc_time (event ?s)) es)))"
      "clock_wakes t2 = (if ms = [] then [] else [MC_queue]) @ (if es = [] then [] else [SC_queue]) @ clock_wakes ?s"
    have "fst (readl SBC_IRQ t2) = 0" using assms(1) t2(3-5) adv by (simp add: clocks_fpga_def)
    from one_pass [OF v t2(1,2) this] obtain t where "irq_loop s = Some t" "t = t2 \<or> t = snd (readl SBC_IRQ t2)" .
    then show ?thesis
      using t2(4-7) by (auto simp: libera_interrupt_def advances_Rd reg_defs)
  qed (use assms(3-5) in simp_all)
qed

text \<open>Two entries of the system clock and one of the machine clock.\<close>

definition two_clocks :: "(u32 \<times> u32) list \<Rightarrow> (u32 \<times> u32) list \<Rightarrow> io list \<Rightarrow> u32 \<Rightarrow> u32" where
  "two_clocks es ms tr a =
     (if a = SBC_IRQ then
        (if advances T_SC_FIFOADV tr < length es then LIBERA_INTERRUPT_SC_MASK else 0) OR
        (if advances T_MC_FIFOADV tr < length ms then LIBERA_INTERRUPT_MC_MASK else 0)
      else if a = T_SC_STATUSL \<or> a = T_SC_STATUSH then fifo_fpga T_SC_STATUSL T_SC_STATUSH T_SC_FIFOADV es tr a
      else fifo_fpga T_MC_STATUSL T_MC_STATUSH T_MC_FIFOADV ms tr a)"

lemma two_clocks_ok:
  assumes "\<forall>e\<in>set es. T_FIFO_SIZE (fst e) \<noteq> 0" "\<forall>e\<in>set ms. T_FIFO_SIZE (fst e) \<noteq> 0"
  shows "clocks_fpga es ms (two_clocks es ms) []"
  using assms
  by (auto simp: clocks_fpga_def timing_fifo_def two_clocks_def fifo_fpga_def Let_def reg_defs T_FIFO_SIZE_def advances_def)

theorem clock_interrupts_served_witness:
  "\<exists>t. libera_interrupt 0 ((libera_bss (two_clocks [(0x40000001, 7), (0x00400001, 9)] [(0x40000001, 3)]))
        \<lparr>lgbl := zero_global\<lparr>irqMask := 0x17E\<rparr>\<rparr>) = Some (IRQ_HANDLED, t) \<and>
     trig_contents (sc_timestamps (event t) 0) = [9] \<and> clock_wakes t = [MC_queue, SC_queue]"
proof -
  let ?es = "[(0x40000001, 7), (0x00400001, 9)] :: (u32 \<times> u32) list" let ?ms = "[(0x40000001, 3)] :: (u32 \<times> u32) list"
  let ?s = "(libera_bss (two_clocks ?es ?ms))\<lparr>lgbl := zero_global\<lparr>irqMask := 0x17E\<rparr>\<rparr>"
  have c: "clocks_fpga ?es ?ms (fpga ?s) (trace ?s)"
    using two_clocks_ok [of ?es ?ms] by (simp add: libera_bss_def T_FIFO_SIZE_def)
  have tr: "triggers 0x40000001 = [8]" "triggers 0x00400001 = [0]"
    by (simp_all add: triggers_def upt_rec)
  have st: "sc_stamps 0 ?es = [(8, stamp64 7 0), (0, stamp64 9 0)]"
    by (simp add: tr next_count_def SELF_INC_TRIGGER_def push_bit_eq_mult)
  have "stamp64 9 0 = 9" by (simp add: stamp64_def)
  then show ?thesis
    using clock_interrupts_served [OF c, of 0] st
    by (auto simp: libera_bss_def zero_event_dev_def zero_global_def reg_defs clock_wakes_def accept_def
        sc_value_def zero_settime_def)
qed

end
