(* ===== verification/System.thy ===== *)
theory System
  imports Driver
begin

text \<open>
  The driver as one system: every way into it (interrupts, the tasklet, the file operations of all
  devices) is an \<open>entry\<close>, and what a sequence of entries keeps, whatever the FPGA answers and whatever
  runs while an entry sleeps.
\<close>

section \<open>The invariant\<close>

text \<open>
  The queues: those of the event device, the interrupts of data on demand, the buffer and the pipes of
  slow acquisition. The stamps of the TRIGGER and POST_MORTEM triggers go to the buffers of pairs, so
  their FIFOs stay empty.
\<close>

definition paired :: "nat \<Rightarrow> bool" where
  "paired i \<longleftrightarrow> i = T_TRIG_TRIGGER \<or> i = T_TRIG_POST_MORTEM"

definition stamps_ok :: "nat \<Rightarrow> u64 ring \<Rightarrow> bool" where
  "stamps_ok i q \<longleftrightarrow> trig_wf q \<and> (paired i \<longrightarrow> trig_contents q = [])"

definition queues_ok :: "libera \<Rightarrow> bool" where
  "queues_ok s \<longleftrightarrow> trig_wf (events (event s)) \<and>
     (\<forall>i. stamps_ok i (sc_timestamps (event s) i) \<and> stamps_ok i (mc_timestamps (event s) i)) \<and>
     trig_wf (dd_irqevents (dd s)) \<and> buf_ok s \<and> sa_inv s"

text \<open>The buffers: the indices of the DMA FIFO, and the sizes of the buffers of the block devices.\<close>

definition buffers_ok :: "libera \<Rightarrow> bool" where
  "buffers_ok s \<longleftrightarrow> dma_ok (dma_of s) \<and> length (blk_buf (fa s)) = FAI_BLOCKSIZE div 4 \<and>
     length (blk_buf (dsc s)) = DSC_BLOCKSIZE div 4"

definition driver_wf :: "libera \<Rightarrow> bool" where
  "driver_wf s \<longleftrightarrow> queues_ok s \<and> buffers_ok s"

lemmas wf_defs = driver_wf_def queues_ok_def buffers_ok_def buf_ok_def sa_inv_def sa_slots_def

lemma driver_wf_cong:
  assumes "event t = event s" "dd t = dd s" "sa t = sa s" "fa t = fa s" "dsc t = dsc s" "dma_of t = dma_of s"
  shows "driver_wf t = driver_wf s"
  using assms by (simp add: wf_defs)

lemma wf_parts:
  "driver_wf s \<Longrightarrow> dma_ok (dma_of s)" "driver_wf s \<Longrightarrow> sa_inv s" "driver_wf s \<Longrightarrow> buf_ok s"
  "driver_wf s \<Longrightarrow> length (blk_buf (fa s)) = FAI_BLOCKSIZE div 4"
  "driver_wf s \<Longrightarrow> length (blk_buf (dsc s)) = DSC_BLOCKSIZE div 4"
  "driver_wf s \<Longrightarrow> trig_wf (events (event s))" "driver_wf s \<Longrightarrow> stamps_ok i (sc_timestamps (event s) i)"
  "driver_wf s \<Longrightarrow> stamps_ok i (mc_timestamps (event s) i)" "driver_wf s \<Longrightarrow> trig_wf (dd_irqevents (dd s))"
  by (simp_all add: driver_wf_def queues_ok_def buffers_ok_def)

lemma stamps_wf: "stamps_ok i q \<Longrightarrow> trig_wf q"
  and stamps_put: "stamps_ok i q \<Longrightarrow> \<not> paired i \<Longrightarrow> stamps_ok i (snd (putToFIFO x q))"
  and stamps_flush: "stamps_ok i (flushFIFO q)"
  by (simp_all add: stamps_ok_def ts.wf_enq ts.wf_flush ts.contents_flush)

lemma stamps_get: "stamps_ok i q \<Longrightarrow> stamps_ok i (snd (getFromFIFO q))"
  using ts.deq_none [of q] by (simp add: stamps_ok_def ts.wf_deq)

text \<open>The updates the entries are made of.\<close>

lemma bus_frame [simp]:
  "event (snd (readl a s)) = event s" "dd (snd (readl a s)) = dd s" "sa (snd (readl a s)) = sa (s :: libera)"
  "fa (snd (readl a s)) = fa s" "dsc (snd (readl a s)) = dsc s" "lgbl (snd (readl a s)) = lgbl s"
  "event (writel v a s) = event s" "dd (writel v a s) = dd s" "sa (writel v a s) = sa s"
  "fa (writel v a s) = fa s" "dsc (writel v a s) = dsc s" "lgbl (writel v a s) = lgbl s"
  by (simp_all add: readl_def writel_def Let_def)

lemma wf_readl [simp]: "driver_wf (snd (readl a s)) = driver_wf s"
  and wf_writel [simp]: "driver_wf (writel v a s) = driver_wf s"
  and wf_printk [simp]: "driver_wf (printk_crit m s) = driver_wf s"
  and wf_wake [simp]: "driver_wf (wake_up_interruptible q s) = driver_wf s"
  and wf_cfg [simp]: "driver_wf (s\<lparr>cfg := c\<rparr>) = driver_wf s"
  and wf_pm [simp]: "driver_wf (s\<lparr>pm := p\<rparr>) = driver_wf s"
  and wf_adc [simp]: "driver_wf (s\<lparr>adc := d\<rparr>) = driver_wf s"
  and wf_modp [simp]: "driver_wf (s\<lparr>modp := m'\<rparr>) = driver_wf s"
  and wf_sleeps [simp]: "driver_wf (s\<lparr>sleeps := k'\<rparr>) = driver_wf s"
  and wf_irqMask [simp]: "driver_wf (set_irqMask k s) = driver_wf s"
  by (rule driver_wf_cong; simp add: printk_crit_def wake_up_interruptible_def set_irqMask_def Let_def)+

lemma wf_event:
  assumes "driver_wf s" "trig_wf (events e)" "\<forall>i. stamps_ok i (sc_timestamps e i) \<and> stamps_ok i (mc_timestamps e i)"
  shows "driver_wf (s\<lparr>event := e\<rparr>)"
  using assms by (simp add: wf_defs)

lemma wf_dd: "driver_wf s \<Longrightarrow> trig_wf (dd_irqevents d) \<Longrightarrow> driver_wf (s\<lparr>dd := d\<rparr>)"
  by (simp add: wf_defs)

lemma wf_sa: "driver_wf s \<Longrightarrow> sa_inv (s\<lparr>sa := d\<rparr>) \<Longrightarrow> buf_ok (s\<lparr>sa := d\<rparr>) \<Longrightarrow> driver_wf (s\<lparr>sa := d\<rparr>)"
  by (simp add: driver_wf_def queues_ok_def buffers_ok_def)

lemma wf_lgbl: "driver_wf s \<Longrightarrow> dma_ok (g_dma g) \<Longrightarrow> driver_wf (s\<lparr>lgbl := g\<rparr>)"
  by (simp add: wf_defs)

lemma wf_fa: "driver_wf s \<Longrightarrow> length (blk_buf d) = FAI_BLOCKSIZE div 4 \<Longrightarrow> driver_wf (s\<lparr>fa := d\<rparr>)"
  and wf_dsc: "driver_wf s \<Longrightarrow> length (blk_buf d) = DSC_BLOCKSIZE div 4 \<Longrightarrow> driver_wf (s\<lparr>dsc := d\<rparr>)"
  by (simp_all add: wf_defs)

lemma wf_send_event: "driver_wf s \<Longrightarrow> driver_wf (send_event i p s)"
  by (auto simp: libera_send_event_def Let_def case_prod_unfold intro!: wf_event ev.wf_enq simp: wf_parts)

lemma wf_put_stamp:
  assumes "driver_wf s" "\<not> paired i"
  shows "driver_wf (put_sc_stamp i m x s)" "driver_wf (put_mc_stamp i m x s)"
  using assms
  by (auto simp: put_sc_stamp_def put_mc_stamp_def Let_def case_prod_unfold intro!: wf_event stamps_put simp: wf_parts)

lemma wf_put_pair:
  "driver_wf s \<Longrightarrow> driver_wf (put_pair_lst i x s)" "driver_wf s \<Longrightarrow> driver_wf (put_pair_lmt i x s)"
  by (auto simp: put_pair_lst_def put_pair_lmt_def intro!: wf_event simp: wf_parts)

lemma wf_set_time: "driver_wf s \<Longrightarrow> driver_wf (libera_set_time s)"
proof -
  assume s: "driver_wf s"
  have l: "driver_wf (libera_set_LST x)" "driver_wf (libera_set_LMT x)" if "driver_wf x" for x
    using that by (auto simp: libera_set_LST_def libera_set_LMT_def Let_def intro!: wf_event simp: wf_parts)
  have "driver_wf (x\<lparr>event := (event x)\<lparr>set_time := t\<rparr>\<rparr>)" if "driver_wf x" for x t
    using that by (auto intro!: wf_event simp: wf_parts)
  then show ?thesis using s l by (simp add: libera_set_time_def Let_def)
qed

lemmas wf_steps = wf_send_event wf_put_stamp wf_put_pair wf_set_time

lemma prescalers_unpaired:
  "T_TRIG_MC_PRESCALER \<noteq> T_TRIG_TRIGGER" "T_TRIG_MC_PRESCALER \<noteq> T_TRIG_POST_MORTEM"
  "T_TRIG_SC_PRESCALER \<noteq> T_TRIG_TRIGGER" "T_TRIG_SC_PRESCALER \<noteq> T_TRIG_POST_MORTEM"
  by (simp_all add: T_TRIG_MC_PRESCALER_def T_TRIG_SC_PRESCALER_def T_TRIG_TRIGGER_def T_TRIG_POST_MORTEM_def)

lemma wf_sc_trigger: "driver_wf s \<Longrightarrow> driver_wf (sc_trigger x y i m s)"
  by (simp add: sc_trigger_def libera_SCtrig_specific_def wf_steps paired_def prescalers_unpaired)

lemma wf_mc_trigger: "driver_wf s \<Longrightarrow> driver_wf (mc_trigger x y i m s)"
  by (simp add: mc_trigger_def libera_MCtrig_specific_def Let_def wf_steps paired_def prescalers_unpaired)

lemma wf_fold: "(\<And>x s. driver_wf s \<Longrightarrow> driver_wf (f x s)) \<Longrightarrow> driver_wf s \<Longrightarrow> driver_wf (fold f xs s)"
  by (induction xs arbitrary: s) auto

lemma wf_selfinc: "driver_wf s \<Longrightarrow> driver_wf (libera_mc_selfinc_specific s)"
  by (simp add: libera_mc_selfinc_specific_def Let_def)

lemma wf_mchelp: "driver_wf s \<Longrightarrow> driver_wf (libera_mchelp_handler s)"
  unfolding libera_mchelp_handler_def libera_mchelp_handler_specific_def Let_def
  by (auto simp only: wf_writel split: if_split)

lemma wf_sc_time: "driver_wf s \<Longrightarrow> driver_wf (s\<lparr>event := (event s)\<lparr>sc_time := x\<rparr>\<rparr>)"
  and wf_mc_time: "driver_wf s \<Longrightarrow> driver_wf (s\<lparr>event := (event s)\<lparr>mc_time := x\<rparr>\<rparr>)"
  by (auto intro!: wf_event simp: wf_parts)

lemma wf_sc_act: "driver_wf s \<Longrightarrow> driver_wf (sc_act sl sh s)"
  unfolding sc_act_def Let_def by (intro wf_fold wf_sc_trigger wf_sc_time)

lemma wf_mc_act: "driver_wf s \<Longrightarrow> driver_wf (mc_act sl sh s)"
  unfolding mc_act_def Let_def by (auto intro!: wf_fold wf_mc_trigger wf_mc_time wf_selfinc)

text \<open>The loops, whatever the FPGA answers.\<close>

lemma timing_loop_keeps:
  assumes io: "\<And>a s. P (snd (readl a s)) = P s"
    and act: "\<And>sl sh s t. P s \<Longrightarrow> entry sl sh s = Some t \<Longrightarrow> P t"
    and "timing_loop a b c entry sl s = Some t" "P s"
  shows "P t"
proof -
  let ?Q = "\<lambda>a b c e sl s t. e = entry \<longrightarrow> P s \<longrightarrow> P t"
  have "?Q a b c entry sl s t"
  proof (rule timing_loop.raw_induct [OF _ assms(3), of ?Q], intro impI)
    fix rec a b c e sl s t
    assume IH: "\<And>a b c e sl s t. rec a b c e sl s = Some t \<Longrightarrow> e = entry \<longrightarrow> P s \<longrightarrow> P t"
      and r: "(if T_FIFO_SIZE sl = 0 then Some s
        else let (sh, s) = readl b s; (tex, s) = readl c s
          in Option.bind (e sl sh s) (\<lambda>s. let s = snd (readl SBC_IRQ s); (sl, s) = readl a s; s = snd (readl SBC_IRQ s)
            in rec a b c e sl s)) = Some t"
      and e: "e = entry" and s: "P s"
    show "P t"
    proof (cases "T_FIFO_SIZE sl = 0")
      case True
      then show ?thesis using r s by simp
    next
      case False
      let ?s = "snd (readl c (snd (readl b s)))"
      from False r obtain u where u: "entry sl (fst (readl b s)) ?s = Some u"
        "rec a b c e (fst (readl a (snd (readl SBC_IRQ u)))) (snd (readl SBC_IRQ (snd (readl a (snd (readl SBC_IRQ u)))))) = Some t"
        by (auto simp: case_prod_unfold Let_def e Option.bind_eq_Some_conv)
      have "P u" using act [OF _ u(1)] s by (simp add: io)
      then show ?thesis using IH [OF u(2)] e by (simp add: io)
    qed
  qed
  then show ?thesis using assms(4) by simp
qed

lemma wf_handlers:
  "libera_sc_handler s = Some t \<Longrightarrow> driver_wf s \<Longrightarrow> driver_wf t"
  "libera_mc_handler s = Some t \<Longrightarrow> driver_wf s \<Longrightarrow> driver_wf t"
  "driver_wf s \<Longrightarrow> driver_wf (libera_scmchelp_handler s)"
  "driver_wf s \<Longrightarrow> driver_wf (libera_ilk_handler s)"
  "driver_wf s \<Longrightarrow> driver_wf (libera_dd_handler s)"
proof -
  have sc: "driver_wf u" if "driver_wf x" "sc_entry sl sh x = Some u" for sl sh x u
    using that by (auto simp: sc_entry_act intro: wf_sc_act)
  have mc: "driver_wf u" if "driver_wf x" "mc_entry sl sh x = Some u" for sl sh x u
    using that by (auto simp: mc_entry_act intro: wf_mc_act)
  { assume h: "libera_sc_handler s = Some t" and s: "driver_wf s"
    from h obtain u where "timing_loop T_SC_STATUSL T_SC_STATUSH T_SC_FIFOADV sc_entry
        (fst (readl T_SC_STATUSL s)) (snd (readl T_SC_STATUSL s)) = Some u" "t = wake_up_interruptible SC_queue u"
      unfolding libera_sc_handler_def case_prod_unfold Let_def by blast
    moreover have "driver_wf u"
      by (rule timing_loop_keeps [where entry = sc_entry, OF _ _ calculation(1)]) (use sc s in \<open>simp_all only: wf_readl\<close>)
    ultimately show "driver_wf t" by (simp only: wf_wake) }
  { assume h: "libera_mc_handler s = Some t" and s: "driver_wf s"
    from h obtain u where "timing_loop T_MC_STATUSL T_MC_STATUSH T_MC_FIFOADV mc_entry
        (fst (readl T_MC_STATUSL s)) (snd (readl T_MC_STATUSL s)) = Some u" "t = wake_up_interruptible MC_queue u"
      unfolding libera_mc_handler_def case_prod_unfold Let_def by blast
    moreover have "driver_wf u"
      by (rule timing_loop_keeps [where entry = mc_entry, OF _ _ calculation(1)]) (use mc s in \<open>simp_all only: wf_readl\<close>)
    ultimately show "driver_wf t" by (simp only: wf_wake) }
  show "driver_wf s \<Longrightarrow> driver_wf (libera_scmchelp_handler s)"
  proof -
    assume "driver_wf s"
    then have "driver_wf (snd (readl SBC_IRQ2 s))" by simp
    then show ?thesis
      unfolding libera_scmchelp_handler_def libera_schelp_handler_def libera_schelp_handler_specific_def
        case_prod_unfold Let_def if_cancel
      by (cases "fst (readl SBC_IRQ2 s) AND push_bit 8 1 = 0") (simp_all only: wf_mchelp if_False if_True not_not simp_thms)
  qed
  show "driver_wf s \<Longrightarrow> driver_wf (libera_ilk_handler s)"
    by (simp add: libera_ilk_handler_def libera_ilk_handler_specific_def set_param_def case_prod_unfold Let_def wf_send_event)
  show "driver_wf s \<Longrightarrow> driver_wf (libera_dd_handler s)"
  proof -
    assume s: "driver_wf s"
    let ?s = "set_irqMask (get_irqMask s AND NOT LIBERA_INTERRUPT_DD_MASK) s"
    have "driver_wf ?s" using s by simp
    then have "driver_wf (?s\<lparr>dd := (dd ?s)\<lparr>dd_irqevents := snd (putToFIFO 0 (dd_irqevents (dd ?s)))\<rparr>\<rparr>)"
      by (simp add: driver_wf_def queues_ok_def buffers_ok_def buf_ok_def sa_inv_def sa_slots_def ts.wf_enq)
    then show ?thesis by (simp add: libera_dd_handler_def case_prod_unfold Let_def)
  qed
qed

lemma wf_read_atom: "driver_wf s \<Longrightarrow> driver_wf (sa_read_atom s)"
proof -
  let ?a = "libera_readlBlock SA_FIFO_BASE 8 s"
  let ?b = "libera_readlBlock FAI_CORR_BASE 8 (snd ?a)"
  assume s: "driver_wf s"
  have m: "sa (snd ?b) = sa s" "event (snd ?b) = event s" "dd (snd ?b) = dd s" "fa (snd ?b) = fa s"
    "dsc (snd ?b) = dsc s" "lgbl (snd ?b) = lgbl s"
    using bus_more_frame [of "snd ?b" s] readlBlock_more [of FAI_CORR_BASE 8 "snd ?a"]
      readlBlock_more [of SA_FIFO_BASE 8 s] by (cases "snd ?b"; cases s; simp)+
  have "libera_sa_incr_atom h < SA_FIFO_DEPTH" if "h < SA_FIFO_DEPTH" for h
    using that by (simp add: incr_atom_mod SA_FIFO_DEPTH_def)
  then show ?thesis
    using s by (simp add: sa_read_atom_def case_prod_unfold Let_def m wf_defs)
qed

lemma wf_overrun: "driver_wf s \<Longrightarrow> driver_wf (sa_check_overrun x s)"
  by (simp add: sa_check_overrun_def wf_defs)

lemma sa_handler_loop_keeps:
  assumes keep: "\<And>s. P s \<Longrightarrow> P (sa_read_atom s)" "\<And>a s. P (snd (readl a s)) = P s"
      "\<And>x s. P s \<Longrightarrow> P (sa_check_overrun x s)"
    and "sa_handler_loop s = Some t" "P s"
  shows "P t"
proof -
  let ?Q = "\<lambda>s t. P s \<longrightarrow> P t"
  have "?Q s t"
  proof (rule sa_handler_loop.raw_induct [OF _ assms(4), of ?Q], intro impI)
    fix rec s t
    assume IH: "\<And>s t. rec s = Some t \<Longrightarrow> P s \<longrightarrow> P t"
      and r: "(let s = sa_read_atom s; (FIFOstatus, s) = readl SA_STATUS s; s = sa_check_overrun FIFOstatus s
        in if SA_SIZE FIFOstatus \<noteq> 0 then rec s else Some s) = Some t"
      and s: "P s"
    let ?u = "sa_check_overrun (fst (readl SA_STATUS (sa_read_atom s))) (snd (readl SA_STATUS (sa_read_atom s)))"
    have "P ?u" using keep(1) [OF s] by (intro keep(3)) (simp only: keep(2))
    then show "P t"
      using r IH [of ?u t] by (auto simp only: case_prod_unfold Let_def option.inject split: if_splits)
  qed
  then show ?thesis using assms(5) by simp
qed

lemma wf_sa_handler: "libera_sa_handler s = Some t \<Longrightarrow> driver_wf s \<Longrightarrow> driver_wf t"
  unfolding libera_sa_handler_def libera_sa_handler_specific_def case_prod_unfold Let_def
  by (erule sa_handler_loop_keeps [rotated 3]) (simp_all add: wf_overrun wf_read_atom del: fst_readl)

lemma wf_irq_pass:
  assumes "irq_pass v s = Some t" "driver_wf s"
  shows "driver_wf t"
proof -
  let ?s1 = "if v AND LIBERA_INTERRUPT_ILK_MASK \<noteq> 0 then libera_ilk_handler s else s"
  have 1: "driver_wf ?s1" using assms(2) by (simp add: wf_handlers)
  obtain s2 s3 where 2: "(if v AND LIBERA_INTERRUPT_SC_MASK \<noteq> 0 then libera_sc_handler ?s1 else Some ?s1) = Some s2"
    and 3: "(if v AND LIBERA_INTERRUPT_MC_MASK \<noteq> 0 then libera_mc_handler s2 else Some s2) = Some s3"
    and t: "(let s = (if v AND (LIBERA_INTERRUPT_HELPSC_MASK OR LIBERA_INTERRUPT_HELPMC_MASK) \<noteq> 0
        then libera_scmchelp_handler s3 else s3); s = (if v AND LIBERA_INTERRUPT_DD_MASK \<noteq> 0 then libera_dd_handler s else s)
        in if v AND LIBERA_INTERRUPT_SA_MASK \<noteq> 0 then libera_sa_handler s else Some s) = Some t"
    using assms(1) unfolding irq_pass_def Let_def Option.bind_eq_Some_conv by blast
  have "driver_wf s2" using wf_handlers(1) [OF _ 1] 1 2 by (auto split: if_split_asm)
  then have 3: "driver_wf s3" using wf_handlers(2) 3 by (auto split: if_split_asm)
  let ?s4 = "if v AND (LIBERA_INTERRUPT_HELPSC_MASK OR LIBERA_INTERRUPT_HELPMC_MASK) \<noteq> 0
    then libera_scmchelp_handler s3 else s3"
  have "driver_wf (if v AND LIBERA_INTERRUPT_DD_MASK \<noteq> 0 then libera_dd_handler ?s4 else ?s4)"
    using wf_handlers(3) [OF 3] 3 by (simp add: wf_handlers(5))
  then show ?thesis
    using t wf_sa_handler unfolding Let_def by (cases "v AND LIBERA_INTERRUPT_SA_MASK = 0") (simp_all only: if_True if_False not_not simp_thms option.inject)
qed

lemma irq_loop_keeps:
  assumes io: "\<And>a s. P (snd (readl a s)) = P s"
    and pass: "\<And>v s t. irq_pass v s = Some t \<Longrightarrow> P s \<Longrightarrow> P t"
    and "irq_loop s = Some t"
  shows "(P s \<longrightarrow> P t) \<and> (\<exists>v tr. trace t = Rd SBC_IRQ v # tr \<and> v AND get_irqMask t = 0)"
proof -
  let ?Q = "\<lambda>s t. (P s \<longrightarrow> P t) \<and> (\<exists>v tr. trace t = Rd SBC_IRQ v # tr \<and> v AND get_irqMask t = 0)"
  show "?Q s t"
  proof (rule irq_loop.raw_induct [OF _ assms(3), of ?Q])
    fix rec s t
    assume IH: "\<And>s t. rec s = Some t \<Longrightarrow> ?Q s t"
      and r: "(let (v, s) = readl SBC_IRQ s; int_vec = v AND get_irqMask s
        in if int_vec = 0 then Some s else Option.bind (irq_pass int_vec s) rec) = Some t"
    let ?v = "fst (readl SBC_IRQ s)" and ?s = "snd (readl SBC_IRQ s)"
    show "?Q s t"
    proof (cases "?v AND get_irqMask ?s = 0")
      case True
      then have "t = ?s" using r True by (simp add: case_prod_unfold Let_def)
      with True show ?thesis by (simp only: io) (simp add: readl_def Let_def)
    next
      case False
      with r obtain u where "irq_pass (?v AND get_irqMask ?s) ?s = Some u" "rec u = Some t"
        by (simp only: case_prod_unfold Let_def if_False Option.bind_eq_Some_conv) blast
      then show ?thesis using pass IH [of u t] by (metis io)
    qed
  qed
qed

text \<open>What the dispatching of atoms leaves.\<close>

definition rest :: "libera \<Rightarrow> dd_dev \<times> blk_dev \<times> blk_dev \<times> libera_global" where
  "rest s = (dd s, fa s, dsc s, lgbl s)"

lemma rest_event [simp]: "rest (send_event i p s) = rest s"
  by (simp add: rest_def libera_send_event_def Let_def case_prod_unfold printk_crit_def wake_up_interruptible_def)

lemma rest_dispatch: "rest (sa_dispatch_atom s) = rest s"
proof -
  have "rest (sa_dispatch i x) = rest x" for i x
    by (simp add: sa_dispatch_def set_pipe_def Let_def case_prod_unfold split: option.splits)
      (simp add: rest_def wake_up_interruptible_def)
  then have "rest (fold sa_dispatch xs x) = rest x" for xs x by (induction xs arbitrary: x) auto
  moreover have "rest (x\<lparr>sa := d\<rparr>) = rest x" for x d by (simp add: rest_def)
  ultimately show ?thesis by (simp add: sa_dispatch_atom_def Let_def)
qed

lemma sa_tasklet_loop_keeps:
  assumes "\<And>s. P s \<Longrightarrow> P (sa_dispatch_atom s)" "sa_tasklet_loop s = Some t" "P s"
  shows "P t"
proof -
  let ?Q = "\<lambda>s t. P s \<longrightarrow> P t"
  have "?Q s t"
  proof (rule sa_tasklet_loop.raw_induct [OF _ assms(2), of ?Q], intro impI)
    fix rec s t
    assume IH: "\<And>s t. rec s = Some t \<Longrightarrow> P s \<longrightarrow> P t"
      and r: "(let s = sa_dispatch_atom s in if buf_tail (sa s) \<noteq> buf_head (sa s) then rec s else Some s) = Some t"
      and s: "P s"
    show "P t" using r IH [of "sa_dispatch_atom s" t] assms(1) [OF s] by (auto simp: Let_def split: if_splits)
  qed
  then show ?thesis using assms(3) by simp
qed

lemma wf_tasklet:
  assumes "libera_sa_do_tasklet s = Some t" "driver_wf s"
  shows "driver_wf t"
proof -
  have step: "driver_wf (sa_dispatch_atom s)" if s: "driver_wf s" for s
  proof -
    have inv: "sa_inv s" using s by (simp add: driver_wf_def queues_ok_def buffers_ok_def)
    note d = dispatch_atom_step [OF inv]
    have e: "event (sa_dispatch_atom s) = event (send_event LIBERA_EVENT_SA 1 s)" by (rule d(4))
    have q: "driver_wf (send_event LIBERA_EVENT_SA 1 s)" using s by (rule wf_send_event)
    have "libera_sa_incr_atom h < SA_FIFO_DEPTH" if "h < SA_FIFO_DEPTH" for h
      using that by (simp add: incr_atom_mod SA_FIFO_DEPTH_def)
    then have "buf_ok (sa_dispatch_atom s)"
      using s d(2,3) by (simp add: driver_wf_def queues_ok_def buffers_ok_def buf_ok_def sa_same_def)
    moreover have "rest (sa_dispatch_atom s) = rest s" by (rule rest_dispatch)
    ultimately show ?thesis
      using q s d(1) by (simp add: driver_wf_def queues_ok_def buffers_ok_def e rest_def)
  qed
  have "driver_wf (x\<lparr>sa := (sa x)\<lparr>inputovr := False\<rparr>\<rparr>)" if "driver_wf x" for x
    using that by (simp add: wf_defs)
  then show ?thesis
    using assms sa_tasklet_loop_keeps [of driver_wf, OF step]
    by (auto simp: libera_sa_do_tasklet_def libera_sa_do_tasklet_specific_def Let_def wf_send_event split: if_splits)
qed


section \<open>The file operations that do not sleep\<close>

lemma wf_lock_event [simp]: "driver_wf (lock_event s) = driver_wf s" "driver_wf (unlock_event s) = driver_wf s"
  by (simp_all add: lock_event_def unlock_event_def wf_defs)

lemma wf_CTIME [simp]: "driver_wf (lock_CTIME b s) = driver_wf s"
  by (simp add: lock_CTIME_def wf_defs)

lemma wf_dd_com [simp]: "driver_wf (upd_dd_com g s) = driver_wf s" "driver_wf (set_pm_entry b s) = driver_wf s"
  by (simp_all add: upd_dd_com_def set_pm_entry_def wf_defs)

lemma wf_lock_pm [simp]: "driver_wf (lock_pm b s) = driver_wf s" "driver_wf (lock_adc b s) = driver_wf s"
  by (simp_all add: lock_pm_def lock_adc_def)

lemma wf_set_param [simp]: "driver_wf (set_param i v s) = driver_wf s"
  by (simp add: set_param_def)

lemma wf_upd_event:
  assumes "driver_wf s" "trig_wf (events (g (event s)))"
    "\<forall>i. stamps_ok i (sc_timestamps (g (event s)) i) \<and> stamps_ok i (mc_timestamps (g (event s)) i)"
  shows "driver_wf (upd_event g s)"
  using assms by (simp add: upd_event_def wf_event)

lemma wf_event_com [simp]: "driver_wf (upd_event_com g s) = driver_wf s"
  by (simp add: upd_event_com_def upd_event_def wf_defs)

lemma wf_upd_same [simp]:
  "(\<And>e. events (g e) = events e \<and> sc_timestamps (g e) = sc_timestamps e \<and> mc_timestamps (g e) = mc_timestamps e) \<Longrightarrow>
    driver_wf (upd_event g s) = driver_wf s"
  by (simp add: upd_event_def wf_defs)

lemma wf_flush_events: "driver_wf s \<Longrightarrow> driver_wf (flush_events s)"
  by (simp add: flush_events_def wf_upd_event wf_parts ev.wf_flush)

lemma wf_trig_enable: "driver_wf s \<Longrightarrow> driver_wf (snd (libera_sctrig_enable k s))"
  "driver_wf s \<Longrightarrow> driver_wf (snd (libera_mctrig_enable k s))"
  by (auto simp: libera_sctrig_enable_def libera_mctrig_enable_def Let_def wf_parts intro!: wf_event)

lemma wf_mask_event: "driver_wf s \<Longrightarrow> driver_wf (s\<lparr>lgbl := (lgbl s)\<lparr>event_mask := k\<rparr>\<rparr>)"
  by (simp add: wf_lgbl wf_parts)

text \<open>The configuration device.\<close>

lemma wf_coeffs [simp]: "driver_wf (write_coeffs b n r s) = driver_wf s"
  unfolding write_coeffs_def by (subst fold_same [of driver_wf]) simp_all

lemma wf_if: "driver_wf (snd (if b then x else y)) = (if b then driver_wf (snd x) else driver_wf (snd y))"
  by simp

lemma wf_cfg_set [simp]: "driver_wf (snd (libera_cfg_set_specific i v s)) = driver_wf s"
  unfolding libera_cfg_set_specific_def cfg_set_specific_rest_def cfg_set_limit_def cfg_set_ilk_gain_def cfg_set_extswitch_def
    cfg_set_trigdelay_def cfg_set_pm_dur_def cfg_set_coeff_def case_prod_unfold Let_def
  by (simp only: wf_if snd_conv wf_set_param wf_writel wf_readl wf_coeffs wf_cfg if_cancel)

lemma wf_cfg_get [simp]: "driver_wf (snd (snd (libera_cfg_get_specific i v s))) = driver_wf s"
  by (simp add: libera_cfg_get_specific_def case_prod_unfold Let_def)

lemma wf_cfg_ioctl: "driver_wf s \<Longrightarrow> driver_wf (snd (snd (libera_cfg_ioctl f cmd u s)))"
  by (simp add: libera_cfg_ioctl_def libera_cfg_cmd_def case_prod_unfold Let_def wf_send_event del: fst_readl)


text \<open>The block devices.\<close>

lemma wf_block [simp]: "driver_wf (snd (libera_readlBlock a n s)) = driver_wf s"
  "driver_wf (libera_writelBlock a vs s) = driver_wf s"
proof -
  show "driver_wf (snd (libera_readlBlock a n s)) = driver_wf s"
    by (induction n arbitrary: a s) (simp_all add: Let_def case_prod_unfold del: fst_readl)
  show "driver_wf (libera_writelBlock a vs s) = driver_wf s"
    by (induction a vs s rule: libera_writelBlock.induct) simp_all
qed

lemma wf_fa_com: "driver_wf (s\<lparr>fa := (fa s)\<lparr>blk_com := c\<rparr>\<rparr>) = driver_wf s"
  and wf_dsc_com: "driver_wf (s\<lparr>dsc := (dsc s)\<lparr>blk_com := c\<rparr>\<rparr>) = driver_wf s"
  by (simp_all add: wf_defs)

lemma block_read_wf: "driver_wf (snd (snd (snd (snd (block_read base bsize pos count left buf s))))) = driver_wf s"
  by (simp add: block_read_def case_prod_unfold Let_def)

lemma block_write_wf: "driver_wf (snd (snd (snd (block_write base bsize pos count left ws buf s)))) = driver_wf s"
  by (simp add: block_write_def case_prod_unfold Let_def)

lemma wf_fa_io:
  assumes "driver_wf s" "pos_ok FAI_BLOCKSIZE (f_pos f)"
  shows "driver_wf (snd (snd (snd (libera_fa_read c f count left s))))"
    and "count \<le> 4 * length ws \<Longrightarrow> driver_wf (snd (snd (libera_fa_write c f count left ws s)))"
proof -
  note b = wf_parts(4) [OF assms(1)]
  have "length (blk_buf (fa (snd (snd (snd (libera_fa_read c f count left s)))))) = FAI_BLOCKSIZE div 4"
    using fa_blk.rd_safe [OF assms(2) b] by (metis prod.collapse)
  then show "driver_wf (snd (snd (snd (libera_fa_read c f count left s))))"
    using assms(1) block_read_wf by (auto simp: libera_fa_read_def case_prod_unfold Let_def intro!: wf_fa)
  assume "count \<le> 4 * length ws"
  then have "length (blk_buf (fa (snd (snd (libera_fa_write c f count left ws s))))) = FAI_BLOCKSIZE div 4"
    using fa_blk.wr_safe [OF assms(2) b] by (metis prod.collapse)
  then show "driver_wf (snd (snd (libera_fa_write c f count left ws s)))"
    using assms(1) block_write_wf by (auto simp: libera_fa_write_def case_prod_unfold Let_def intro!: wf_fa)
qed

lemma wf_dsc_io:
  assumes "driver_wf s" "pos_ok DSC_BLOCKSIZE (f_pos f)"
  shows "driver_wf (snd (snd (snd (libera_dsc_read c f count left s))))"
    and "count \<le> 4 * length ws \<Longrightarrow> driver_wf (snd (snd (libera_dsc_write c f count left ws s)))"
proof -
  note b = wf_parts(5) [OF assms(1)]
  have "length (blk_buf (dsc (snd (snd (snd (libera_dsc_read c f count left s)))))) = DSC_BLOCKSIZE div 4"
    using dsc_blk.rd_safe [OF assms(2) b] by (metis prod.collapse)
  then show "driver_wf (snd (snd (snd (libera_dsc_read c f count left s))))"
    using assms(1) block_read_wf by (auto simp: libera_dsc_read_def case_prod_unfold Let_def intro!: wf_dsc)
  assume "count \<le> 4 * length ws"
  then have "length (blk_buf (dsc (snd (snd (libera_dsc_write c f count left ws s))))) = DSC_BLOCKSIZE div 4"
    using dsc_blk.wr_safe [OF assms(2) b] by (metis prod.collapse)
  then show "driver_wf (snd (snd (libera_dsc_write c f count left ws s)))"
    using assms(1) block_write_wf by (auto simp: libera_dsc_write_def case_prod_unfold Let_def intro!: wf_dsc)
qed

lemma wf_check_update: "driver_wf (snd (check_and_update v i j s)) = driver_wf s"
  by (simp add: check_and_update_def Let_def)

lemma wf_blk_ioctl: "driver_wf s \<Longrightarrow> driver_wf (snd (libera_fa_ioctl f cmd u s))"
  "driver_wf s \<Longrightarrow> driver_wf (snd (libera_dsc_ioctl f cmd u s))"
  by (simp_all add: libera_fa_ioctl_def libera_dsc_ioctl_def Let_def wf_send_event wf_check_update)

text \<open>Opening and closing.\<close>

lemma wf_sa_open:
  assumes "driver_wf s" "\<forall>a. mem = Some a \<longrightarrow> sa_heap (sa s) a = None"
  shows "driver_wf (snd (snd (libera_sa_open mem f s)))"
proof -
  have "buf_ok (snd (snd (libera_sa_open mem f s))) = buf_ok s" "rest (snd (snd (libera_sa_open mem f s))) = rest s"
    "event (snd (snd (libera_sa_open mem f s))) = event s"
    by (simp_all add: libera_sa_open_def set_pipe_def Let_def buf_ok_def rest_def split: option.split)
  then show ?thesis
    using assms(1) sa_inv_open [OF wf_parts(2) [OF assms(1)] assms(2)]
    by (simp add: driver_wf_def queues_ok_def buffers_ok_def rest_def)
qed

lemma wf_sa_release:
  assumes "driver_wf s" "sa_heap (sa s) a \<noteq> None"
  shows "driver_wf (snd (libera_sa_release a s))"
proof -
  have "buf_ok (snd (libera_sa_release a s)) = buf_ok s" "rest (snd (libera_sa_release a s)) = rest s"
    "event (snd (libera_sa_release a s)) = event s"
    by (simp_all add: libera_sa_release_def case_prod_unfold Let_def buf_ok_def rest_def)
  then show ?thesis
    using assms(1) sa_inv_release [OF wf_parts(2) [OF assms(1)] assms(2)]
    by (simp add: driver_wf_def queues_ok_def buffers_ok_def rest_def)
qed

lemma wf_event_open: "driver_wf s \<Longrightarrow> driver_wf (snd (snd (libera_event_open mem f s)))"
  by (simp add: libera_event_open_def Let_def wf_flush_events)

lemma wf_event_release: "driver_wf s \<Longrightarrow> driver_wf (snd (libera_event_release l f s))"
  by (simp add: libera_event_release_def Let_def wf_flush_events wf_mask_event wf_upd_event wf_parts)

lemma wf_open:
  assumes "driver_wf s" "\<forall>a. mem = Some a \<longrightarrow> sa_heap (sa s) a = None"
  shows "driver_wf (snd (snd (libera_open mem minor f s)))"
proof -
  have "\<forall>g\<in>set (libera_fops_array mem f). driver_wf (snd (snd (g s)))"
    using assms wf_sa_open [OF assms, of f] wf_event_open
    by (simp add: libera_fops_array_def no_data_def with_data_def case_prod_unfold libera_cfg_open_def
      libera_dd_open_def libera_fa_open_def libera_pm_open_def libera_adc_open_def libera_dsc_open_def Let_def
      wf_fa_com wf_dsc_com)
  moreover have "length (libera_fops_array mem f) = 8" by (simp add: libera_fops_array_def)
  ultimately show ?thesis
    using assms(1) by (auto simp: libera_open_def LIBERA_MAX_MINOR_def)
qed


lemma wf_releases:
  "driver_wf s \<Longrightarrow> driver_wf (snd (libera_cfg_release f s))" "driver_wf s \<Longrightarrow> driver_wf (snd (libera_fa_release f s))"
  "driver_wf s \<Longrightarrow> driver_wf (snd (libera_dsc_release f s))" "driver_wf s \<Longrightarrow> driver_wf (snd (libera_pm_release f s))"
  "driver_wf s \<Longrightarrow> driver_wf (snd (libera_adc_release f s))" "driver_wf s \<Longrightarrow> driver_wf (snd (libera_dd_release s))"
  by (simp_all add: libera_cfg_release_def libera_fa_release_def libera_dsc_release_def libera_pm_release_def
      libera_adc_release_def libera_dd_release_def case_prod_unfold Let_def wf_fa_com wf_dsc_com)

text \<open>Reading post-mortem data and the converters.\<close>

lemma wf_pm_calls:
  "driver_wf s \<Longrightarrow> driver_wf (snd (snd (libera_pm_read c count left s)))"
  "driver_wf s \<Longrightarrow> driver_wf (snd (snd (libera_pm_ioctl c f cmd u s)))"
  "driver_wf s \<Longrightarrow> driver_wf (snd (snd (snd (libera_dd_ioctl c l cmd u s))))"
  by (simp_all add: libera_pm_read_def libera_pm_ioctl_def libera_dd_ioctl_def Let_def)

lemma wf_adc_read: "driver_wf s \<Longrightarrow> driver_wf (snd (snd (libera_adc_read c count room s)))"
proof -
  have a: "driver_wf (snd (adc_read_atom i x)) = driver_wf x" for i x
    by (simp add: adc_read_atom_def put_adc_def case_prod_unfold Let_def split: option.split)
  have "driver_wf (snd (adc_capture n i x)) = driver_wf x" for n i x
    by (induction n arbitrary: i x) (simp_all add: case_prod_unfold Let_def a)
  moreover assume "driver_wf s"
  ultimately show ?thesis by (simp add: libera_adc_read_def case_prod_unfold Let_def)
qed

section \<open>The DMA interrupt\<close>

lemma dma_mask_lt: "unat (x AND LIBERA_DMA_FIFO_MASK) < 4096"
proof -
  have "x AND LIBERA_DMA_FIFO_MASK \<le> LIBERA_DMA_FIFO_MASK" by (rule word_and_le1)
  then show ?thesis by (simp add: word_le_nat_alt LIBERA_DMA_FIFO_MASK_def LIBERA_DMA_FIFO_ATOMS_def)
qed

lemma wf_upd_dma: "driver_wf s \<Longrightarrow> (dma_ok (dma_of s) \<Longrightarrow> dma_ok (g (dma_of s))) \<Longrightarrow> driver_wf (upd_dma g s)"
  by (simp add: upd_dma_def wf_lgbl wf_parts)

lemma dma_ok_simps [simp]:
  "dma_ok (q\<lparr>obFIFOstatus := st\<rparr>) = dma_ok q" "dma_ok (q\<lparr>Overrun := b\<rparr>) = dma_ok q"
  "dma_ok (q\<lparr>remaining := r\<rparr>) = dma_ok q" "dma_ok (q\<lparr>DMAC_transfer := b\<rparr>) = dma_ok q"
  "dma_ok (q\<lparr>aborting := b\<rparr>) = dma_ok q" "dma_ok (q\<lparr>written := w\<rparr>) = dma_ok q"
  "dma_ok (libera_dma_get_DMAC_csize q) = dma_ok q" "dma_ok (flushDMA_FIFO q)"
  "dma_ok q \<Longrightarrow> dma_ok (snd (putToDMA_FIFO q n))" "dma_ok q \<Longrightarrow> dma_ok (q\<lparr>dma_get := x AND LIBERA_DMA_FIFO_MASK\<rparr>)"
  by (simp_all add: dma_ok_def libera_dma_get_DMAC_csize_def flushDMA_FIFO_def putToDMA_FIFO_def Let_def dma_mask_lt)

lemma wf_start_dma: "driver_wf s \<Longrightarrow> driver_wf (start_dma s)"
  unfolding start_dma_def libera_dma_command_def by (rule wf_upd_dma) (simp_all add: dma_ok_def)

lemma wf_overrun_dma: "driver_wf s \<Longrightarrow> driver_wf (if b then upd_dma (\<lambda>q. q\<lparr>Overrun := True\<rparr>) s else s)"
  by (simp add: wf_upd_dma)

text \<open>The status read that precedes every decision on a transfer.\<close>

lemma wf_dma_status:
  "driver_wf s \<Longrightarrow> driver_wf (upd_dma (\<lambda>q. q\<lparr>obFIFOstatus := st\<rparr>) (snd (readl a s)))"
  by (rule wf_upd_dma) (simp_all only: wf_readl dma_ok_simps)

lemma wf_dma_interrupt:
  assumes "driver_wf s"
  shows "driver_wf (libera_dma_interrupt e b s)"
proof -
  let ?st = "fst (readl DD_OB_STATUS s)"
  define s1 where "s1 = upd_dma (\<lambda>q. q\<lparr>remaining := remaining q - csize q\<rparr>)
    (if DD_OB_OVERRUN ?st \<noteq> 0
     then upd_dma (\<lambda>q. q\<lparr>Overrun := True\<rparr>) (upd_dma (\<lambda>q. q\<lparr>obFIFOstatus := ?st\<rparr>) (snd (readl DD_OB_STATUS s)))
     else upd_dma (\<lambda>q. q\<lparr>obFIFOstatus := ?st\<rparr>) (snd (readl DD_OB_STATUS s)))"
  have 1: "driver_wf s1"
    unfolding s1_def by (intro wf_upd_dma wf_overrun_dma wf_dma_status assms) simp
  define p where "p = putToDMA_FIFO (dma_of s1) (csize (dma_of s1))"
  define s2 where "s2 = (if fst p < 0 then printk_crit DMA_FIFO_overflow (upd_dma (\<lambda>_. snd p) s1) else upd_dma (\<lambda>_. snd p) s1)"
  have "driver_wf (upd_dma (\<lambda>_. snd p) s1)" by (rule wf_upd_dma [OF 1]) (simp add: p_def)
  then have 2: "driver_wf s2" by (simp add: s2_def)
  define s3 where "s3 = upd_dma libera_dma_get_DMAC_csize s2"
  have 3: "driver_wf s3" unfolding s3_def by (rule wf_upd_dma [OF 2]) simp
  define s4 where "s4 = (if 0 < sint (csize (dma_of s3)) then start_dma s3 else upd_dma (\<lambda>q. q\<lparr>DMAC_transfer := False\<rparr>) s3)"
  have 4: "driver_wf s4" using 3 by (simp add: s4_def wf_start_dma wf_upd_dma)
  have "libera_dma_interrupt e b s =
    (let s = if e then (if \<not> aborting (dma_of s4) then wake_up_interruptible DMA_queue s4 else s4) else s
     in if b then printk_crit DMA_BUS_ERROR s else s)"
    unfolding libera_dma_interrupt_def case_prod_unfold Let_def s4_def s3_def s2_def p_def s1_def by (rule refl)
  then show ?thesis using 4 assms by (simp add: Let_def)
qed

section \<open>Sleeping\<close>

text \<open>
  A context in which the driver keeps its invariant while the process sleeps: what the entries that run
  meanwhile guarantee, and all that an entry relies on.
\<close>

definition calm :: "ctx \<Rightarrow> bool" where
  "calm c \<longleftrightarrow> (\<forall>s. driver_wf s \<longrightarrow> driver_wf (wake c s))"

lemma wf_schedule: "calm c \<Longrightarrow> driver_wf s \<Longrightarrow> driver_wf (schedule c s)"
  by (simp add: calm_def schedule_def)

lemma wf_delay: "calm c \<Longrightarrow> driver_wf s \<Longrightarrow> driver_wf (snd (libera_delay_jiffies_interruptible c j s))"
  by (simp add: libera_delay_jiffies_interruptible_def wf_schedule)

text \<open>
  A call keeps the invariant when it holds in the state of whatever it returns; \<open>st\<close> takes the state
  out of the result.
\<close>

definition kept_by :: "(libera \<Rightarrow> bool) \<Rightarrow> ('a \<Rightarrow> libera) \<Rightarrow> 'a option \<Rightarrow> bool" where
  "kept_by P st r \<longleftrightarrow> (\<forall>v. r = Some v \<longrightarrow> P (st v))"

abbreviation kept :: "('a \<Rightarrow> libera) \<Rightarrow> 'a option \<Rightarrow> bool" where
  "kept \<equiv> kept_by driver_wf"

named_theorems keeps

lemma kept_Some [keeps]: "P (st v) \<Longrightarrow> kept_by P st (Some v)"
  and kept_None [keeps]: "kept_by P st None"
  and kept_if [keeps]: "(b \<Longrightarrow> kept_by P st x) \<Longrightarrow> (\<not> b \<Longrightarrow> kept_by P st y) \<Longrightarrow> kept_by P st (if b then x else y)"
  by (simp_all add: kept_by_def)

lemma kept_bind: "kept_by Q st' m \<Longrightarrow> (\<And>v. Q (st' v) \<Longrightarrow> kept_by P st (g v)) \<Longrightarrow> kept_by P st (Option.bind m g)"
  by (cases m) (simp_all add: kept_by_def)

lemma kept_case: "kept_by Q st' m \<Longrightarrow> (\<And>v. Q (st' v) \<Longrightarrow> kept_by P st (g v)) \<Longrightarrow>
    kept_by P st (case m of None \<Rightarrow> None | Some v \<Rightarrow> g v)"
  by (cases m) (simp_all add: kept_by_def)

lemma kept_map: "kept_by Q st' m \<Longrightarrow> (\<And>v. Q (st' v) \<Longrightarrow> P (st (g v))) \<Longrightarrow> kept_by P st (map_option g m)"
  by (cases m) (simp_all add: kept_by_def)

lemma keptD: "kept_by P st r \<Longrightarrow> r = Some v \<Longrightarrow> P (st v)"
  by (simp add: kept_by_def)

text \<open>The blocking reads of a FIFO.\<close>

lemma wf_nap: "calm c \<Longrightarrow> driver_wf s \<Longrightarrow> driver_wf (lock_event (schedule c (unlock_event s)))"
  by (simp add: wf_schedule)

lemma wait_fifo_keeps:
  assumes nap: "\<And>s. P s \<Longrightarrow> P (lock_event (schedule c (unlock_event s)))" and "P s"
  shows "kept_by P snd (wait_fifo c q s)"
proof -
  have "P s \<longrightarrow> P (snd v)" if "wait_fifo c q s = Some v" for s v
  proof (rule wait_fifo.raw_induct [OF _ that, of "\<lambda>d q s v. d = c \<longrightarrow> P s \<longrightarrow> P (snd v)", THEN mp, OF _ refl],
      intro impI)
    fix rec d q s v
    assume IH: "\<And>d q s v. rec d q s = Some v \<Longrightarrow> d = c \<longrightarrow> P s \<longrightarrow> P (snd v)"
      and r: "(if not_emptyFIFO (fifo_of q s) then Some (0, s)
        else if \<not> sigpend d s then rec d q (lock_event (schedule d (unlock_event s)))
        else Some (- ERESTARTSYS, s)) = Some v" and d: "d = c" and s: "P s"
    show "P (snd v)"
      using r s nap [OF s] IH [of c q _ v] by (auto simp: d split: if_splits)
  qed
  then show ?thesis using assms(2) by (simp add: kept_by_def)
qed

lemma wait_fifo_timeout_keeps:
  assumes nap: "\<And>s. P s \<Longrightarrow> P (lock_event (schedule c (unlock_event s)))" and "P s"
  shows "kept_by P snd (wait_fifo_timeout c q k s)"
proof -
  have "P s \<longrightarrow> P (snd v)" if "wait_fifo_timeout c q k s = Some v" for s k v
  proof (rule wait_fifo_timeout.raw_induct [OF _ that, of "\<lambda>d q k s v. d = c \<longrightarrow> P s \<longrightarrow> P (snd v)",
        THEN mp, OF _ refl], intro impI)
    fix rec d q k s v
    assume IH: "\<And>d q k s v. rec d q k s = Some v \<Longrightarrow> d = c \<longrightarrow> P s \<longrightarrow> P (snd v)"
      and r: "(if not_emptyFIFO (fifo_of q s) then Some (0, s)
        else if \<not> sigpend d s then
          (let t = timeleft d s k; s = lock_event (schedule d (unlock_event s))
           in if t = 0 then Some (- EAGAIN, s) else rec d q t s)
        else Some (- ERESTARTSYS, s)) = Some v" and d: "d = c" and s: "P s"
    show "P (snd v)"
      using r s nap [OF s] IH [of c q _ _ v] by (auto simp: d Let_def split: if_splits)
  qed
  then show ?thesis using assms(2) by (simp add: kept_by_def)
qed

lemma wf_take:
  assumes "driver_wf s" "getFromFIFO (fifo_of q s) = (r, f)"
  shows "driver_wf (fifo_upd q f s)"
proof -
  have f: "f = snd (getFromFIFO (fifo_of q s))" using assms(2) by simp
  then show ?thesis
    using assms(1) by (cases q) (auto intro!: wf_event wf_dd stamps_get ts.wf_deq simp: wf_parts)
qed

lemma wf_getBlocked:
  assumes "calm c" "driver_wf s"
  shows "kept (snd \<circ> snd) (getBlockedFromFIFO c q s)"
proof -
  have w: "kept snd (if emptyFIFO (fifo_of q (lock_event s)) then wait_fifo c q (lock_event s) else Some (0, lock_event s))"
    using assms wf_nap [OF assms(1)] by (intro keeps wait_fifo_keeps) simp_all
  show ?thesis
    unfolding getBlockedFromFIFO_def Let_def
    by (intro keeps kept_case [OF w])
      (use assms in \<open>auto simp: kept_by_def wf_take split: if_splits prod.splits option.splits\<close>)
qed

lemma wf_getBlocked_user:
  assumes "calm c" "driver_wf s"
  shows "kept (snd \<circ> snd) (getBlockedFromFIFOuser c q u k s)"
proof -
  have w: "kept snd (if emptyFIFO (fifo_of q (lock_event s)) then wait_fifo_timeout c q k (lock_event s)
      else Some (0, lock_event s))"
    using assms wf_nap [OF assms(1)] by (intro keeps wait_fifo_timeout_keeps) simp_all
  show ?thesis
    unfolding getBlockedFromFIFOuser_def Let_def
    by (intro keeps kept_case [OF w])
      (use assms in \<open>auto simp: kept_by_def wf_take split: if_splits prod.splits option.splits\<close>)
qed

lemma wf_get_CTIME:
  assumes "calm c" "driver_wf s"
  shows "kept (snd \<circ> snd) (libera_get_CTIME c t s)"
proof -
  have g: "kept (snd \<circ> snd) (getBlockedFromFIFO c q (writel v a (lock_CTIME True s)))" for q v a
    using assms by (intro wf_getBlocked) simp_all
  show ?thesis
    unfolding libera_get_CTIME_def Let_def
    by (intro keeps kept_case [OF g])
      (use assms wf_take [of _ "SC_ts T_TRIG_CTIME"] in \<open>auto simp: kept_by_def split: if_splits prod.splits option.splits\<close>)
qed


text \<open>Waiting for a time of one of the clocks.\<close>

lemma wait_clock_loop_keeps:
  assumes delay: "\<And>j s. P s \<Longrightarrow> P (snd (libera_delay_jiffies_interruptible c j s))"
    and ctime: "\<And>t s. P s \<Longrightarrow> kept_by P (snd \<circ> snd) (libera_get_CTIME c t s)" and "P s"
  shows "kept_by P (snd \<circ> snd) (wait_clock_loop clk jiff c start delta t s)"
proof -
  have "P s \<longrightarrow> P (snd (snd v))" if "wait_clock_loop clk jiff c start delta t s = Some v" for delta t s v
  proof (rule wait_clock_loop.raw_induct [OF _ that,
        of "\<lambda>clk jiff d start delta t s v. d = c \<longrightarrow> P s \<longrightarrow> P (snd (snd v))", THEN mp, OF _ refl], intro impI)
    fix rec clk jiff d start delta t s v
    assume IH: "\<And>clk jiff d start delta t s v. rec clk jiff d start delta t s = Some v \<Longrightarrow>
        d = c \<longrightarrow> P s \<longrightarrow> P (snd (snd v))"
      and r: "(let (ret, s) = libera_delay_jiffies_interruptible d (jiff (- delta) s) s in
        if ret \<noteq> 0 then Some (ret, t, s)
        else Option.bind (libera_get_CTIME d t s) (\<lambda>(ret, t, s).
          if ret \<noteq> 0 then Some (ret, t, s)
          else let delta_end = clk t - start - ucast (span32 LIBERA_DD_READSYNC_MARGIN s)
            in if sint delta_end < 0 then rec clk jiff d start delta_end t s else Some (0, t, s))) = Some v"
      and d: "d = c" and s: "P s"
    have rec: "kept_by P (snd \<circ> snd) (rec clk jiff c start e t s)" if "P s" for e t s
      using IH that by (simp add: kept_by_def)
    have "kept_by P (snd \<circ> snd) (Some v)"
      unfolding r [symmetric] d case_prod_unfold Let_def
      by (intro keeps kept_bind [OF ctime [OF delay [OF s]]] rec) (simp_all add: delay [OF s])
    then show "P (snd (snd v))" by (simp add: kept_by_def)
  qed
  then show ?thesis using assms(3) by (simp add: kept_by_def)
qed

lemma wf_wait_lmt:
  assumes "calm c" "driver_wf s"
  shows "kept (snd \<circ> snd) (wait_lmt c t x s)" "kept (snd \<circ> snd) (wait_lst c t x s)"
  unfolding wait_lmt_def wait_lst_def wait_clock_def Let_def
  by (intro keeps wait_clock_loop_keeps wf_get_CTIME wf_delay assms; simp add: assms)+

lemma wf_dd_llseek:
  assumes "calm c" "driver_wf s"
  shows "kept (snd \<circ> snd) (libera_dd_llseek c l x w s)"
  unfolding libera_dd_llseek_def libera_dd_llseek_specific_def case_prod_unfold Let_def
  by (intro keeps kept_bind [OF wf_get_CTIME [OF assms]]) (simp_all add: assms)

section \<open>The transfer of data on demand\<close>

lemma OB_sync_keeps:
  assumes keep: "\<And>s. P s \<Longrightarrow> P (schedule c s)" "\<And>a s. P (snd (readl a s)) = P s"
      "\<And>st s. P s \<Longrightarrow> P (upd_dma (\<lambda>q. q\<lparr>obFIFOstatus := st\<rparr>) s)" "\<And>s. P s \<Longrightarrow> P (upd_dma (\<lambda>q. q\<lparr>Overrun := True\<rparr>) s)"
    and "P s"
  shows "P (snd (OB_sync_loop n c s))"
proof -
  define w where "w s = (let st = fst (readl DD_OB_STATUS (schedule c s));
      s = upd_dma (\<lambda>q. q\<lparr>obFIFOstatus := st\<rparr>) (snd (readl DD_OB_STATUS (schedule c s)))
    in if DD_OB_OVERRUN st \<noteq> 0 then upd_dma (\<lambda>q. q\<lparr>Overrun := True\<rparr>) s else s)" for s
  have u: "P (w s)" if "P s" for s
  proof -
    have "P (upd_dma (\<lambda>q. q\<lparr>obFIFOstatus := st\<rparr>) (snd (readl DD_OB_STATUS (schedule c s))))" for st
      using that by (intro keep(3)) (simp only: keep(1,2))
    then show ?thesis unfolding w_def Let_def using keep(4) by (simp split: if_split del: upd_upd)
  qed
  have unfold: "OB_sync_loop n c s =
      (if \<not> dma_no_data s then (0, s) else case n of 0 \<Rightarrow> (- EIO, w s) | Suc n \<Rightarrow> OB_sync_loop n c (w s))" for n s
    by (subst OB_sync_loop.simps) (simp only: case_prod_unfold Let_def w_def)
  show ?thesis
    using assms(5)
    by (induction n arbitrary: s rule: nat.induct) (subst unfold, simp add: u)+
qed

lemma wf_OB_sync: "calm c \<Longrightarrow> driver_wf s \<Longrightarrow> driver_wf (snd (libera_OB_fifo_sync c s))"
  unfolding libera_OB_fifo_sync_def by (rule OB_sync_keeps) (auto simp: wf_schedule wf_upd_dma simp del: fst_readl)

lemma wait_dma_keeps:
  assumes nap: "\<And>s. P s \<Longrightarrow> P (schedule c s)" and "P s"
  shows "kept_by P snd (wait_dma c s)"
proof -
  have "P s \<longrightarrow> P (snd v)" if "wait_dma c s = Some v" for s v
  proof (rule wait_dma.raw_induct [OF _ that, of "\<lambda>d s v. d = c \<longrightarrow> P s \<longrightarrow> P (snd v)", THEN mp, OF _ refl],
      intro impI)
    fix rec d s v
    assume IH: "\<And>d s v. rec d s = Some v \<Longrightarrow> d = c \<longrightarrow> P s \<longrightarrow> P (snd v)"
      and r: "(if not_emptyDMA_FIFO (dma_of s) then Some (0, s)
        else if \<not> (sigpend d s \<or> pm_entry (dd s)) then rec d (schedule d s) else Some (- ERESTARTSYS, s)) = Some v"
      and d: "d = c" and s: "P s"
    show "P (snd v)"
      using r s nap [OF s] IH [of c _ v] by (auto simp: d split: if_splits)
  qed
  then show ?thesis using assms(2) by (simp add: kept_by_def)
qed

lemma copy_fifo_ok: "dma_ok q \<Longrightarrow> dma_ok (snd (snd (snd (copy_fifo n tgt m OB out q))))"
  by (induction n arbitrary: OB out q) (auto simp: Let_def)

lemma wf_restart_dma:
  assumes "calm c" "driver_wf s"
  shows "driver_wf (snd (restart_dma c s))"
proof -
  let ?st = "fst (readl DD_OB_STATUS s)"
  let ?u = "upd_dma (\<lambda>q. q\<lparr>obFIFOstatus := ?st\<rparr>) (snd (readl DD_OB_STATUS s))"
  define u where "u = (if DD_OB_OVERRUN ?st \<noteq> 0 then upd_dma (\<lambda>q. q\<lparr>Overrun := True\<rparr>) ?u else ?u)"
  have "driver_wf u" unfolding u_def by (intro wf_overrun_dma wf_dma_status assms(2))
  then have t: "driver_wf (snd (libera_OB_fifo_sync c u))" by (rule wf_OB_sync [OF assms(1)])
  then have "driver_wf (upd_dma libera_dma_get_DMAC_csize (snd (libera_OB_fifo_sync c u)))"
    by (rule wf_upd_dma) simp
  then show ?thesis
    using assms(2) t unfolding restart_dma_def case_prod_unfold Let_def u_def [symmetric]
    by (simp add: wf_start_dma)
qed

abbreviation (input) body_state :: "flow \<times> u32 \<times> u32 \<times> dd_atom list \<times> libera \<Rightarrow> libera" where
  "body_state v \<equiv> snd (snd (snd (snd v)))"

lemma wf_abort: "driver_wf s \<Longrightarrow> driver_wf (abort_dma s)"
  unfolding abort_dma_def by (rule wf_upd_dma) simp_all

lemma wf_transfer_body:
  assumes "calm c" "driver_wf s"
  shows "kept body_state (transfer_body c tgt m ly OB out s)"
proof -
  have w: "kept snd (if emptyDMA_FIFO (dma_of s) then wait_dma c s else Some (0, s))"
    using assms wf_schedule [OF assms(1)] by (intro keeps wait_dma_keeps) simp_all
  have u: "driver_wf (upd_dma (\<lambda>_. snd (snd (snd (copy_fifo n tgt m OB out (dma_of x))))) x)" if "driver_wf x" for n x
    by (rule wf_upd_dma [OF that]) (rule copy_fifo_ok)
  show ?thesis
    unfolding transfer_body_def case_prod_unfold Let_def
    by (intro keeps kept_bind [OF w])
      (simp_all add: u wf_abort wf_schedule [OF assms(1)] wf_restart_dma [OF assms(1)])
qed

lemma wf_finish: "driver_wf s \<Longrightarrow> driver_wf (snd (finish_transfer m OB s))"
  unfolding finish_transfer_def case_prod_unfold Let_def by (simp add: wf_dma_status del: fst_readl)

lemma transfer_loop_keeps:
  assumes body: "\<And>ly OB out s. P s \<Longrightarrow> kept_by P body_state (transfer_body c tgt m ly OB out s)"
    and finish: "\<And>OB s. P s \<Longrightarrow> P (snd (finish_transfer m OB s))" and "P s"
  shows "kept_by P (snd \<circ> snd) (transfer_loop c tgt m ly OB out s)"
proof -
  have "P s \<longrightarrow> P (snd (snd v))" if "transfer_loop c tgt m ly OB out s = Some v" for ly OB out s v
  proof (rule transfer_loop.raw_induct [OF _ that,
        of "\<lambda>d tgt' m' ly OB out s v. d = c \<longrightarrow> tgt' = tgt \<longrightarrow> m' = m \<longrightarrow> P s \<longrightarrow> P (snd (snd v))",
        THEN mp, OF _ refl, THEN mp, OF _ refl, THEN mp, OF _ refl], intro impI)
    fix rec d tgt' m' ly OB out s v
    assume IH: "\<And>d tgt' m' ly OB out s v. rec d tgt' m' ly OB out s = Some v \<Longrightarrow>
        d = c \<longrightarrow> tgt' = tgt \<longrightarrow> m' = m \<longrightarrow> P s \<longrightarrow> P (snd (snd v))"
      and r: "Option.bind (transfer_body d tgt' m' ly OB out s) (\<lambda>(fl, ly, OB, out, s).
          case fl of Return r \<Rightarrow> Some (r, out, s)
          | Break \<Rightarrow> (let (r, s) = finish_transfer m' OB s in Some (r, out, s))
          | Continue \<Rightarrow>
              if remaining (dma_of s) \<noteq> 0 \<or> not_emptyDMA_FIFO (dma_of s) then rec d tgt' m' ly OB out s
              else (let (r, s) = finish_transfer m' OB s in Some (r, out, s))) = Some v"
      and d: "d = c" "tgt' = tgt" "m' = m" and s: "P s"
    have rec: "kept_by P (snd \<circ> snd) (rec c tgt m ly OB out s)" if "P s" for ly OB out s
      using IH that by (simp add: kept_by_def)
    have "kept_by P (snd \<circ> snd) (Some v)"
      unfolding r [symmetric] d case_prod_unfold Let_def
      by (rule kept_bind [OF body [OF s]]) (auto intro!: keeps rec simp: finish split: flow.split)
    then show "P (snd (snd v))" by (simp add: kept_by_def)
  qed
  then show ?thesis using assms(3) by (simp add: kept_by_def)
qed

lemma wf_transfer:
  assumes "calm c" "driver_wf s"
  shows "kept (snd \<circ> snd) (libera_dd_transfer_OBfifo_DMA c tgt m s)"
proof -
  let ?u = "\<lambda>s. upd_dma libera_dma_get_DMAC_csize (upd_dma flushDMA_FIFO (upd_dma (\<lambda>q. q\<lparr>obFIFOstatus := fst (readl DD_OB_STATUS s),
    Overrun := False, DMAC_transfer := False, remaining := m, aborting := False, written := 0\<rparr>) (snd (readl DD_OB_STATUS s))))"
  have ok: "dma_ok (q\<lparr>obFIFOstatus := st, Overrun := False, DMAC_transfer := False, remaining := m, aborting := False, written := 0\<rparr>)"
    if "dma_ok q" for q st using that by (simp add: dma_ok_def)
  have "driver_wf (?u s)"
    by (intro wf_upd_dma) (simp_all only: ok dma_ok_simps wf_readl assms(2))
  then have 1: "driver_wf (snd (libera_OB_fifo_sync c (?u s)))" by (rule wf_OB_sync [OF assms(1)])
  then have "driver_wf (start_dma (upd_dma libera_dma_get_DMAC_csize (snd (libera_OB_fifo_sync c (?u s)))))"
    by (intro wf_start_dma wf_upd_dma) simp_all
  with 1 show ?thesis
    unfolding libera_dd_transfer_OBfifo_DMA_def case_prod_unfold Let_def
    by (intro keeps transfer_loop_keeps wf_transfer_body wf_finish assms(1)) simp_all
qed

lemma wf_CBfifo: "driver_wf s \<Longrightarrow> driver_wf (snd (libera_dd_write_CBfifo a n d s))"
  by (simp add: libera_dd_write_CBfifo_def Let_def)

lemma wf_dd_out: "driver_wf s \<Longrightarrow> kept (snd \<circ> snd \<circ> snd) (dd_out r out l s)"
  "driver_wf s \<Longrightarrow> kept (snd \<circ> snd \<circ> snd) (dd_out_zero r k out l s)"
  by (simp_all add: dd_out_zero_def dd_out_def kept_by_def Let_def)

lemma wf_dd_start:
  assumes "calm c" "driver_wf s"
  shows "kept (snd \<circ> snd) (dd_start c q t s)"
proof -
  note w = wf_wait_lmt [OF assms(1)]
  have "kept (snd \<circ> snd) (dd_start_st c q t s)" "kept (snd \<circ> snd) (dd_start_mt c q t s)"
    "kept (snd \<circ> snd) (dd_start_trigger c q t s)"
    unfolding dd_start_st_def dd_start_mt_def dd_start_trigger_def case_prod_unfold Let_def
    by (intro keeps kept_bind [OF w(1)] kept_bind [OF w(2)]; simp add: assms)+
  then show ?thesis by (simp add: dd_start_def split: dd_time_t.split)
qed

lemma wf_dd_fetch:
  assumes "calm c" "driver_wf s"
  shows "kept (snd \<circ> snd \<circ> snd) (dd_fetch c room n l s)"
  unfolding dd_fetch_def case_prod_unfold Let_def
  by (intro keeps kept_bind [OF wf_getBlocked [OF assms(1)]] kept_bind [OF wf_transfer [OF assms(1)]] wf_dd_out)
    (simp_all add: wf_CBfifo assms(2))

lemma wf_dd_read:
  assumes "calm c" "driver_wf s"
  shows "kept (snd \<circ> snd \<circ> snd) (libera_dd_read c room count l s)"
  unfolding libera_dd_read_def libera_dd_read_specific_def case_prod_unfold Let_def
  by (intro keeps kept_bind [OF wf_get_CTIME [OF assms(1)]] kept_bind [OF wf_dd_start [OF assms(1)]]
      wf_dd_out wf_dd_fetch [OF assms(1)])
    (simp_all add: assms(2))

text \<open>Acquiring post-mortem data.\<close>

lemma wf_pm_lock:
  assumes "calm c" "driver_wf s"
  shows "driver_wf (snd (pm_lock_dd n c s))"
  using assms(2)
proof (induction n arbitrary: s rule: nat.induct)
  case zero
  then show ?case by (subst pm_lock_dd.simps) (simp add: Let_def wf_delay [OF assms(1)])
next
  case (Suc n)
  then show ?case by (subst pm_lock_dd.simps) (simp add: Let_def wf_delay [OF assms(1)])
qed

lemma wf_acq_pm:
  assumes "calm c" "driver_wf s"
  shows "kept snd (libera_acq_pm c s)"
proof -
  have tr: "kept snd (pm_transfer c x)" if "driver_wf x" for x
    unfolding pm_transfer_def libera_dd_read_OBfifo_DMA_def case_prod_unfold Let_def
    by (intro keeps kept_bind [OF wf_transfer [OF assms(1) that]]) simp_all
  have st: "driver_wf (pm_stamp e x) = driver_wf x" for e x by (simp add: pm_stamp_def)
  have ac: "kept snd (pm_acquire c x)" if "driver_wf x" for x
    unfolding pm_acquire_def case_prod_unfold Let_def
    by (intro keeps kept_bind [OF wf_get_CTIME [OF assms(1)]] kept_bind [OF wf_wait_lmt(1) [OF assms(1)]]
        kept_bind [OF wf_getBlocked [OF assms(1)]] tr)
      (simp_all add: st that wf_CBfifo)
  have "driver_wf (set_pm_entry False (snd (pm_lock_dd 30 c (set_pm_entry True s))))"
    using wf_pm_lock [OF assms(1), of "set_pm_entry True s"] assms(2) by simp
  then show ?thesis
    unfolding libera_acq_pm_def case_prod_unfold Let_def
    by (intro keeps kept_map [OF ac]) simp_all
qed

section \<open>The event device\<close>

lemma wait_event_keeps:
  assumes nap: "\<And>s. P s \<Longrightarrow> P (lock_event (schedule c (unlock_event s)))" and "P s"
  shows "kept_by P snd (wait_event c s)"
proof -
  have "P s \<longrightarrow> P (snd v)" if "wait_event c s = Some v" for s v
  proof (rule wait_event.raw_induct [OF _ that, of "\<lambda>d s v. d = c \<longrightarrow> P s \<longrightarrow> P (snd v)", THEN mp, OF _ refl],
      intro impI)
    fix rec d s v
    assume IH: "\<And>d s v. rec d s = Some v \<Longrightarrow> d = c \<longrightarrow> P s \<longrightarrow> P (snd v)"
      and r: "(if not_empty_eventFIFO (events (event s)) then Some (0, s)
        else if \<not> sigpend d s then rec d (lock_event (schedule d (unlock_event s))) else Some (- ERESTARTSYS, s)) = Some v"
      and d: "d = c" and s: "P s"
    show "P (snd v)"
      using r s nap [OF s] IH [of c _ v] by (auto simp: d split: if_splits)
  qed
  then show ?thesis using assms(2) by (simp add: kept_by_def)
qed

lemma copy_out_keeps:
  assumes "\<And>q. P q \<Longrightarrow> P (snd (deq q))" "P q"
  shows "P (snd (snd (copy_out deq sz n room ret out q)))"
  using assms(2)
proof (induction n arbitrary: room ret out q)
  case (Suc n)
  then show ?case using assms(1) [OF Suc.prems]
    by (auto simp: case_prod_unfold Let_def split: option.split nat.split)
qed simp

lemma wf_event_read:
  assumes "calm c" "driver_wf s"
  shows "kept (snd \<circ> snd) (libera_event_read c f count room s)"
proof -
  have w: "kept snd (if empty_eventFIFO (events (event (lock_event s))) then wait_event c (lock_event s)
      else Some (0, lock_event s))"
    using assms wf_nap [OF assms(1)] by (intro keeps wait_event_keeps) simp_all
  have "driver_wf (upd_event (\<lambda>e. e\<lparr>events := snd (snd (event_copy n room 0 [] (events (event x))))\<rparr>) x)"
    if "driver_wf x" for n x
    using that copy_out_keeps [where P = trig_wf, OF ev.wf_deq]
    by (intro wf_upd_event) (simp_all add: event_copy_def wf_parts)
  then show ?thesis
    unfolding libera_event_read_def case_prod_unfold Let_def
    by (intro keeps kept_bind [OF w]) (simp_all add: assms(2))
qed

lemma wf_flush_trig: "driver_wf s \<Longrightarrow> driver_wf (flush_sc is s)" "driver_wf s \<Longrightarrow> driver_wf (flush_mc is s)"
  unfolding flush_sc_def flush_mc_def
  by (rule wf_fold, rule wf_upd_event; simp add: wf_parts stamps_flush)+

lemma wf_enable:
  assumes "driver_wf s"
  shows "kept (snd \<circ> snd) (event_enable_sc l arg s)" "kept (snd \<circ> snd) (event_enable_mc l arg s)"
  unfolding event_enable_sc_def event_enable_mc_def Let_def
  by (intro keeps kept_map [where Q = driver_wf and st' = "\<lambda>_. s"]; simp add: assms kept_by_def wf_flush_trig wf_trig_enable)+

lemma wf_get_trigger:
  assumes "calm c" "driver_wf s"
  shows "kept (snd \<circ> snd) (event_get_trigger c tv X q k u s)"
  unfolding event_get_trigger_def
  by (intro keeps kept_map [OF wf_getBlocked_user [OF assms]]) (simp_all add: assms(2) case_prod_unfold)

lemma wf_event_setters:
  assumes "driver_wf s"
  shows "driver_wf (snd (event_set_st u s))" "driver_wf (snd (event_set_mt u s))"
    "driver_wf (snd (event_set_mcpll u s))" "driver_wf (snd (event_set_scpll u s))"
    "driver_wf (s\<lparr>lgbl := (lgbl s)\<lparr>event_mask := k\<rparr>\<rparr>)" "driver_wf (flush_events s)"
  using assms
  by (simp_all add: event_set_st_def event_set_mt_def event_set_mcpll_def event_set_scpll_def arm_set_time_def
      case_prod_unfold Let_def wf_send_event wf_mask_event wf_flush_events del: fst_readl)

lemma event_state [simp]: "snd (snd (give u ws s)) = s" "snd (snd (event_fifolen g u s)) = s"
  by (simp_all add: give_def event_fifolen_def Let_def)

lemma wf_event_cmd:
  assumes "calm c" "driver_wf s"
  shows "kept (snd \<circ> snd \<circ> snd) (libera_event_cmd c junk l f cmd arg u s)"
  unfolding event_cmd_defs case_prod_unfold Let_def
  by (intro keeps kept_map [OF wf_enable(1) [OF assms(2)]] kept_map [OF wf_enable(2) [OF assms(2)]]
      kept_bind [OF wf_get_trigger [OF assms]] kept_bind [OF wf_get_CTIME [OF assms]] kept_bind [OF wf_acq_pm [OF assms]])
    (simp_all add: assms(2) wf_event_setters)

lemma wf_event_ioctl:
  assumes "calm c" "driver_wf s"
  shows "kept (snd \<circ> snd \<circ> snd) (libera_event_ioctl c junk l f cmd arg u s)"
  unfolding libera_event_ioctl_def by (intro keeps wf_event_cmd assms) (simp_all add: assms(2))

section \<open>Reading slow acquisition data\<close>

text \<open>A pipe stays allocated while its file is read: the kernel closes no file in use.\<close>

definition keeps_pipe :: "nat \<Rightarrow> ctx \<Rightarrow> bool" where
  "keeps_pipe a c \<longleftrightarrow> (\<forall>s. sa_heap (sa s) a \<noteq> None \<longrightarrow> sa_heap (sa (wake c s)) a \<noteq> None)"

definition pipe_wf :: "nat \<Rightarrow> libera \<Rightarrow> bool" where
  "pipe_wf a s \<longleftrightarrow> driver_wf s \<and> sa_heap (sa s) a \<noteq> None"

lemma pipe_wf_at: "pipe_wf a s \<Longrightarrow> sa_wf (sl_pipe (pipe_at a s))"
  by (auto simp: pipe_wf_def pipe_at_def driver_wf_def queues_ok_def sa_inv_def intro: ranI split: option.split)

lemma pipe_wf_set:
  assumes "pipe_wf a s" "sa_wf (sl_pipe p)"
  shows "pipe_wf a (set_pipe a p s)"
proof -
  have d: "driver_wf s" "dom ((sa_heap (sa s))(a \<mapsto> p)) = dom (sa_heap (sa s))"
    using assms(1) by (auto simp: pipe_wf_def)
  have r: "\<forall>q\<in>ran ((sa_heap (sa s))(a \<mapsto> p)). sa_wf (sl_pipe q)"
    using wf_parts(2) [OF d(1)] assms(2) by (auto simp: sa_inv_def ran_def)
  have "sa_inv (set_pipe a p s)"
    by (rule sa_inv_cong [OF _ _ _ _ wf_parts(2) [OF d(1)]]) (use d(2) r in \<open>simp_all add: set_pipe_def\<close>)
  moreover have "buf_ok (set_pipe a p s)" using wf_parts(3) [OF d(1)] by (simp add: buf_ok_def set_pipe_def)
  ultimately show ?thesis
    using d(1) by (simp add: pipe_wf_def set_pipe_def wf_sa)
qed

lemma pipe_wf_lock: "pipe_wf a s \<Longrightarrow> pipe_wf a (lock_pipe a b s)"
  by (simp add: lock_pipe_def pipe_wf_set pipe_wf_at)

lemma pipe_wf_nap:
  assumes "calm c" "keeps_pipe a c" "pipe_wf a s"
  shows "pipe_wf a (lock_pipe a True (schedule c (lock_pipe a False s)))"
proof -
  have "pipe_wf a (lock_pipe a False s)" using assms(3) by (rule pipe_wf_lock)
  then have "pipe_wf a (schedule c (lock_pipe a False s))"
    using assms(1,2) wf_schedule by (simp add: pipe_wf_def keeps_pipe_def) (simp add: schedule_def)
  then show ?thesis by (rule pipe_wf_lock)
qed

lemma wait_pipe_keeps:
  assumes nap: "\<And>s. P s \<Longrightarrow> P (lock_pipe a True (schedule c (lock_pipe a False s)))" and "P s"
  shows "kept_by P snd (wait_pipe c a s)"
proof -
  have "P s \<longrightarrow> P (snd v)" if "wait_pipe c a s = Some v" for s v
  proof (rule wait_pipe.raw_induct [OF _ that, of "\<lambda>d b s v. d = c \<longrightarrow> b = a \<longrightarrow> P s \<longrightarrow> P (snd v)",
        THEN mp, OF _ refl, THEN mp, OF _ refl], intro impI)
    fix rec d b s v
    assume IH: "\<And>d b s v. rec d b s = Some v \<Longrightarrow> d = c \<longrightarrow> b = a \<longrightarrow> P s \<longrightarrow> P (snd v)"
      and r: "(if not_empty_saFIFO (sl_pipe (pipe_at b s)) then Some (0, s)
        else if \<not> sigpend d s then rec d b (lock_pipe b True (schedule d (lock_pipe b False s)))
        else Some (- ERESTARTSYS, s)) = Some v" and d: "d = c" "b = a" and s: "P s"
    show "P (snd v)"
      using r s nap [OF s] IH [of c a _ v] by (auto simp: d split: if_splits)
  qed
  then show ?thesis using assms(2) by (simp add: kept_by_def)
qed

lemma wf_sa_read:
  assumes "calm c" "keeps_pipe a c" "driver_wf s" "sa_heap (sa s) a \<noteq> None"
  shows "kept (snd \<circ> snd) (libera_sa_read c f a count room pos s)"
proof -
  have l: "pipe_wf a (lock_pipe a b s)" for b using assms(3,4) by (intro pipe_wf_lock) (simp add: pipe_wf_def)
  have u: "pipe_wf a x \<Longrightarrow> driver_wf (lock_pipe a b x)" for x b
    using pipe_wf_lock pipe_wf_def by blast
  let ?s = "lock_pipe a True s"
  have w: "kept_by (pipe_wf a) snd (if empty_saFIFO (sl_pipe (pipe_at a ?s)) then wait_pipe c a ?s else Some (0, ?s))"
    using pipe_wf_nap [OF assms(1,2)] l by (intro keeps wait_pipe_keeps) simp_all
  have q: "pipe_wf a (set_pipe a ((pipe_at a x)\<lparr>sl_pipe := snd (snd (sa_copy_atoms n room 0 [] (sl_pipe (pipe_at a x))))\<rparr>) x)"
    if "pipe_wf a x" for x n
    using that copy_out_keeps [where P = sa_wf, OF sa.wf_deq] pipe_wf_at
    by (intro pipe_wf_set) (simp_all add: sa_copy_atoms_def)
  show ?thesis
    unfolding libera_sa_read_def case_prod_unfold Let_def
    by (intro keeps kept_case [OF w]) (use assms(3) in \<open>auto intro!: u l q\<close>)
qed

section \<open>Loading\<close>

lemma wf_init: "sa_heap (sa s) = Map.empty \<Longrightarrow> driver_wf (libera_init_devs s)"
proof -
  have f: "events (fold flush_stamps xs e) = events e" "stamps_ok i (sc_timestamps (fold flush_stamps xs e) i)"
    "stamps_ok i (mc_timestamps (fold flush_stamps xs e) i)"
    if "\<And>i. stamps_ok i (sc_timestamps e i)" "\<And>i. stamps_ok i (mc_timestamps e i)" for xs e i
    using that by (induction xs arbitrary: e) (auto simp: flush_stamps_def stamps_flush)
  have z: "stamps_ok i (zero_ring 0)" for i by (simp add: stamps_ok_def)
  assume h: "sa_heap (sa s) = Map.empty"
  show ?thesis
    by (simp add: libera_init_devs_def Let_def wf_defs f h z
        zero_event_dev_def zero_common_def zero_global_def zero_dma_def dma_ok_def SA_FIFO_DEPTH_def LIBERA_SA_MAX_READERS_def)
qed

lemma wf_upd_lgbl: "driver_wf s \<Longrightarrow> (dma_ok (dma_of s) \<Longrightarrow> dma_ok (g_dma (g (lgbl s)))) \<Longrightarrow> driver_wf (upd_lgbl g s)"
  by (simp add: upd_lgbl_def wf_lgbl wf_parts)

lemma wf_upd_lgbl_same [simp]: "(\<And>x. g_dma (g x) = g_dma x) \<Longrightarrow> driver_wf (upd_lgbl g s) = driver_wf s"
  by (rule driver_wf_cong) (simp_all add: upd_lgbl_def)

lemma wf_probe: "driver_wf s \<Longrightarrow> driver_wf (probe_fpga s)"
  by (simp add: probe_fpga_def case_prod_unfold Let_def del: fst_readl)

lemma wf_start_interrupts: "driver_wf s \<Longrightarrow> driver_wf (start_interrupts s)"
  by (simp add: start_interrupts_def Let_def wf_trig_enable)

lemma wf_set_param_from [simp]: "driver_wf (set_param_from i a s) = driver_wf s"
  by (simp add: set_param_from_def case_prod_unfold Let_def del: fst_readl)

lemma wf_init_specific: "driver_wf s \<Longrightarrow> driver_wf (snd (libera_init_specific s))"
  unfolding libera_init_specific_def Let_def
  by (intro wf_trig_enable wf_fold) (simp_all only: wf_cfg_set wf_set_param wf_set_param_from wf_readl wf_adc)

text \<open>The state a successful load leaves, step by step.\<close>

definition loaded :: "load_env \<Rightarrow> (nat \<Rightarrow> dd_atom) \<Rightarrow> dd_atom list \<Rightarrow> libera \<Rightarrow> libera" where
  "loaded env pages buf s =
     (let s = probe_fpga (libera_init_devs s);
          s = upd_lgbl (\<lambda>g. g\<lparr>g_dma := (g_dma g)\<lparr>dma_buf := pages\<rparr>\<rparr>) s;
          s = upd_lgbl (\<lambda>g. g\<lparr>g_dma := (g_dma g)\<lparr>aborting := False\<rparr>\<rparr>) s;
          s = set_irqMask 0 (s\<lparr>pm := (pm s)\<lparr>pm_buf := buf\<rparr>\<rparr>)
      in snd (libera_init_specific (start_interrupts (upd_lgbl (\<lambda>g. g\<lparr>g_irq := irq_gpio env\<rparr>) s))))"

lemma load_loaded:
  assumes "libera_init env s held = Some (0, t, h)"
  shows "\<exists>pages buf. t = loaded env pages buf s"
  using assms unfolding loaded_def
  by (auto simp: libera_init_def Let_def abandon_some errno_defs Option.bind_eq_Some_conv case_prod_unfold
      split: if_split_asm option.split_asm)

lemma wf_load:
  assumes "libera_init env s held = Some (0, t, h)" "sa_heap (sa s) = Map.empty"
  shows "driver_wf t"
proof -
  have u: "driver_wf (upd_lgbl (\<lambda>g. g\<lparr>g_dma := (g_dma g)\<lparr>aborting := False\<rparr>\<rparr>)
      (upd_lgbl (\<lambda>g. g\<lparr>g_dma := (g_dma g)\<lparr>dma_buf := pages\<rparr>\<rparr>) (probe_fpga (libera_init_devs s))))" for pages
    by (intro wf_upd_lgbl wf_probe wf_init assms(2)) (simp_all add: dma_ok_def)
  have "driver_wf (loaded env pages buf s)" for pages buf
    unfolding loaded_def Let_def
    by (intro wf_init_specific wf_start_interrupts wf_upd_lgbl) (simp_all add: u del: fst_readl)
  then show ?thesis using load_loaded [OF assms(1)] by auto
qed

section \<open>The ways into the driver\<close>

text \<open>
  The interrupts, the tasklet and the file operations with their arguments, as the tables
  \<^verbatim>\<open>libera_*_fops\<close> list them. Seeking on the block devices and the converters and polling change nothing in
  the driver and are left out.
\<close>

datatype entry =
    Interrupt int | Dma_interrupt bool bool | Tasklet
  | Open_dev "nat option" nat filep
  | Cfg_ioctl filep u32 ucopy | Cfg_release filep
  | Dd_llseek ctx dd_local u64 int | Dd_read ctx nat u32 dd_local | Dd_ioctl ctx dd_local u32 ucopy | Dd_release
  | Fa_read ctx filep nat nat | Fa_write ctx filep nat nat "u32 list" | Fa_ioctl filep u32 ucopy | Fa_release filep
  | Pm_read ctx u32 nat | Pm_ioctl ctx filep u32 ucopy | Pm_release filep
  | Sa_read ctx filep nat nat nat int | Sa_release nat
  | Event_read ctx filep nat nat | Event_ioctl ctx Ltimestamp event_local filep u32 u32 ucopy
  | Event_release event_local filep
  | Adc_read ctx u32 nat | Adc_release filep
  | Dsc_read ctx filep nat nat | Dsc_write ctx filep nat nat "u32 list" | Dsc_ioctl filep u32 ucopy | Dsc_release filep

text \<open>The state an entry leaves; \<open>None\<close> when it does not return.\<close>

fun do_entry :: "entry \<Rightarrow> libera \<Rightarrow> libera option" where
  "do_entry (Interrupt irq) s = map_option snd (libera_interrupt irq s)"
| "do_entry (Dma_interrupt e b) s = Some (libera_dma_interrupt e b s)"
| "do_entry Tasklet s = libera_sa_do_tasklet s"
| "do_entry (Open_dev mem minor f) s = Some (snd (snd (libera_open mem minor f s)))"
| "do_entry (Cfg_ioctl f cmd u) s = Some (snd (snd (libera_cfg_ioctl f cmd u s)))"
| "do_entry (Cfg_release f) s = Some (snd (libera_cfg_release f s))"
| "do_entry (Dd_llseek c l x w) s = map_option (snd \<circ> snd) (libera_dd_llseek c l x w s)"
| "do_entry (Dd_read c room count l) s = map_option (snd \<circ> snd \<circ> snd) (libera_dd_read c room count l s)"
| "do_entry (Dd_ioctl c l cmd u) s = Some (snd (snd (snd (libera_dd_ioctl c l cmd u s))))"
| "do_entry Dd_release s = Some (snd (libera_dd_release s))"
| "do_entry (Fa_read c f count left) s = Some (snd (snd (snd (libera_fa_read c f count left s))))"
| "do_entry (Fa_write c f count left ws) s = Some (snd (snd (libera_fa_write c f count left ws s)))"
| "do_entry (Fa_ioctl f cmd u) s = Some (snd (libera_fa_ioctl f cmd u s))"
| "do_entry (Fa_release f) s = Some (snd (libera_fa_release f s))"
| "do_entry (Pm_read c count left) s = Some (snd (snd (libera_pm_read c count left s)))"
| "do_entry (Pm_ioctl c f cmd u) s = Some (snd (snd (libera_pm_ioctl c f cmd u s)))"
| "do_entry (Pm_release f) s = Some (snd (libera_pm_release f s))"
| "do_entry (Sa_read c f a count room pos) s = map_option (snd \<circ> snd) (libera_sa_read c f a count room pos s)"
| "do_entry (Sa_release a) s = Some (snd (libera_sa_release a s))"
| "do_entry (Event_read c f count room) s = map_option (snd \<circ> snd) (libera_event_read c f count room s)"
| "do_entry (Event_ioctl c junk l f cmd arg u) s =
     map_option (snd \<circ> snd \<circ> snd) (libera_event_ioctl c junk l f cmd arg u s)"
| "do_entry (Event_release l f) s = Some (snd (libera_event_release l f s))"
| "do_entry (Adc_read c count room) s = Some (snd (snd (libera_adc_read c count room s)))"
| "do_entry (Adc_release f) s = Some (snd (libera_adc_release f s))"
| "do_entry (Dsc_read c f count left) s = Some (snd (snd (snd (libera_dsc_read c f count left s))))"
| "do_entry (Dsc_write c f count left ws) s = Some (snd (snd (libera_dsc_write c f count left ws s)))"
| "do_entry (Dsc_ioctl f cmd u) s = Some (snd (libera_dsc_ioctl f cmd u s))"
| "do_entry (Dsc_release f) s = Some (snd (libera_dsc_release f s))"

text \<open>The context of the entries that can sleep.\<close>

fun sleeps_in :: "entry \<Rightarrow> ctx option" where
  "sleeps_in (Dd_llseek c l x w) = Some c"
| "sleeps_in (Dd_read c room count l) = Some c"
| "sleeps_in (Sa_read c f a count room pos) = Some c"
| "sleeps_in (Event_read c f count room) = Some c"
| "sleeps_in (Event_ioctl c junk l f cmd arg u) = Some c"
| "sleeps_in _ = None"

text \<open>
  What the kernel sees to before it calls an entry: memory it allocates is not in use, a file that is
  read or closed is open and is not closed meanwhile, its position is one that seeking can give it, and
  the user's buffer is as long as the count says.
\<close>

fun entry_ok :: "entry \<Rightarrow> libera \<Rightarrow> bool" where
  "entry_ok (Open_dev mem minor f) s = (case mem of None \<Rightarrow> True | Some a \<Rightarrow> sa_heap (sa s) a = None)"
| "entry_ok (Sa_read c f a count room pos) s = (sa_heap (sa s) a \<noteq> None \<and> keeps_pipe a c)"
| "entry_ok (Sa_release a) s = (sa_heap (sa s) a \<noteq> None)"
| "entry_ok (Fa_read c f count left) s = pos_ok FAI_BLOCKSIZE (f_pos f)"
| "entry_ok (Fa_write c f count left ws) s = (pos_ok FAI_BLOCKSIZE (f_pos f) \<and> count \<le> 4 * length ws)"
| "entry_ok (Dsc_read c f count left) s = pos_ok DSC_BLOCKSIZE (f_pos f)"
| "entry_ok (Dsc_write c f count left ws) s = (pos_ok DSC_BLOCKSIZE (f_pos f) \<and> count \<le> 4 * length ws)"
| "entry_ok _ s = True"

text \<open>
  An entry keeps the invariant, whatever happens while it sleeps, as long as that keeps the invariant:
  any interleaving with other entries that do the same.
\<close>

lemma entry_keeps:
  assumes "driver_wf s" "entry_ok e s" "\<And>c. sleeps_in e = Some c \<Longrightarrow> calm c" "do_entry e s = Some t"
  shows "driver_wf t"
proof (cases e)
  case (Interrupt irq)
  then show ?thesis
    using assms(1,4) irq_loop_keeps [of driver_wf, OF wf_readl wf_irq_pass]
    by (auto simp: libera_interrupt_def split: if_splits)
next
  case (Dd_llseek c l x w)
  then show ?thesis using assms(3,4) keptD [OF wf_dd_llseek [OF _ assms(1), of c l x w]] by auto
next
  case (Dd_read c room count l)
  then show ?thesis using assms(3,4) keptD [OF wf_dd_read [OF _ assms(1), of c room count l]] by auto
next
  case (Sa_read c f a count room pos)
  then show ?thesis
    using assms(2-4) keptD [OF wf_sa_read [OF _ _ assms(1), of c a f count room pos]] by auto
next
  case (Event_read c f count room)
  then show ?thesis using assms(3,4) keptD [OF wf_event_read [OF _ assms(1), of c f count room]] by auto
next
  case (Event_ioctl c junk l f cmd arg u)
  then show ?thesis using assms(3,4) keptD [OF wf_event_ioctl [OF _ assms(1), of c junk l f cmd arg u]] by auto
qed (use assms(1,2,4) in \<open>auto simp: wf_dma_interrupt wf_open wf_cfg_ioctl wf_releases wf_pm_calls wf_fa_io wf_dsc_io
    wf_blk_ioctl wf_sa_release wf_event_release wf_adc_read split: option.split_asm intro: wf_tasklet\<close>)

text \<open>
  The system: entries one after the other, where other entries run to their end each time one sleeps.
  \<open>admits\<close> says which entries can begin in a state.
\<close>

inductive driver_step :: "(entry \<Rightarrow> libera \<Rightarrow> bool) \<Rightarrow> libera \<Rightarrow> libera \<Rightarrow> bool" for admits where
  step: "admits e s \<Longrightarrow> entry_ok e s \<Longrightarrow> do_entry e s = Some t \<Longrightarrow>
    (\<forall>c x. sleeps_in e = Some c \<longrightarrow> (driver_step admits)\<^sup>*\<^sup>* x (wake c x)) \<Longrightarrow> driver_step admits s t"

lemma steps_keep:
  assumes "r\<^sup>*\<^sup>* s t" "\<And>x y. r x y \<Longrightarrow> P x \<Longrightarrow> P y" "P s"
  shows "P t"
  using assms(1) by induction (use assms(2,3) in blast)+

lemma driver_step_keeps:
  assumes "driver_step admits s t" "driver_wf s"
  shows "driver_wf t"
  using assms
proof (induction rule: driver_step.induct)
  case (step e s t)
  have "calm c" if "sleeps_in e = Some c" for c
    unfolding calm_def
  proof (intro allI impI)
    fix x assume "driver_wf x"
    then show "driver_wf (wake c x)"
      using step.IH that steps_keep [of "\<lambda>x y. driver_step admits x y \<and> (driver_wf x \<longrightarrow> driver_wf y)" x "wake c x" driver_wf]
      by blast
  qed
  then show ?case using entry_keeps step.hyps step.prems by blast
qed

text \<open>
  C3: the driver stays well formed, whatever is done with it. From the moment the module is loaded, after
  any sequence of interrupts, tasklets and file operations on all its devices, with any others running
  whenever one of them sleeps, for any FPGA and any arguments, every time stamp, event, interrupt and
  slow acquisition queue has its indices inside its array, the FIFOs of the two triggers whose stamps are
  paired instead (TRIGGER and POST_MORTEM) are empty, the registered pipes are those allocated, the
  DMA indices lie inside the DMA buffer, and the buffers of the block devices have their size.
\<close>

theorem driver_stays_wf:
  assumes "libera_init env ((libera_bss f)\<lparr>modp := m\<rparr>) [] = Some (0, s, held)"
    and "(driver_step admits)\<^sup>*\<^sup>* s t"
  shows "driver_wf t"
proof -
  have "driver_wf s" using wf_load [OF assms(1)] by (simp add: libera_bss_def)
  then show ?thesis using steps_keep [OF assms(2), of driver_wf] driver_step_keeps by blast
qed

text \<open>A process that sleeps once, while an interrupt is taken, and then has a signal pending.\<close>

definition interrupted :: ctx where
  "interrupted = \<lparr>wake = (\<lambda>s. case do_entry (Interrupt (g_irq (lgbl s))) s of None \<Rightarrow> s | Some t \<Rightarrow> t),
     sigpend = (\<lambda>s. sleeps s \<noteq> 0), lock_intr = (\<lambda>_. False), timeleft = (\<lambda>_ _. 0), jiffies = (\<lambda>_. 0),
     dma_waiter = (\<lambda>_. False)\<rparr>"

theorem driver_stays_wf_witness:
  "\<exists>s t f. libera_init (sample_env None) (libera_bss (\<lambda>_ _. 0)) [] = Some (0, s, module_resources) \<and>
     do_entry (Event_read interrupted f 8 1) s = Some t \<and> driver_wf t"
proof -
  have "load_ok (sample_env None) (modp (libera_bss (\<lambda>_ _. 0)))" "env_ok (sample_env None)"
    by (simp_all add: load_ok_def sample_env_def devices_ok_def env_ok_def libera_bss_def reg_defs)
  then obtain s where s: "libera_init (sample_env None) (libera_bss (\<lambda>_ _. 0)) [] = Some (0, s, module_resources)"
    using load_succeeds by blast
  let ?f = "\<lparr>filp = 1, f_read = True, f_write = False, f_nonblock = False, f_pos = 0\<rparr>"
  let ?e = "Event_read interrupted ?f 8 1"
  have "\<exists>v. wait_event interrupted x = Some v" for x
    by (subst wait_event.simps, subst wait_event.simps)
      (simp add: interrupted_def schedule_def lock_event_def)
  then obtain r u where w: "wait_event interrupted (lock_event s) = Some (r, u)" by (metis surj_pair)
  have "\<not> lock_intr interrupted s" by (simp add: interrupted_def)
  then have "\<exists>v. libera_event_read interrupted ?f 8 1 s = Some v"
    by (cases "empty_eventFIFO (events (event (lock_event s)))"; cases "r = 0")
      (simp_all add: libera_event_read_def Let_def case_prod_unfold event_bytes_def w)
  then obtain v where "libera_event_read interrupted ?f 8 1 s = Some v" ..
  then have t: "do_entry ?e s = Some (snd (snd v))" by (simp only: do_entry.simps option.map comp_def)
  let ?t = "snd (snd v)"
  have "(driver_step (\<lambda>_ _. True))\<^sup>*\<^sup>* x (wake interrupted x)" for x
  proof (cases "do_entry (Interrupt (g_irq (lgbl x))) x")
    case None
    then show ?thesis by (simp add: interrupted_def)
  next
    case (Some y)
    then have "driver_step (\<lambda>_ _. True) x y" by (intro step [OF _ _ Some]) simp_all
    then show ?thesis using Some by (auto simp: interrupted_def)
  qed
  then have "driver_step (\<lambda>_ _. True) s ?t" by (intro step [OF _ _ t]) simp_all
  then have "driver_wf ?t"
    using driver_stays_wf [of "sample_env None" "modp (libera_bss (\<lambda>_ _. 0))" "\<lambda>_ _. 0" s module_resources "\<lambda>_ _. True" ?t] s
    by (simp add: r_into_rtranclp)
  with s t show ?thesis by blast
qed

end
