(* ===== verification/Locks.thy ===== *)
theory Locks
  imports System
begin

text \<open>
  The mutexes of the driver: one per device, one for the current time and one in every slow acquisition
  pipe. An entry that takes a mutex can only go on while nobody holds it; this theory shows that under
  this rule every entry gives back what it takes, on every path.
\<close>

section \<open>The mutexes\<close>

datatype lock = Cfg_lock | Dd_lock | Fa_lock | Pm_lock | Sa_lock | Event_lock | Adc_lock | Dsc_lock | Ctime_lock
  | Pipe_lock nat

fun held_lock :: "libera \<Rightarrow> lock \<Rightarrow> bool" where
  "held_lock s Cfg_lock = sem (cfg_com (cfg s))"
| "held_lock s Dd_lock = sem (dd_com (dd s))"
| "held_lock s Fa_lock = sem (blk_com (fa s))"
| "held_lock s Pm_lock = sem (pm_com (pm s))"
| "held_lock s Sa_lock = sem (sa_com (sa s))"
| "held_lock s Event_lock = sem (ev_com (event s))"
| "held_lock s Adc_lock = sem (adc_com (adc s))"
| "held_lock s Dsc_lock = sem (blk_com (dsc s))"
| "held_lock s Ctime_lock = CTIME_sem (event s)"
| "held_lock s (Pipe_lock a) = sl_sem (pipe_at a s)"

definition locks :: "libera \<Rightarrow> lock \<Rightarrow> bool" where
  "locks s l = held_lock s l"

lemma locks_eqI: "(\<And>l. held_lock t l = f l) \<Longrightarrow> locks t = f"
  by (simp add: locks_def fun_eq_iff)

lemma locks_at: "locks s Event_lock = sem (ev_com (event s))" "locks s Ctime_lock = CTIME_sem (event s)"
  "locks s Dd_lock = sem (dd_com (dd s))" "locks s (Pipe_lock a) = sl_sem (pipe_at a s)"
  "locks s Cfg_lock = sem (cfg_com (cfg s))" "locks s Fa_lock = sem (blk_com (fa s))"
  "locks s Pm_lock = sem (pm_com (pm s))" "locks s Sa_lock = sem (sa_com (sa s))"
  "locks s Adc_lock = sem (adc_com (adc s))" "locks s Dsc_lock = sem (blk_com (dsc s))"
  by (simp_all add: locks_def)

lemma locks_same:
  assumes "cfg t = cfg s" "dd t = dd s" "fa t = fa s" "pm t = pm s" "sa t = sa s" "event t = event s"
    "adc t = adc s" "dsc t = dsc s"
  shows "locks t = locks s"
proof (rule locks_eqI)
  fix l show "held_lock t l = locks s l" using assms by (cases l) (simp_all add: locks_at pipe_at_def)
qed

lemma locks_frame [simp]:
  "locks (snd (readl a s)) = locks s" "locks (writel v a s) = locks s" "locks (printk_crit m s) = locks s"
  "locks (wake_up_interruptible q s) = locks s" "locks (s\<lparr>lgbl := g\<rparr>) = locks s" "locks (s\<lparr>modp := m'\<rparr>) = locks s"
  "locks (s\<lparr>sleeps := k\<rparr>) = locks s" "locks (set_irqMask k' s) = locks s" "locks (upd_dma f s) = locks s"
  "locks (upd_lgbl g' s) = locks s"
  by (rule locks_same; simp add: readl_def writel_def printk_crit_def wake_up_interruptible_def set_irqMask_def
      upd_dma_def upd_lgbl_def Let_def)+

text \<open>An update of a device sets the mutex of the device and leaves the others.\<close>

lemma locks_upd:
  "locks (s\<lparr>cfg := c\<rparr>) = (locks s)(Cfg_lock := sem (cfg_com c))"
  "locks (s\<lparr>dd := d\<rparr>) = (locks s)(Dd_lock := sem (dd_com d))"
  "locks (s\<lparr>fa := b\<rparr>) = (locks s)(Fa_lock := sem (blk_com b))"
  "locks (s\<lparr>pm := p\<rparr>) = (locks s)(Pm_lock := sem (pm_com p))"
  "locks (s\<lparr>event := e\<rparr>) = (locks s)(Event_lock := sem (ev_com e), Ctime_lock := CTIME_sem e)"
  "locks (s\<lparr>adc := a\<rparr>) = (locks s)(Adc_lock := sem (adc_com a))"
  "locks (s\<lparr>dsc := b\<rparr>) = (locks s)(Dsc_lock := sem (blk_com b))"
  "sa_heap x = sa_heap (sa s) \<Longrightarrow> locks (s\<lparr>sa := x\<rparr>) = (locks s)(Sa_lock := sem (sa_com x))"
  by (rule locks_eqI, case_tac l; simp add: locks_at pipe_at_def)+

lemma locks_pipe: "locks (set_pipe a p s) = (locks s)(Pipe_lock a := sl_sem p)"
  by (rule locks_eqI, case_tac l) (simp_all add: locks_at pipe_at_def set_pipe_def)

lemma locks_triv:
  "sem (cfg_com c) = locks s Cfg_lock \<Longrightarrow> locks (s\<lparr>cfg := c\<rparr>) = locks s"
  "sem (dd_com d) = locks s Dd_lock \<Longrightarrow> locks (s\<lparr>dd := d\<rparr>) = locks s"
  "sem (blk_com b) = locks s Fa_lock \<Longrightarrow> locks (s\<lparr>fa := b\<rparr>) = locks s"
  "sem (pm_com p) = locks s Pm_lock \<Longrightarrow> locks (s\<lparr>pm := p\<rparr>) = locks s"
  "sem (ev_com e) = locks s Event_lock \<Longrightarrow> CTIME_sem e = locks s Ctime_lock \<Longrightarrow> locks (s\<lparr>event := e\<rparr>) = locks s"
  "sem (adc_com a) = locks s Adc_lock \<Longrightarrow> locks (s\<lparr>adc := a\<rparr>) = locks s"
  "sem (blk_com b) = locks s Dsc_lock \<Longrightarrow> locks (s\<lparr>dsc := b\<rparr>) = locks s"
  "sa_heap x = sa_heap (sa s) \<Longrightarrow> sem (sa_com x) = locks s Sa_lock \<Longrightarrow> locks (s\<lparr>sa := x\<rparr>) = locks s"
  "sl_sem p' = locks s (Pipe_lock n) \<Longrightarrow> locks (set_pipe n p' s) = locks s"
  by (simp_all add: locks_upd locks_pipe)

text \<open>Taking and giving back.\<close>

lemma locks_take [simp]:
  "locks (lock_event s) = (locks s)(Event_lock := True)" "locks (unlock_event s) = (locks s)(Event_lock := False)"
  "locks (lock_CTIME b s) = (locks s)(Ctime_lock := b)" "locks (lock_dd b s) = (locks s)(Dd_lock := b)"
  "locks (lock_pm b s) = (locks s)(Pm_lock := b)" "locks (lock_adc b s) = (locks s)(Adc_lock := b)"
  "locks (lock_pipe a b s) = (locks s)(Pipe_lock a := b)" "locks (set_pm_entry b s) = locks s"
  by (simp_all add: lock_event_def unlock_event_def lock_CTIME_def upd_dd_com_def lock_pm_def lock_adc_def lock_pipe_def
      set_pm_entry_def locks_pipe locks_upd locks_triv locks_at fun_upd_idem)

section \<open>The interrupts leave the mutexes alone\<close>

lemma locks_event_upd:
  "sem (ev_com e) = sem (ev_com (event s)) \<Longrightarrow> CTIME_sem e = CTIME_sem (event s) \<Longrightarrow> locks (s\<lparr>event := e\<rparr>) = locks s"
  by (rule locks_triv(5)) (simp_all add: locks_at)

lemma locks_send [simp]: "locks (send_event i p s) = locks s"
  by (simp add: libera_send_event_def Let_def case_prod_unfold locks_event_upd)

lemma locks_params [simp]: "locks (set_param i v s) = locks s" "locks (s\<lparr>cfg := (cfg s)\<lparr>pm_freezed := b\<rparr>\<rparr>) = locks s"
  "locks (s\<lparr>cfg := (cfg s)\<lparr>param := f\<rparr>\<rparr>) = locks s"
  by (simp_all add: set_param_def locks_triv locks_at)

lemma locks_set_time [simp]: "locks (libera_set_time s) = locks s"
  by (simp add: libera_set_time_def libera_set_LST_def libera_set_LMT_def Let_def locks_event_upd)

lemma locks_puts [simp]:
  "locks (put_pair_lst i x s) = locks s" "locks (put_pair_lmt i x s) = locks s"
  "locks (put_sc_stamp i m x s) = locks s" "locks (put_mc_stamp i m x s) = locks s"
  by (simp_all add: put_pair_lst_def put_pair_lmt_def put_sc_stamp_def put_mc_stamp_def Let_def case_prod_unfold
      locks_event_upd)

lemma locks_if: "locks (if b then x else y) = (if b then locks x else locks y)"
  by simp

lemma locks_triggers [simp]: "locks (sc_trigger x y i m s) = locks s" "locks (mc_trigger x y i m s) = locks s"
  unfolding sc_trigger_def libera_SCtrig_specific_def mc_trigger_def libera_MCtrig_specific_def Let_def
  by (simp_all only: locks_if locks_puts locks_params locks_send locks_set_time if_cancel)

lemma locks_selfinc [simp]: "locks (libera_mc_selfinc_specific s) = locks s"
  unfolding libera_mc_selfinc_specific_def Let_def by (auto simp: locks_event_upd)

lemma locks_acts [simp]: "locks (sc_act sl sh s) = locks s" "locks (mc_act sl sh s) = locks s"
  unfolding sc_act_def mc_act_def Let_def
  by (subst fold_same [of locks]; simp add: locks_event_upd)+


lemma locks_block [simp]: "locks (snd (libera_readlBlock a n s)) = locks s" "locks (libera_writelBlock a vs s) = locks s"
proof -
  show "locks (snd (libera_readlBlock a n s)) = locks s"
    by (induction n arbitrary: a s) (simp_all add: Let_def case_prod_unfold del: fst_readl)
  show "locks (libera_writelBlock a vs s) = locks s"
    by (induction a vs s rule: libera_writelBlock.induct) simp_all
qed

lemma locks_sa_upd:
  "sa_heap x = sa_heap (sa s) \<Longrightarrow> sem (sa_com x) = sem (sa_com (sa s)) \<Longrightarrow> locks (s\<lparr>sa := x\<rparr>) = locks s"
  by (rule locks_triv(8)) (simp_all add: locks_at)

lemma locks_handlers:
  "libera_sc_handler s = Some t \<Longrightarrow> locks t = locks s" "libera_mc_handler s = Some t \<Longrightarrow> locks t = locks s"
  "libera_sa_handler s = Some t \<Longrightarrow> locks t = locks s" "locks (libera_scmchelp_handler s) = locks s"
  "locks (libera_ilk_handler s) = locks s" "locks (libera_dd_handler s) = locks s"
proof -
  have sc: "locks u = locks s" if "locks x = locks s" "sc_entry sl sh x = Some u" for sl sh x u
    using that by (auto simp: sc_entry_act)
  have mc: "locks u = locks s" if "locks x = locks s" "mc_entry sl sh x = Some u" for sl sh x u
    using that by (auto simp: mc_entry_act)
  { assume "libera_sc_handler s = Some t"
    then obtain u where u: "timing_loop T_SC_STATUSL T_SC_STATUSH T_SC_FIFOADV sc_entry
        (fst (readl T_SC_STATUSL s)) (snd (readl T_SC_STATUSL s)) = Some u" "t = wake_up_interruptible SC_queue u"
      unfolding libera_sc_handler_def case_prod_unfold Let_def by blast
    have "locks u = locks s"
      by (rule timing_loop_keeps [where P = "\<lambda>x. locks x = locks s", OF _ sc u(1)]) simp_all
    then show "locks t = locks s" using u(2) by simp }
  { assume "libera_mc_handler s = Some t"
    then obtain u where u: "timing_loop T_MC_STATUSL T_MC_STATUSH T_MC_FIFOADV mc_entry
        (fst (readl T_MC_STATUSL s)) (snd (readl T_MC_STATUSL s)) = Some u" "t = wake_up_interruptible MC_queue u"
      unfolding libera_mc_handler_def case_prod_unfold Let_def by blast
    have "locks u = locks s"
      by (rule timing_loop_keeps [where P = "\<lambda>x. locks x = locks s", OF _ mc u(1)]) simp_all
    then show "locks t = locks s" using u(2) by simp }
  have over: "locks (sa_check_overrun x u) = locks u" for x u
    by (simp add: sa_check_overrun_def locks_sa_upd)
  have atom: "locks (sa_read_atom u) = locks u" for u
  proof -
    let ?b = "libera_readlBlock FAI_CORR_BASE 8 (snd (libera_readlBlock SA_FIFO_BASE 8 u))"
    have "locks (snd ?b) = locks u" by simp
    then show ?thesis by (simp add: sa_read_atom_def case_prod_unfold Let_def locks_sa_upd)
  qed
  show "locks t = locks s" if "libera_sa_handler s = Some t"
    using that unfolding libera_sa_handler_def libera_sa_handler_specific_def case_prod_unfold Let_def
    by (rule sa_handler_loop_keeps [where P = "\<lambda>x. locks x = locks s", rotated 3]) (simp_all add: over atom del: fst_readl)
  have "locks (libera_mchelp_handler u) = locks u" for u
    by (simp add: libera_mchelp_handler_def libera_mchelp_handler_specific_def case_prod_unfold Let_def locks_event_upd)
  then show "locks (libera_scmchelp_handler s) = locks s"
    unfolding libera_scmchelp_handler_def libera_schelp_handler_def libera_schelp_handler_specific_def
      case_prod_unfold Let_def
    by (simp_all only: locks_if locks_frame if_cancel)
  show "locks (libera_ilk_handler s) = locks s"
    by (simp add: libera_ilk_handler_def libera_ilk_handler_specific_def case_prod_unfold Let_def del: fst_readl)
  have "locks (u\<lparr>dd := (dd u)\<lparr>dd_irqevents := q\<rparr>\<rparr>) = locks u" for q u
    by (rule locks_triv(2)) (simp add: locks_at)
  then show "locks (libera_dd_handler s) = locks s"
    unfolding libera_dd_handler_def case_prod_unfold Let_def by (simp only: locks_if locks_frame if_cancel)
qed


lemma locks_irq_pass: "irq_pass v s = Some t \<Longrightarrow> locks t = locks s"
proof -
  assume p: "irq_pass v s = Some t"
  let ?s1 = "if v AND LIBERA_INTERRUPT_ILK_MASK \<noteq> 0 then libera_ilk_handler s else s"
  obtain s2 s3 where 2: "(if v AND LIBERA_INTERRUPT_SC_MASK \<noteq> 0 then libera_sc_handler ?s1 else Some ?s1) = Some s2"
    and 3: "(if v AND LIBERA_INTERRUPT_MC_MASK \<noteq> 0 then libera_mc_handler s2 else Some s2) = Some s3"
    and t: "(let s = (if v AND (LIBERA_INTERRUPT_HELPSC_MASK OR LIBERA_INTERRUPT_HELPMC_MASK) \<noteq> 0
        then libera_scmchelp_handler s3 else s3); s = (if v AND LIBERA_INTERRUPT_DD_MASK \<noteq> 0 then libera_dd_handler s else s)
        in if v AND LIBERA_INTERRUPT_SA_MASK \<noteq> 0 then libera_sa_handler s else Some s) = Some t"
    using p unfolding irq_pass_def Let_def Option.bind_eq_Some_conv by blast
  have "locks s2 = locks s" using 2 locks_handlers(1) [of ?s1 s2] by (auto simp: locks_handlers(5) split: if_split_asm)
  moreover have "locks s3 = locks s2" using 3 locks_handlers(2) by (auto split: if_split_asm)
  moreover have "locks t = locks s3"
    using t locks_handlers(3) [of _ t] unfolding Let_def by (auto simp: locks_handlers(4,6) split: if_split_asm)
  ultimately show ?thesis by simp
qed

lemma locks_interrupt: "libera_interrupt i s = Some (r, t) \<Longrightarrow> locks t = locks s"
  using irq_loop_keeps [where P = "\<lambda>x. locks x = locks s", OF _ _, of s t] locks_irq_pass
  by (auto simp: libera_interrupt_def split: if_split_asm)

lemma locks_dma [simp]: "locks (start_dma s) = locks s" "locks (abort_dma s) = locks s"
  by (simp_all add: start_dma_def libera_dma_command_def abort_dma_def)

lemma locks_dma_interrupt [simp]: "locks (libera_dma_interrupt e b s) = locks s"
  unfolding libera_dma_interrupt_def case_prod_unfold Let_def
  by (simp only: locks_if locks_frame locks_dma if_cancel)

lemma locks_tasklet:
  assumes "libera_sa_do_tasklet s = Some t"
  shows "locks t = locks s"
proof -
  have "locks (sa_dispatch i x) = locks x" for i x
    by (simp add: sa_dispatch_def Let_def case_prod_unfold locks_triv locks_at split: option.split)
  then have d: "locks (sa_dispatch_atom x) = locks x" for x
    unfolding sa_dispatch_atom_def Let_def by (simp add: locks_sa_upd fold_same [of locks])
  have "locks v = locks u" if "sa_tasklet_loop u = Some v" for u v
    by (rule sa_tasklet_loop_keeps [where P = "\<lambda>x. locks x = locks u", OF _ that]) (simp_all add: d)
  then show ?thesis
    using assms by (auto simp: libera_sa_do_tasklet_def libera_sa_do_tasklet_specific_def Let_def locks_sa_upd split: if_split_asm)
qed

section \<open>Opening, closing and the calls that do not sleep\<close>

text \<open>
  The mutex of a device is taken and given back within the call: nobody holds it before, and nobody
  holds it afterwards.
\<close>

definition dev_lock :: "nat \<Rightarrow> lock option" where
  "dev_lock minor = (if minor < 8
     then Some ([Cfg_lock, Dd_lock, Fa_lock, Pm_lock, Sa_lock, Event_lock, Adc_lock, Dsc_lock] ! minor) else None)"

lemma locks_cfg_set [simp]: "locks (snd (libera_cfg_set_specific i v s)) = locks s"
proof -
  have "locks (write_coeffs b n r x) = locks x" for b n r x
    unfolding write_coeffs_def by (subst fold_same [of locks]) simp_all
  moreover have "locks (snd (if b then x else y)) = (if b then locks (snd x) else locks (snd y))"
    for b and x y :: "int \<times> libera" by simp
  ultimately show ?thesis
    unfolding libera_cfg_set_specific_def cfg_set_specific_rest_def cfg_set_limit_def cfg_set_ilk_gain_def cfg_set_extswitch_def
      cfg_set_trigdelay_def cfg_set_pm_dur_def cfg_set_coeff_def case_prod_unfold Let_def
    by (simp only: snd_conv locks_params locks_frame if_cancel)
qed

lemma locks_cfg_get [simp]: "locks (snd (snd (libera_cfg_get_specific i v s))) = locks s"
  by (simp add: libera_cfg_get_specific_def case_prod_unfold Let_def)

lemma locks_cfg_ioctl [simp]: "locks (snd (snd (libera_cfg_ioctl f cmd u s))) = locks s"
  by (simp add: libera_cfg_ioctl_def libera_cfg_cmd_def case_prod_unfold Let_def del: fst_readl)

lemma locks_blk:
  "locks (snd (snd (snd (libera_fa_read c f count left s)))) = locks s"
  "locks (snd (snd (libera_fa_write c f count left ws s))) = locks s"
  "locks (snd (snd (snd (libera_dsc_read c f count left s)))) = locks s"
  "locks (snd (snd (libera_dsc_write c f count left ws s))) = locks s"
  "locks (snd (libera_fa_ioctl f cmd u s)) = locks s" "locks (snd (libera_dsc_ioctl f cmd u s)) = locks s"
proof -
  have r: "locks (snd (snd (snd (snd (block_read base bsize pos count left buf s))))) = locks s"
    "fa (snd (snd (snd (snd (block_read base bsize pos count left buf s))))) = fa s"
    "dsc (snd (snd (snd (snd (block_read base bsize pos count left buf s))))) = dsc s" for base bsize pos buf
    by (simp_all add: block_read_def case_prod_unfold Let_def)
  have w: "locks (snd (snd (snd (block_write base bsize pos count left ws buf s)))) = locks s"
    "fa (snd (snd (snd (block_write base bsize pos count left ws buf s)))) = fa s"
    "dsc (snd (snd (snd (block_write base bsize pos count left ws buf s)))) = dsc s" for base bsize pos buf
    by (simp_all add: block_write_def case_prod_unfold Let_def)
  show "locks (snd (snd (snd (libera_fa_read c f count left s)))) = locks s"
    "locks (snd (snd (libera_fa_write c f count left ws s))) = locks s"
    "locks (snd (snd (snd (libera_dsc_read c f count left s)))) = locks s"
    "locks (snd (snd (libera_dsc_write c f count left ws s))) = locks s"
    by (simp_all add: libera_fa_read_def libera_fa_write_def libera_dsc_read_def libera_dsc_write_def case_prod_unfold
        Let_def locks_triv locks_at r w del: fst_readl)
  have "locks (snd (check_and_update v i j x)) = locks x" for v i j x by (simp add: check_and_update_def Let_def)
  then show "locks (snd (libera_fa_ioctl f cmd u s)) = locks s" "locks (snd (libera_dsc_ioctl f cmd u s)) = locks s"
    by (simp_all add: libera_fa_ioctl_def libera_dsc_ioctl_def Let_def)
qed


lemma sem_open [simp]: "sem (snd (open_single f c)) = False" "sem (snd (open_reader f c)) = False"
  "sem (snd (release_single f c)) = sem c" "sem (snd (release_reader c)) = sem c"
  by (simp_all add: open_single_def open_reader_def release_single_def release_reader_def Let_def)

lemma locks_sa_open:
  assumes "\<not> locks s Sa_lock" "\<forall>a. mem = Some a \<longrightarrow> sa_heap (sa s) a = None"
  shows "locks (snd (snd (libera_sa_open mem f s))) = locks s"
proof -
  let ?sa = "\<lambda>x c. x\<lparr>sa := (sa x)\<lparr>sa_com := c\<lparr>sem := False\<rparr>\<rparr>\<rparr>"
  have c: "locks (?sa x c) = locks s" if "locks x = locks s" for x c
    using that assms(1) by (simp add: locks_upd fun_upd_idem_iff)
  have p: "locks (x\<lparr>sa := (sa x)\<lparr>pipes := q\<rparr>\<rparr>) = locks x" for x q by (simp add: locks_sa_upd)
  have n: "locks (set_pipe a \<lparr>sl_sem = False, sl_pipe = q\<rparr> s) = locks s" if "mem = Some a" for a q
    using assms(2) that by (intro locks_triv) (simp add: locks_at pipe_at_def)
  show ?thesis
    unfolding libera_sa_open_def Let_def
    by (cases mem) (auto simp only: c p n refl snd_conv option.case split: if_split)
qed

lemma locks_event_com: "sem (g (ev_com (event s))) = sem (ev_com (event s)) \<Longrightarrow> locks (upd_event_com g s) = locks s"
  by (simp add: upd_event_com_def upd_event_def locks_event_upd)

lemma locks_upd_event:
  "sem (ev_com (g (event s))) = sem (ev_com (event s)) \<Longrightarrow> CTIME_sem (g (event s)) = CTIME_sem (event s) \<Longrightarrow>
    locks (upd_event g s) = locks s"
  by (simp add: upd_event_def locks_event_upd)

lemma locks_flush_events [simp]: "locks (flush_events s) = locks s"
  by (simp add: flush_events_def locks_upd_event)

lemma locks_event_open:
  assumes "\<not> locks s Event_lock"
  shows "locks (snd (snd (libera_event_open mem f s))) = locks s"
  using assms by (simp add: libera_event_open_def Let_def locks_event_com fun_upd_idem_iff)

lemma locks_event_release [simp]: "locks (snd (libera_event_release l f s)) = locks s"
  by (simp add: libera_event_release_def Let_def locks_event_com locks_upd_event)

lemma locks_dd_open:
  assumes "\<not> locks s Dd_lock"
  shows "locks (snd (snd (libera_dd_open mem f s))) = locks s"
proof -
  have "locks (upd_dd_com g x) = locks x" if "\<And>c. sem (g c) = sem c" for g x
    using that by (simp add: upd_dd_com_def locks_triv locks_at)
  then show ?thesis
    using assms by (simp add: libera_dd_open_def Let_def fun_upd_idem_iff del: locks_take(4)) (simp add: fun_upd_idem_iff)
qed

lemma locks_open:
  assumes "\<And>l. dev_lock minor = Some l \<Longrightarrow> \<not> locks s l" "\<forall>a. mem = Some a \<longrightarrow> sa_heap (sa s) a = None"
  shows "locks (snd (snd (libera_open mem minor f s))) = locks s"
proof (cases "minor < 8")
  case False
  then show ?thesis by (simp add: libera_open_def LIBERA_MAX_MINOR_def)
next
  case True
  have single: "locks (snd (snd ((libera_fops_array mem f ! minor) s))) = locks s" if m: "minor = k" and k: "k < 8" for k
  proof -
    have "\<not> locks s ([Cfg_lock, Dd_lock, Fa_lock, Pm_lock, Sa_lock, Event_lock, Adc_lock, Dsc_lock] ! k)"
      using assms(1) m k by (simp add: dev_lock_def)
    moreover have "k \<in> {0, 1, 2, 3, 4, 5, 6, 7}" using k by auto
    ultimately show ?thesis
      using locks_sa_open [OF _ assms(2)] locks_event_open locks_dd_open
      by (auto simp: m libera_fops_array_def no_data_def with_data_def case_prod_unfold libera_cfg_open_def
        libera_fa_open_def libera_pm_open_def libera_adc_open_def libera_dsc_open_def Let_def locks_triv)
  qed
  then show ?thesis using True by (simp add: libera_open_def LIBERA_MAX_MINOR_def)
qed

text \<open>Closing slow acquisition takes the mutex of the device, and the pipe with its own mutex goes.\<close>

lemma locks_sa_release:
  assumes "\<not> locks s Sa_lock" "\<not> locks s (Pipe_lock a)"
  shows "locks (snd (libera_sa_release a s)) = locks s"
proof -
  have "held_lock (snd (libera_sa_release a s)) l = held_lock s l" for l
    using assms by (cases l) (auto simp: libera_sa_release_def case_prod_unfold Let_def locks_def pipe_at_def)
  then show ?thesis by (intro locks_eqI) (simp add: locks_def)
qed

lemma locks_releases [simp]:
  "locks (snd (libera_cfg_release f s)) = locks s" "locks (snd (libera_fa_release f s)) = locks s"
  "locks (snd (libera_dsc_release f s)) = locks s" "locks (snd (libera_pm_release f s)) = locks s"
  "locks (snd (libera_adc_release f s)) = locks s" "locks (snd (libera_dd_release s)) = locks s"
  by (simp_all add: libera_cfg_release_def libera_fa_release_def libera_dsc_release_def libera_pm_release_def
      libera_adc_release_def libera_dd_release_def upd_dd_com_def case_prod_unfold Let_def locks_triv locks_at)

lemma locks_pm_calls:
  "\<not> locks s Pm_lock \<Longrightarrow> locks (snd (snd (libera_pm_read c count left s))) = locks s"
  "\<not> locks s Pm_lock \<Longrightarrow> locks (snd (snd (libera_pm_ioctl c f cmd u s))) = locks s"
  "\<not> locks s Dd_lock \<Longrightarrow> locks (snd (snd (snd (libera_dd_ioctl c l cmd u s)))) = locks s"
  by (simp_all add: libera_pm_read_def libera_pm_ioctl_def libera_dd_ioctl_def Let_def fun_upd_idem_iff)

text \<open>Reading the converters gives the mutex back unless the user's memory faults.\<close>

lemma locks_adc_read:
  assumes "\<not> locks s Adc_lock" "unat (count div 8) \<le> room"
  shows "locks (snd (snd (libera_adc_read c count room s))) = locks s"
proof -
  have "locks (put_adc i a x) = locks x" for i a x by (simp add: put_adc_def locks_triv locks_at)
  then have a: "locks (snd (adc_read_atom i x)) = locks x" for i x
    by (simp add: adc_read_atom_def case_prod_unfold Let_def split: option.split)
  have "locks (snd (adc_capture n i x)) = locks x" for n i x
    by (induction n arbitrary: i x) (simp_all add: case_prod_unfold Let_def a)
  then show ?thesis
    using assms by (simp add: libera_adc_read_def case_prod_unfold Let_def adc_atom_bytes_def fun_upd_idem_iff)
qed


section \<open>The calls that sleep\<close>

text \<open>While a process sleeps, the entries that run meanwhile give back what they take.\<close>

definition quiet_locks :: "ctx \<Rightarrow> bool" where
  "quiet_locks c \<longleftrightarrow> (\<forall>s. locks (wake c s) = locks s)"

lemma locks_schedule [simp]: "quiet_locks c \<Longrightarrow> locks (schedule c s) = locks s"
  by (simp add: quiet_locks_def schedule_def)

lemma locks_delay [simp]: "quiet_locks c \<Longrightarrow> locks (snd (libera_delay_jiffies_interruptible c j s)) = locks s"
  by (simp add: libera_delay_jiffies_interruptible_def)

abbreviation keeps_locks :: "(lock \<Rightarrow> bool) \<Rightarrow> ('a \<Rightarrow> libera) \<Rightarrow> 'a option \<Rightarrow> bool" where
  "keeps_locks L \<equiv> kept_by (\<lambda>t. locks t = L)"

lemma locks_fifo_upd [simp]: "locks (fifo_upd q f s) = locks s"
  by (cases q) (simp_all add: locks_triv locks_at)

lemma locks_nap: "quiet_locks c \<Longrightarrow> L Event_lock \<Longrightarrow> locks s = L \<Longrightarrow> locks (lock_event (schedule c (unlock_event s))) = L"
  by (simp add: fun_upd_idem_iff)

lemma locks_getBlocked:
  assumes "quiet_locks c" "locks s = L" "\<not> L Event_lock"
  shows "keeps_locks L (snd \<circ> snd) (getBlockedFromFIFO c q s)"
    and "keeps_locks L (snd \<circ> snd) (getBlockedFromFIFOuser c q u k s)"
proof -
  let ?L = "L(Event_lock := True)"
  have w: "keeps_locks ?L snd (if emptyFIFO (fifo_of q (lock_event s)) then wait_fifo c q (lock_event s)
      else Some (0, lock_event s))"
    using assms(2) locks_nap [OF assms(1), of ?L] by (intro keeps wait_fifo_keeps) simp_all
  have v: "keeps_locks ?L snd (if emptyFIFO (fifo_of q (lock_event s)) then wait_fifo_timeout c q k (lock_event s)
      else Some (0, lock_event s))"
    using assms(2) locks_nap [OF assms(1), of ?L] by (intro keeps wait_fifo_timeout_keeps) simp_all
  have L: "?L(Event_lock := False) = L" using assms(3) by (simp add: fun_upd_idem_iff)
  show "keeps_locks L (snd \<circ> snd) (getBlockedFromFIFO c q s)"
    unfolding getBlockedFromFIFO_def Let_def
    by (intro keeps kept_case [OF w])
      (use assms(2) L in \<open>auto simp: kept_by_def split: if_splits prod.splits option.splits\<close>)
  show "keeps_locks L (snd \<circ> snd) (getBlockedFromFIFOuser c q u k s)"
    unfolding getBlockedFromFIFOuser_def Let_def
    by (intro keeps kept_case [OF v])
      (use assms(2) L in \<open>auto simp: kept_by_def split: if_splits prod.splits option.splits\<close>)
qed

lemma locks_get_CTIME:
  assumes "quiet_locks c" "locks s = L" "\<not> L Event_lock" "\<not> L Ctime_lock"
  shows "keeps_locks L (snd \<circ> snd) (libera_get_CTIME c t s)"
proof -
  let ?L = "L(Ctime_lock := True)"
  have g: "keeps_locks ?L (snd \<circ> snd) (getBlockedFromFIFO c q (writel v a (lock_CTIME True s)))" for q v a
    using assms by (intro locks_getBlocked) simp_all
  have L: "?L(Ctime_lock := False) = L" using assms(4) by (simp add: fun_upd_idem_iff)
  show ?thesis
    unfolding libera_get_CTIME_def Let_def
    by (intro keeps kept_case [OF g])
      (use assms(2) L locks_fifo_upd [of "SC_ts T_TRIG_CTIME"] in
        \<open>auto simp: kept_by_def simp del: fifo_upd.simps split: if_splits prod.splits option.splits\<close>)
qed

lemma locks_wait_lmt:
  assumes "quiet_locks c" "locks s = L" "\<not> L Event_lock" "\<not> L Ctime_lock"
  shows "keeps_locks L (snd \<circ> snd) (wait_lmt c t x s)" "keeps_locks L (snd \<circ> snd) (wait_lst c t x s)"
  unfolding wait_lmt_def wait_lst_def wait_clock_def Let_def
  by (intro keeps wait_clock_loop_keeps locks_get_CTIME; simp add: assms)+

lemma locks_dd_llseek:
  assumes "quiet_locks c" "locks s = L" "\<not> L Event_lock" "\<not> L Ctime_lock"
  shows "keeps_locks L (snd \<circ> snd) (libera_dd_llseek c l x w s)"
  unfolding libera_dd_llseek_def libera_dd_llseek_specific_def case_prod_unfold Let_def
  by (intro keeps kept_bind [OF locks_get_CTIME [OF assms]]) (simp_all add: assms)

text \<open>The transfer.\<close>

lemma locks_OB_sync [simp]: "quiet_locks c \<Longrightarrow> locks (snd (libera_OB_fifo_sync c s)) = locks s"
  unfolding libera_OB_fifo_sync_def by (rule OB_sync_keeps [where P = "\<lambda>x. locks x = locks s"]) simp_all

lemma locks_restart [simp]: "quiet_locks c \<Longrightarrow> locks (snd (restart_dma c s)) = locks s"
  unfolding restart_dma_def case_prod_unfold Let_def by (simp del: upd_upd fst_readl)

lemma locks_finish [simp]: "locks (snd (finish_transfer m OB s)) = locks s"
  unfolding finish_transfer_def case_prod_unfold Let_def by (simp del: fst_readl)

lemma locks_transfer:
  assumes "quiet_locks c" "locks s = L"
  shows "keeps_locks L (snd \<circ> snd) (libera_dd_transfer_OBfifo_DMA c tgt m s)"
proof -
  have body: "keeps_locks L body_state (transfer_body c tgt m ly OB out x)" if "locks x = L" for ly OB out x
  proof -
    have w: "keeps_locks L snd (if emptyDMA_FIFO (dma_of x) then wait_dma c x else Some (0, x))"
      using that assms(1) by (intro keeps wait_dma_keeps) simp_all
    show ?thesis
      unfolding transfer_body_def case_prod_unfold Let_def
      by (intro keeps kept_bind [OF w]) (simp_all add: assms(1))
  qed
  show ?thesis
    unfolding libera_dd_transfer_OBfifo_DMA_def case_prod_unfold Let_def
    by (intro keeps transfer_loop_keeps body) (simp_all add: assms del: upd_upd fst_readl)
qed


lemma locks_CBfifo [simp]: "locks (snd (libera_dd_write_CBfifo a n d s)) = locks s"
  by (simp add: libera_dd_write_CBfifo_def Let_def)

lemma locks_dd_out:
  assumes "locks s = L(Dd_lock := True)" "\<not> L Dd_lock"
  shows "keeps_locks L (snd \<circ> snd \<circ> snd) (dd_out r out l s)" "keeps_locks L (snd \<circ> snd \<circ> snd) (dd_out_zero r k out l s)"
  using assms by (simp_all add: dd_out_zero_def dd_out_def kept_by_def Let_def fun_upd_idem_iff)

lemma locks_dd_start:
  assumes "quiet_locks c" "locks s = L" "\<not> L Event_lock" "\<not> L Ctime_lock"
  shows "keeps_locks L (snd \<circ> snd) (dd_start c q t s)"
proof -
  note w = locks_wait_lmt [OF assms]
  have "keeps_locks L (snd \<circ> snd) (dd_start_st c q t s)" "keeps_locks L (snd \<circ> snd) (dd_start_mt c q t s)"
    "keeps_locks L (snd \<circ> snd) (dd_start_trigger c q t s)"
    unfolding dd_start_st_def dd_start_mt_def dd_start_trigger_def case_prod_unfold Let_def
    by (intro keeps kept_bind [OF w(1)] kept_bind [OF w(2)]; simp add: assms)+
  then show ?thesis by (simp add: dd_start_def split: dd_time_t.split)
qed

lemma locks_dd_read:
  assumes "quiet_locks c" "locks s = L" "\<not> L Event_lock" "\<not> L Ctime_lock" "\<not> L Dd_lock"
  shows "keeps_locks L (snd \<circ> snd \<circ> snd) (libera_dd_read c room count l s)"
proof -
  let ?L = "L(Dd_lock := True)"
  have e: "\<not> ?L Event_lock" "\<not> ?L Ctime_lock" using assms(3,4) by simp_all
  have fetch: "keeps_locks L (snd \<circ> snd \<circ> snd) (dd_fetch c room n l x)" if "locks x = ?L" for n l x
    unfolding dd_fetch_def case_prod_unfold Let_def
    by (intro keeps kept_bind [OF locks_getBlocked(1) [where L = "L(Dd_lock := True)", OF assms(1) _ e(1)]] kept_bind [OF locks_transfer [OF assms(1)]]
        locks_dd_out assms(5))
      (simp_all add: that)
  show ?thesis
    unfolding libera_dd_read_def libera_dd_read_specific_def case_prod_unfold Let_def
    by (intro keeps kept_bind [OF locks_get_CTIME [where L = "L(Dd_lock := True)", OF assms(1) _ e]] kept_bind [OF locks_dd_start [where L = "L(Dd_lock := True)", OF assms(1) _ e]]
        locks_dd_out assms(5) fetch)
      (simp_all add: assms(2))
qed

text \<open>Acquiring post-mortem data tries to take the mutex of the data-on-demand device.\<close>

lemma locks_pm_lock:
  assumes "quiet_locks c"
  shows "(fst (pm_lock_dd n c s) \<longrightarrow> \<not> locks s Dd_lock) \<and>
    locks (snd (pm_lock_dd n c s)) = (locks s)(Dd_lock := locks s Dd_lock \<or> fst (pm_lock_dd n c s))"
proof -
  define w where "w s = (if dma_waiter c s then wake_up_interruptible DMA_queue s else s)" for s
  define t where "t s = snd (libera_delay_jiffies_interruptible c DD_WAIT_STEP (w s))" for s
  have l: "locks (w s) = locks s" "locks (t s) = locks s" for s using assms by (simp_all add: w_def t_def)
  have step: "pm_lock_dd n c s = (if \<not> locks s Dd_lock then (True, lock_dd True (w s))
      else case n of 0 \<Rightarrow> (False, t s) | Suc n \<Rightarrow> pm_lock_dd n c (t s))" for n s
    by (subst pm_lock_dd.simps) (simp only: Let_def w_def [symmetric] t_def l locks_at(3) [of "w s", symmetric])
  show ?thesis
  proof (induction n arbitrary: s rule: nat.induct)
    case zero
    then show ?case by (subst (1 2 3) step) (simp add: l fun_upd_idem)
  next
    case (Suc n)
    from Suc [of "t s"] show ?case by (subst (1 2 3) step) (auto simp: l fun_upd_idem)
  qed
qed

lemma locks_acq_pm:
  assumes "quiet_locks c" "locks s = L" "\<not> L Event_lock" "\<not> L Ctime_lock"
  shows "keeps_locks L snd (libera_acq_pm c s)"
proof -
  let ?L = "L(Dd_lock := True)" and ?p = "pm_lock_dd 30 c (set_pm_entry True s)"
  have e: "\<not> ?L Event_lock" "\<not> ?L Ctime_lock" using assms(3,4) by simp_all
  have pm: "locks (x\<lparr>pm := (pm x)\<lparr>pm_buf := b\<rparr>\<rparr>) = locks x" "locks (pm_stamp ev x) = locks x" for x b ev
    by (simp_all add: pm_stamp_def locks_triv locks_at)
  have tr: "keeps_locks ?L snd (pm_transfer c x)" if "locks x = ?L" for x
    unfolding pm_transfer_def libera_dd_read_OBfifo_DMA_def case_prod_unfold Let_def
    by (intro keeps kept_bind [OF locks_transfer [OF assms(1) that]]) (simp_all add: pm)
  have ac: "keeps_locks ?L snd (pm_acquire c x)" if "locks x = ?L" for x
    unfolding pm_acquire_def case_prod_unfold Let_def
    by (intro keeps kept_bind [OF locks_get_CTIME [where L = "L(Dd_lock := True)", OF assms(1) _ e]] kept_bind [OF locks_wait_lmt(1) [where L = "L(Dd_lock := True)", OF assms(1) _ e]]
        kept_bind [OF locks_getBlocked(1) [where L = "L(Dd_lock := True)", OF assms(1) _ e(1)]] tr)
      (simp_all add: pm that)
  have p: "fst ?p \<longrightarrow> \<not> L Dd_lock" "locks (snd ?p) = L(Dd_lock := L Dd_lock \<or> fst ?p)"
    using locks_pm_lock [OF assms(1), of 30 "set_pm_entry True s"] assms(2) by simp_all
  show ?thesis
  proof (cases "fst ?p")
    case False
    then have "locks (snd ?p) = L" using p(2) by (simp add: fun_upd_idem_iff)
    then show ?thesis using False by (simp add: libera_acq_pm_def case_prod_unfold Let_def kept_by_def)
  next
    case True
    then have "locks (set_pm_entry False (snd ?p)) = ?L" "?L(Dd_lock := False) = L"
      using p by (simp_all add: fun_upd_idem_iff)
    then show ?thesis
      using True unfolding libera_acq_pm_def case_prod_unfold Let_def
      by (intro keeps kept_map [OF ac]) simp_all
  qed
qed

section \<open>The event device and the pipes\<close>

lemma locks_event_read:
  assumes "quiet_locks c" "locks s = L" "\<not> L Event_lock"
  shows "keeps_locks L (snd \<circ> snd) (libera_event_read c f count room s)"
proof -
  let ?L = "L(Event_lock := True)"
  have w: "keeps_locks ?L snd (if empty_eventFIFO (events (event (lock_event s))) then wait_event c (lock_event s)
      else Some (0, lock_event s))"
    using assms(2) locks_nap [OF assms(1), of ?L] by (intro keeps wait_event_keeps) simp_all
  have "?L(Event_lock := False) = L" using assms(3) by (simp add: fun_upd_idem_iff)
  then show ?thesis
    unfolding libera_event_read_def case_prod_unfold Let_def
    by (intro keeps kept_bind [OF w]) (simp_all add: assms(2) locks_upd_event)
qed

lemma locks_trig_enable [simp]: "locks (snd (libera_sctrig_enable k s)) = locks s" "locks (snd (libera_mctrig_enable k s)) = locks s"
  by (simp_all add: libera_sctrig_enable_def libera_mctrig_enable_def Let_def locks_event_upd)

lemma locks_flush_trig [simp]: "locks (flush_sc is s) = locks s" "locks (flush_mc is s) = locks s"
  unfolding flush_sc_def flush_mc_def by (rule fold_same [of locks], simp add: locks_upd_event)+

lemma locks_enable:
  assumes "locks s = L"
  shows "keeps_locks L (snd \<circ> snd) (event_enable_sc l arg s)" "keeps_locks L (snd \<circ> snd) (event_enable_mc l arg s)"
  unfolding event_enable_sc_def event_enable_mc_def Let_def
  by (intro keeps kept_map [where Q = "\<lambda>t. locks t = L" and st' = "\<lambda>_. s"]; simp add: assms kept_by_def)+

lemma locks_get_trigger:
  assumes "quiet_locks c" "locks s = L" "\<not> L Event_lock"
  shows "keeps_locks L (snd \<circ> snd) (event_get_trigger c tv X q k u s)"
  unfolding event_get_trigger_def
  by (intro keeps kept_map [OF locks_getBlocked(2) [OF assms]]) (simp_all add: assms(2) case_prod_unfold)

lemma locks_setters [simp]:
  "locks (snd (event_set_st u s)) = locks s" "locks (snd (event_set_mt u s)) = locks s"
  "locks (snd (event_set_mcpll u s)) = locks s" "locks (snd (event_set_scpll u s)) = locks s"
  by (simp_all add: event_set_st_def event_set_mt_def event_set_mcpll_def event_set_scpll_def arm_set_time_def
      case_prod_unfold Let_def locks_upd_event del: fst_readl)

lemma locks_event_cmd:
  assumes "quiet_locks c" "locks s = L" "\<not> L Event_lock" "\<not> L Ctime_lock"
  shows "keeps_locks L (snd \<circ> snd \<circ> snd) (libera_event_cmd c junk l f cmd arg u s)"
  unfolding event_cmd_defs case_prod_unfold Let_def
  by (intro keeps kept_map [OF locks_enable(1) [OF assms(2)]] kept_map [OF locks_enable(2) [OF assms(2)]]
      kept_bind [OF locks_get_trigger [OF assms(1-3)]] kept_bind [OF locks_get_CTIME [OF assms]]
      kept_bind [OF locks_acq_pm [OF assms]])
    (simp_all add: assms(2) locks_upd_event)

lemma locks_event_ioctl:
  assumes "quiet_locks c" "locks s = L" "\<not> L Event_lock" "\<not> L Ctime_lock"
  shows "keeps_locks L (snd \<circ> snd \<circ> snd) (libera_event_ioctl c junk l f cmd arg u s)"
  unfolding libera_event_ioctl_def by (intro keeps locks_event_cmd assms) (simp_all add: assms(2))

lemma locks_sa_read:
  assumes "quiet_locks c" "locks s = L" "\<not> L (Pipe_lock a)"
  shows "keeps_locks L (snd \<circ> snd) (libera_sa_read c f a count room pos s)"
proof -
  let ?s = "lock_pipe a True s" and ?L = "L(Pipe_lock a := True)"
  have w: "keeps_locks ?L snd (if empty_saFIFO (sl_pipe (pipe_at a ?s)) then wait_pipe c a ?s else Some (0, ?s))"
    using assms(1,2) by (intro keeps wait_pipe_keeps) (simp_all add: fun_upd_idem_iff)
  have q: "locks (set_pipe a ((pipe_at a x)\<lparr>sl_pipe := p\<rparr>) x) = locks x" for x p
    by (simp add: locks_triv locks_at)
  have "?L(Pipe_lock a := False) = L" using assms(3) by (simp add: fun_upd_idem_iff)
  then show ?thesis
    unfolding libera_sa_read_def case_prod_unfold Let_def
    by (intro keeps kept_case [OF w]) (simp_all add: assms(2) q)
qed


section \<open>Every entry gives back what it takes\<close>

text \<open>The mutexes an entry waits for, in the order it takes them.\<close>

fun takes :: "entry \<Rightarrow> lock list" where
  "takes (Open_dev mem minor f) = (case dev_lock minor of None \<Rightarrow> [] | Some l \<Rightarrow> [l])"
| "takes (Dd_llseek c l x w) = [Ctime_lock, Event_lock]"
| "takes (Dd_read c room count l) = [Dd_lock, Ctime_lock, Event_lock]"
| "takes (Dd_ioctl c l cmd u) = [Dd_lock]"
| "takes (Fa_read c f count left) = [Fa_lock]"
| "takes (Fa_write c f count left ws) = [Fa_lock]"
| "takes (Pm_read c count left) = [Pm_lock]"
| "takes (Pm_ioctl c f cmd u) = [Pm_lock]"
| "takes (Sa_read c f a count room pos) = [Pipe_lock a]"
| "takes (Sa_release a) = [Sa_lock, Pipe_lock a]"
| "takes (Event_read c f count room) = [Event_lock]"
| "takes (Event_ioctl c junk l f cmd arg u) = [Ctime_lock, Event_lock]"
| "takes (Adc_read c count room) = [Adc_lock]"
| "takes (Dsc_read c f count left) = [Dsc_lock]"
| "takes (Dsc_write c f count left ws) = [Dsc_lock]"
| "takes _ = []"

text \<open>A read of the converters whose copy to user memory fails.\<close>

fun adc_faults :: "entry \<Rightarrow> bool" where
  "adc_faults (Adc_read c count room) = (room < unat (count div 8))"
| "adc_faults _ = False"

definition can_take :: "entry \<Rightarrow> libera \<Rightarrow> bool" where
  "can_take e s \<longleftrightarrow> list_all (\<lambda>l. \<not> locks s l) (takes e) \<and> \<not> adc_faults e"

lemma entry_locks:
  assumes "can_take e s" "entry_ok e s" "\<And>c. sleeps_in e = Some c \<Longrightarrow> quiet_locks c" "do_entry e s = Some t"
  shows "locks t = locks s"
proof (cases e)
  case (Interrupt irq)
  then show ?thesis using assms(4) locks_interrupt by auto
next
  case (Open_dev mem minor f)
  then show ?thesis
    using assms(1,2,4) locks_open [of minor s mem f] by (auto simp: can_take_def split: option.split_asm)
next
  case (Dd_llseek c l x w)
  then show ?thesis using assms(1,3,4) keptD [OF locks_dd_llseek [OF _ refl, of c s l x w]] by (auto simp: can_take_def)
next
  case (Dd_read c room count l)
  then show ?thesis using assms(1,3,4) keptD [OF locks_dd_read [OF _ refl, of c s room count l]] by (auto simp: can_take_def)
next
  case (Sa_read c f a count room pos)
  then show ?thesis using assms(1,3,4) keptD [OF locks_sa_read [OF _ refl, of c s a f count room pos]] by (auto simp: can_take_def)
next
  case (Event_read c f count room)
  then show ?thesis using assms(1,3,4) keptD [OF locks_event_read [OF _ refl, of c s f count room]] by (auto simp: can_take_def)
next
  case (Event_ioctl c junk l f cmd arg u)
  then show ?thesis
    using assms(1,3,4) keptD [OF locks_event_ioctl [OF _ refl, of c s junk l f cmd arg u]] by (auto simp: can_take_def)
qed (use assms(1,4) in \<open>auto simp: can_take_def locks_blk locks_pm_calls locks_sa_release locks_adc_read locks_tasklet
    simp del: fst_readl\<close>)

lemma driver_step_locks:
  assumes "driver_step can_take s t"
  shows "locks t = locks s"
  using assms
proof (induction rule: driver_step.induct)
  case (step e s t)
  have "quiet_locks c" if "sleeps_in e = Some c" for c
    unfolding quiet_locks_def
  proof
    fix x
    show "locks (wake c x) = locks x"
      using step.IH that
        steps_keep [of "\<lambda>x y. driver_step can_take x y \<and> locks y = locks x" x "wake c x" "\<lambda>y. locks y = locks x"]
      by simp
  qed
  then show ?case using entry_locks step.hyps by blast
qed

text \<open>Loading leaves every mutex free.\<close>

lemma locks_load:
  assumes "libera_init env s held = Some (0, t, h)" "sa_heap (sa s) = Map.empty"
  shows "\<not> locks t l"
proof -
  obtain pages buf where t: "t = loaded env pages buf s" using load_loaded [OF assms(1)] by blast
  have "locks (snd (libera_init_specific x)) = locks x" for x
  proof -
    have "locks (x\<lparr>adc := (adc x)\<lparr>adc_op := a\<rparr>\<rparr>) = locks x" for x a by (simp add: locks_triv locks_at)
    moreover have "locks (set_param_from i r x) = locks x" for i r x
      by (simp add: set_param_from_def case_prod_unfold Let_def del: fst_readl)
    ultimately show ?thesis
      unfolding libera_init_specific_def Let_def
      by (simp only: locks_trig_enable fold_same [of locks, OF locks_cfg_set] locks_params locks_frame)
  qed
  moreover have "locks (start_interrupts x) = locks x" for x by (simp add: start_interrupts_def Let_def)
  moreover have "locks (probe_fpga x) = locks x" for x
    by (simp add: probe_fpga_def case_prod_unfold Let_def del: fst_readl)
  moreover have "locks (x\<lparr>pm := (pm x)\<lparr>pm_buf := b\<rparr>\<rparr>) = locks x" for x b by (simp add: locks_triv locks_at)
  ultimately have "locks t = locks (libera_init_devs s)" by (simp add: t loaded_def Let_def)
  moreover have "ev_com (fold flush_stamps xs e) = ev_com e" "CTIME_sem (fold flush_stamps xs e) = CTIME_sem e" for xs e
    by (induction xs arbitrary: e) (simp_all add: flush_stamps_def)
  then have "\<not> locks (libera_init_devs s) l"
    using assms(2) by (cases l) (simp_all add: libera_init_devs_def Let_def locks_at pipe_at_def zero_common_def zero_event_dev_def)
  ultimately show ?thesis by simp
qed



end
