(* ===== verification/Boot_Env.thy ===== *)
theory Boot_Env
  imports Prelude
begin

text \<open>
  The tools of \<^verbatim>\<open>u-boot/tools\<close> that write and read the environment block of the boot loader: the
  checksum (\<^verbatim>\<open>crc32lib.c\<close>), building a block from lines (\<^verbatim>\<open>makeenv.c\<close>), reading it
  (\<^verbatim>\<open>readenv.c\<close>), padding (\<^verbatim>\<open>padff.c\<close>) and comparing images (\<^verbatim>\<open>bindiff.c\<close>). They run on the
  ARM target: \<^verbatim>\<open>unsigned long\<close> has 32 bits and \<^verbatim>\<open>char\<close> is unsigned.
\<close>

section \<open>The checksum\<close>

text \<open>The table, as it is generated and as it is compiled in.\<close>

definition crc_terms :: "nat list" where
  "crc_terms = [0, 1, 2, 4, 5, 7, 8, 10, 11, 12, 16, 22, 23, 26]"

definition crc_poly :: u32 where
  "crc_poly = fold (\<lambda>p poly. poly OR push_bit (31 - p) 1) crc_terms 0"

definition crc_step :: "u32 \<Rightarrow> u32" where
  "crc_step c = (if c AND 1 \<noteq> 0 then crc_poly XOR drop_bit 1 c else drop_bit 1 c)"

definition make_crc_table :: "u32 list" where
  "make_crc_table = map (\<lambda>n. (crc_step ^^ 8) (of_nat n)) [0..<256]"

definition crc_table :: "u32 list" where
  "crc_table =
   [
    0x00000000, 0x77073096, 0xee0e612c, 0x990951ba, 0x076dc419, 0x706af48f, 0xe963a535, 0x9e6495a3,
    0x0edb8832, 0x79dcb8a4, 0xe0d5e91e, 0x97d2d988, 0x09b64c2b, 0x7eb17cbd, 0xe7b82d07, 0x90bf1d91,
    0x1db71064, 0x6ab020f2, 0xf3b97148, 0x84be41de, 0x1adad47d, 0x6ddde4eb, 0xf4d4b551, 0x83d385c7,
    0x136c9856, 0x646ba8c0, 0xfd62f97a, 0x8a65c9ec, 0x14015c4f, 0x63066cd9, 0xfa0f3d63, 0x8d080df5,
    0x3b6e20c8, 0x4c69105e, 0xd56041e4, 0xa2677172, 0x3c03e4d1, 0x4b04d447, 0xd20d85fd, 0xa50ab56b,
    0x35b5a8fa, 0x42b2986c, 0xdbbbc9d6, 0xacbcf940, 0x32d86ce3, 0x45df5c75, 0xdcd60dcf, 0xabd13d59,
    0x26d930ac, 0x51de003a, 0xc8d75180, 0xbfd06116, 0x21b4f4b5, 0x56b3c423, 0xcfba9599, 0xb8bda50f,
    0x2802b89e, 0x5f058808, 0xc60cd9b2, 0xb10be924, 0x2f6f7c87, 0x58684c11, 0xc1611dab, 0xb6662d3d,
    0x76dc4190, 0x01db7106, 0x98d220bc, 0xefd5102a, 0x71b18589, 0x06b6b51f, 0x9fbfe4a5, 0xe8b8d433,
    0x7807c9a2, 0x0f00f934, 0x9609a88e, 0xe10e9818, 0x7f6a0dbb, 0x086d3d2d, 0x91646c97, 0xe6635c01,
    0x6b6b51f4, 0x1c6c6162, 0x856530d8, 0xf262004e, 0x6c0695ed, 0x1b01a57b, 0x8208f4c1, 0xf50fc457,
    0x65b0d9c6, 0x12b7e950, 0x8bbeb8ea, 0xfcb9887c, 0x62dd1ddf, 0x15da2d49, 0x8cd37cf3, 0xfbd44c65,
    0x4db26158, 0x3ab551ce, 0xa3bc0074, 0xd4bb30e2, 0x4adfa541, 0x3dd895d7, 0xa4d1c46d, 0xd3d6f4fb,
    0x4369e96a, 0x346ed9fc, 0xad678846, 0xda60b8d0, 0x44042d73, 0x33031de5, 0xaa0a4c5f, 0xdd0d7cc9,
    0x5005713c, 0x270241aa, 0xbe0b1010, 0xc90c2086, 0x5768b525, 0x206f85b3, 0xb966d409, 0xce61e49f,
    0x5edef90e, 0x29d9c998, 0xb0d09822, 0xc7d7a8b4, 0x59b33d17, 0x2eb40d81, 0xb7bd5c3b, 0xc0ba6cad,
    0xedb88320, 0x9abfb3b6, 0x03b6e20c, 0x74b1d29a, 0xead54739, 0x9dd277af, 0x04db2615, 0x73dc1683,
    0xe3630b12, 0x94643b84, 0x0d6d6a3e, 0x7a6a5aa8, 0xe40ecf0b, 0x9309ff9d, 0x0a00ae27, 0x7d079eb1,
    0xf00f9344, 0x8708a3d2, 0x1e01f268, 0x6906c2fe, 0xf762575d, 0x806567cb, 0x196c3671, 0x6e6b06e7,
    0xfed41b76, 0x89d32be0, 0x10da7a5a, 0x67dd4acc, 0xf9b9df6f, 0x8ebeeff9, 0x17b7be43, 0x60b08ed5,
    0xd6d6a3e8, 0xa1d1937e, 0x38d8c2c4, 0x4fdff252, 0xd1bb67f1, 0xa6bc5767, 0x3fb506dd, 0x48b2364b,
    0xd80d2bda, 0xaf0a1b4c, 0x36034af6, 0x41047a60, 0xdf60efc3, 0xa867df55, 0x316e8eef, 0x4669be79,
    0xcb61b38c, 0xbc66831a, 0x256fd2a0, 0x5268e236, 0xcc0c7795, 0xbb0b4703, 0x220216b9, 0x5505262f,
    0xc5ba3bbe, 0xb2bd0b28, 0x2bb45a92, 0x5cb36a04, 0xc2d7ffa7, 0xb5d0cf31, 0x2cd99e8b, 0x5bdeae1d,
    0x9b64c2b0, 0xec63f226, 0x756aa39c, 0x026d930a, 0x9c0906a9, 0xeb0e363f, 0x72076785, 0x05005713,
    0x95bf4a82, 0xe2b87a14, 0x7bb12bae, 0x0cb61b38, 0x92d28e9b, 0xe5d5be0d, 0x7cdcefb7, 0x0bdbdf21,
    0x86d3d2d4, 0xf1d4e242, 0x68ddb3f8, 0x1fda836e, 0x81be16cd, 0xf6b9265b, 0x6fb077e1, 0x18b74777,
    0x88085ae6, 0xff0f6a70, 0x66063bca, 0x11010b5c, 0x8f659eff, 0xf862ae69, 0x616bffd3, 0x166ccf45,
    0xa00ae278, 0xd70dd2ee, 0x4e048354, 0x3903b3c2, 0xa7672661, 0xd06016f7, 0x4969474d, 0x3e6e77db,
    0xaed16a4a, 0xd9d65adc, 0x40df0b66, 0x37d83bf0, 0xa9bcae53, 0xdebb9ec5, 0x47b2cf7f, 0x30b5ffe9,
    0xbdbdf21c, 0xcabac28a, 0x53b39330, 0x24b4a3a6, 0xbad03605, 0xcdd70693, 0x54de5729, 0x23d967bf,
    0xb3667a2e, 0xc4614ab8, 0x5d681b02, 0x2a6f2b94, 0xb40bbe37, 0xc30c8ea1, 0x5a05df1b, 0x2d02ef8d
   ]"

definition DO1 :: "u32 \<Rightarrow> u8 \<Rightarrow> u32" where
  "DO1 crc b = crc_table ! unat ((crc XOR ucast b) AND 0xFF) XOR drop_bit 8 crc"

definition DO2 :: "u32 \<Rightarrow> u8 \<Rightarrow> u8 \<Rightarrow> u32" where
  "DO2 crc a b = DO1 (DO1 crc a) b"

definition DO4 :: "u32 \<Rightarrow> u8 \<Rightarrow> u8 \<Rightarrow> u8 \<Rightarrow> u8 \<Rightarrow> u32" where
  "DO4 crc a b c d = DO2 (DO2 crc a b) c d"

definition DO8 :: "u32 \<Rightarrow> u8 \<Rightarrow> u8 \<Rightarrow> u8 \<Rightarrow> u8 \<Rightarrow> u8 \<Rightarrow> u8 \<Rightarrow> u8 \<Rightarrow> u8 \<Rightarrow> u32" where
  "DO8 crc a b c d e f g h = DO4 (DO4 crc a b c d) e f g h"

text \<open>The loop over blocks of eight bytes, then the loop over the rest.\<close>

fun crc_tail :: "u32 \<Rightarrow> u8 list \<Rightarrow> u32" where
  "crc_tail crc [] = crc"
| "crc_tail crc (b # bs) = crc_tail (DO1 crc b) bs"

fun crc_loop :: "u32 \<Rightarrow> u8 list \<Rightarrow> u32" where
  "crc_loop crc (a # b # c # d # e # f # g # h # bs) = crc_loop (DO8 crc a b c d e f g h) bs"
| "crc_loop crc bs = crc_tail crc bs"

definition crc32 :: "u32 \<Rightarrow> u8 list \<Rightarrow> u32" where
  "crc32 crc buf = crc_loop (crc XOR 0xFFFFFFFF) buf XOR 0xFFFFFFFF"

section \<open>The checksum is the polynomial remainder\<close>

lemma crc_poly: "crc_poly = 0xEDB88320"
  by (simp add: crc_poly_def crc_terms_def push_bit_eq_mult)

lemma crc_step_code: "crc_step c = (if odd c then 0xEDB88320 XOR (c div 2) else c div 2)"
  by (simp add: crc_step_def crc_poly drop_bit_eq_div and_one_eq odd_iff_mod_2_eq_one)

lemma crc_step_num:
  "crc_step (numeral n) = (if odd (numeral n :: u32) then 0xEDB88320 XOR (numeral n div 2) else numeral n div 2)"
  "crc_step 1 = 0xEDB88320" "crc_step 0 = 0"
  by (simp_all add: crc_step_code)

lemma funpow_8: "(f ^^ 8) x = f (f (f (f (f (f (f (f x)))))))"
  by (simp add: eval_nat_numeral)

lemma crc_step_bit: "crc_step c = (if bit c 0 then crc_poly XOR drop_bit 1 c else drop_bit 1 c)"
  by (simp add: crc_step_def and_one_eq bit_0 odd_iff_mod_2_eq_one)

lemma crc_step_xor: "crc_step (a XOR b) = crc_step a XOR crc_step b"
proof -
  have d: "drop_bit 1 (a XOR b) = drop_bit 1 a XOR drop_bit 1 b" by (simp add: drop_bit_xor)
  have s: "x XOR (x XOR y) = y" for x y :: u32 by (simp flip: xor.assoc)
  show ?thesis
    unfolding crc_step_bit d bit_xor_iff by (cases "bit a 0"; cases "bit b 0") (simp_all add: ac_simps s)
qed

lemma crc_steps_xor: "(crc_step ^^ n) (a XOR b) = (crc_step ^^ n) a XOR (crc_step ^^ n) b"
  by (induction n arbitrary: a b) (simp_all add: funpow_Suc_right crc_step_xor del: funpow.simps)

text \<open>The table doubles: the entry of \<open>2 ^ k + n\<close> is that of \<open>2 ^ k\<close> added to that of \<open>n\<close>.\<close>

definition crc_entries :: "nat \<Rightarrow> u32 list" where
  "crc_entries k = map (\<lambda>n. (crc_step ^^ 8) (of_nat n)) [0..<2 ^ k]"

definition doubled :: "u32 \<Rightarrow> u32 list \<Rightarrow> u32 list" where
  "doubled t xs = xs @ map (\<lambda>x. t XOR x) xs"

lemma crc_entries_Suc:
  assumes "k < 32"
  shows "crc_entries (Suc k) = doubled ((crc_step ^^ 8) (2 ^ k)) (crc_entries k)"
proof -
  have x: "(of_nat (2 ^ k + n) :: u32) = 2 ^ k XOR of_nat n" if "n < 2 ^ k" for n
  proof -
    have "2 ^ k AND (of_nat n :: u32) = 0"
    proof (rule bit_word_eqI)
      fix i assume "i < LENGTH(32)"
      have "\<not> bit n k" using that by (simp add: bit_iff_odd)
      then have "\<not> bit (of_nat n :: u32) k" by (simp only: bit_of_nat_iff simp_thms)
      then show "bit (2 ^ k AND (of_nat n :: u32)) i = bit (0 :: u32) i"
        by (cases "i = k") (simp_all add: bit_and_iff bit_exp_iff)
    qed
    from disjunctive_xor_eq_or [OF this] disjunctive_add_eq_or [OF this] show ?thesis by simp
  qed
  have u: "[0..<2 ^ Suc k] = [0..<2 ^ k] @ map ((+) (2 ^ k)) [0..<2 ^ k]"
    using upt_add_eq_append [of 0 "2 ^ k" "2 ^ k"] map_add_upt [of "2 ^ k" "2 ^ k"]
    by (simp add: mult_2 add.commute cong: map_cong)
  have "map (\<lambda>n. (crc_step ^^ 8) (of_nat (2 ^ k + n))) [0..<2 ^ k] =
      map (\<lambda>n. (crc_step ^^ 8) (2 ^ k) XOR (crc_step ^^ 8) (of_nat n)) [0..<2 ^ k]"
    by (rule map_cong [OF refl]) (simp only: x set_upt atLeastLessThan_iff crc_steps_xor)
  then show ?thesis
    unfolding crc_entries_def doubled_def u map_append map_map o_def by (simp only:)
qed

lemma crc_table_generated: "crc_table = make_crc_table"
proof -
  have "make_crc_table = crc_entries (Suc 7)"
    by (simp add: make_crc_table_def crc_entries_def)
  also have "\<dots> = doubled ((crc_step ^^ 8) 128) (doubled ((crc_step ^^ 8) 64) (doubled ((crc_step ^^ 8) 32)
      (doubled ((crc_step ^^ 8) 16) (doubled ((crc_step ^^ 8) 8) (doubled ((crc_step ^^ 8) 4)
      (doubled ((crc_step ^^ 8) 2) (doubled ((crc_step ^^ 8) 1) [0])))))))"
  proof -
    have e: "crc_entries (k + 1) = doubled ((crc_step ^^ 8) (2 ^ k)) (crc_entries k)" if "k < 32" for k
      using crc_entries_Suc [OF that] by simp
    have "crc_entries 0 = [0]" by (simp add: crc_entries_def funpow_8 crc_step_num)
    then show ?thesis
      using e [of 0] e [of 1, unfolded one_add_one] e [of 2] e [of 3] e [of 4] e [of 5] e [of 6] e [of 7] by simp
  qed
  also have "\<dots> = crc_table"
    by (simp add: crc_table_def doubled_def funpow_8 crc_step_num)
  finally show ?thesis by (rule sym)
qed

lemma odd_xor: "odd (a XOR b :: u32) \<longleftrightarrow> odd a \<noteq> odd b"
  by (simp add: bit_0 [symmetric] bit_xor_iff)

text \<open>A register whose low bits are 0 is only shifted.\<close>

lemma crc_steps_high: "\<forall>i<n. \<not> bit c i \<Longrightarrow> (crc_step ^^ n) c = drop_bit n c"
proof (induction n arbitrary: c)
  case 0
  then show ?case by simp
next
  case (Suc n)
  have "crc_step c = drop_bit 1 c" using Suc.prems by (simp add: crc_step_bit)
  moreover have "\<forall>i<n. \<not> bit (drop_bit 1 c) i" using Suc.prems by (simp add: bit_drop_bit_eq)
  ultimately show ?case
    using Suc.IH [of "drop_bit 1 c"] by (simp add: funpow_Suc_right drop_bit_drop_bit del: funpow.simps)
qed

text \<open>The table look-up is eight steps of the shift register.\<close>

lemma DO1_steps: "DO1 crc b = (crc_step ^^ 8) (crc XOR ucast b)"
proof -
  let ?c = "crc XOR ucast b" let ?lo = "?c AND 0xFF" let ?hi = "push_bit 8 (drop_bit 8 ?c)"
  have m: "(0xFF :: u32) = mask 8" by (simp add: mask_eq_exp_minus_1)
  have split: "?c = ?hi XOR ?lo"
    by (rule bit_word_eqI) (auto simp: m bit_simps)
  have hi: "drop_bit 8 ?hi = drop_bit 8 crc"
    by (rule bit_word_eqI) (auto simp: bit_simps dest: bit_imp_le_length)
  have lo: "unat ?lo < 256" by (simp add: m unat_and_mask)
  have "(crc_step ^^ 8) ?hi = drop_bit 8 ?hi" by (rule crc_steps_high) (simp add: bit_simps)
  moreover have "crc_table ! unat ?lo = (crc_step ^^ 8) ?lo"
    using lo by (simp add: crc_table_generated make_crc_table_def)
  moreover have "(crc_step ^^ 8) ?c = (crc_step ^^ 8) ?hi XOR (crc_step ^^ 8) ?lo"
    by (rule trans [OF arg_cong [OF split, of "crc_step ^^ 8"] crc_steps_xor])
  ultimately show ?thesis by (simp only: DO1_def hi xor.commute)
qed

text \<open>The loop unrolled eight times handles the bytes one after the other.\<close>

lemma crc_tail_foldl: "crc_tail crc bs = foldl DO1 crc bs"
  by (induction bs arbitrary: crc) simp_all

lemma crc_loop_foldl: "crc_loop crc bs = foldl DO1 crc bs"
  by (induction crc bs rule: crc_loop.induct) (simp_all add: crc_tail_foldl DO8_def DO4_def DO2_def)

text \<open>
  The reference: the message as a stream of bits, least significant first, goes through the register
  one bit at a time.
\<close>

definition bits_of :: "u8 \<Rightarrow> bool list" where
  "bits_of b = map (bit b) [0..<8]"

definition crc_shift :: "u32 \<Rightarrow> bool \<Rightarrow> u32" where
  "crc_shift r b = crc_step (r XOR (if b then 1 else 0))"

definition crc_spec :: "u32 \<Rightarrow> u8 list \<Rightarrow> u32" where
  "crc_spec crc buf = NOT (foldl crc_shift (NOT crc) (concat (map bits_of buf)))"

definition word_bits :: "bool list \<Rightarrow> u32" where
  "word_bits bs = horner_sum of_bool 2 bs"

lemma bit_word_bits: "bit (word_bits bs) n \<longleftrightarrow> n < 32 \<and> n < length bs \<and> bs ! n"
  by (simp add: word_bits_def bit_horner_sum_bit_word_iff)

lemma word_bits_Cons: "word_bits (b # bs) = (if b then 1 else 0) XOR push_bit 1 (word_bits bs)"
proof (rule bit_word_eqI)
  fix n assume "n < LENGTH(32)"
  then show "bit (word_bits (b # bs)) n = bit ((if b then 1 else 0) XOR push_bit 1 (word_bits bs)) n"
    unfolding bit_xor_iff bit_push_bit_iff bit_word_bits by (cases n) (auto simp: bit_1_iff)
qed

lemma crc_shift_word: "length bs \<le> 31 \<Longrightarrow> foldl crc_shift r bs = (crc_step ^^ length bs) (r XOR word_bits bs)"
proof (induction bs arbitrary: r)
  case Nil
  then show ?case by (simp add: word_bits_def)
next
  case (Cons b bs)
  have s: "crc_step (push_bit 1 (word_bits bs)) = word_bits bs"
  proof -
    have "crc_step (push_bit 1 (word_bits bs)) = drop_bit 1 (push_bit 1 (word_bits bs))"
      unfolding crc_step_bit bit_push_bit_iff by simp
    also have "\<dots> = word_bits bs"
    proof (rule bit_word_eqI)
      fix n assume "n < LENGTH(32)"
      then show "bit (drop_bit 1 (push_bit 1 (word_bits bs))) n = bit (word_bits bs) n"
        using Cons.prems unfolding bit_drop_bit_eq o_def bit_push_bit_iff bit_word_bits by auto
    qed
    finally show ?thesis .
  qed
  have "(crc_step ^^ length (b # bs)) (r XOR word_bits (b # bs)) =
      (crc_step ^^ length bs) (crc_step ((r XOR (if b then 1 else 0)) XOR push_bit 1 (word_bits bs)))"
    by (simp add: funpow_Suc_right word_bits_Cons xor.assoc del: funpow.simps)
  also have "\<dots> = (crc_step ^^ length bs) (crc_shift r b XOR word_bits bs)"
    by (simp only: crc_step_xor [of _ "push_bit 1 (word_bits bs)"] s crc_shift_def)
  finally show ?case using Cons by simp
qed

lemma word_bits_of: "word_bits (bits_of b) = ucast b"
proof (rule bit_word_eqI)
  fix n
  show "bit (word_bits (bits_of b)) n = bit (ucast b :: u32) n"
    using bit_imp_le_length [of b n] by (cases "n < 8") (auto simp: bit_word_bits bits_of_def bit_ucast_iff)
qed

lemma DO1_shift: "DO1 crc b = foldl crc_shift crc (bits_of b)"
  using crc_shift_word [of "bits_of b" crc] by (simp add: DO1_steps word_bits_of) (simp add: bits_of_def)

text \<open>
  C37: the checksum by table, eight bytes at a time, is the checksum of the bits of the buffer, one at
  a time through the shift register of the polynomial; the table compiled in is the one the generator
  makes; and the checksum of a buffer can be computed in pieces.
\<close>

theorem crc32_bitwise:
  "crc32 crc buf = crc_spec crc buf \<and> crc_table = make_crc_table \<and>
   crc32 crc (xs @ ys) = crc32 (crc32 crc xs) ys"
proof -
  have n: "x XOR 0xFFFFFFFF = NOT x" for x :: u32
  proof -
    have e: "(0xFFFFFFFF :: u32) = - 1" by simp
    show ?thesis unfolding e by (rule bit_word_eqI) (auto simp: bit_simps)
  qed
  have "foldl DO1 r buf = foldl crc_shift r (concat (map bits_of buf))" for r
    by (induction buf arbitrary: r) (simp_all add: DO1_shift)
  then show ?thesis by (simp add: crc32_def n crc_spec_def crc_loop_foldl crc_table_generated)
qed

section \<open>Building an environment block\<close>

text \<open>
  A failure of \<^verbatim>\<open>makeenv\<close>: \<^verbatim>\<open>Fail\<close> with its reason, or an access outside the buffers (\<open>Outside\<close>),
  where the C program has no defined behaviour.
\<close>

datatype env_failure = Too_long | No_equals | No_room | No_fit | Write_error | Outside

definition MAX_LINE :: nat where "MAX_LINE = 1024"
definition newline :: u8 where "newline = 10"
definition equals :: u8 where "equals = 61"

text \<open>\<^verbatim>\<open>fgets\<close> with room for \<open>n + 1\<close> characters: at most \<open>n\<close>, up to and with the next newline.\<close>

fun fgets :: "nat \<Rightarrow> u8 list \<Rightarrow> u8 list \<times> u8 list" where
  "fgets 0 inp = ([], inp)"
| "fgets n [] = ([], [])"
| "fgets (Suc n) (c # inp) =
     (if c = newline then ([c], inp) else let (l, rest) = fgets n inp in (c # l, rest))"

text \<open>Storing at a place of the block, as long as it is inside.\<close>

definition poke :: "nat \<Rightarrow> u8 list \<Rightarrow> u8 list \<Rightarrow> u8 list option" where
  "poke p xs block =
     (if p + length xs \<le> length block then Some (take p block @ xs @ drop (p + length xs) block) else None)"

text \<open>
  The line as a C string, and the \<open>length\<close> bytes of it that are stored: its characters and a 0, which
  replaces the newline if there is one.
\<close>

definition c_string :: "u8 list \<Rightarrow> u8 list" where
  "c_string line = takeWhile (\<lambda>c. c \<noteq> 0) line"

definition line_string :: "u8 list \<Rightarrow> env_failure + u8 list" where
  "line_string line =
     (let s = c_string line; len = length s in
      if len = 0 then Inl Outside
      else if s ! (len - 1) = newline then Inr (butlast s)
      else if len = MAX_LINE - 1 then Inl Too_long
      else Inr s)"

function LoadBlock :: "nat \<Rightarrow> int \<Rightarrow> u8 list \<Rightarrow> u8 list \<Rightarrow> env_failure + u8 list" where
  "LoadBlock EnvPtr FreeSpace block inp =
     (if inp = [] then (case poke EnvPtr [0] block of None \<Rightarrow> Inl Outside | Some block \<Rightarrow> Inr block)
      else
        let (line, inp') = fgets (MAX_LINE - 1) inp in
        case line_string line of
          Inl e \<Rightarrow> Inl e
        | Inr s \<Rightarrow>
            let len = length s + 1 in
            if equals \<notin> set s then Inl No_equals
            else if FreeSpace < int len + 1 then Inl No_room
            else case poke EnvPtr (s @ [0]) block of
                   None \<Rightarrow> Inl Outside
                 | Some block \<Rightarrow> LoadBlock (EnvPtr + len) FreeSpace block inp')"
  by pat_completeness auto

lemma fgets_shrinks: "n > 0 \<Longrightarrow> inp \<noteq> [] \<Longrightarrow> length (snd (fgets n inp)) < length inp"
proof -
  have le: "length (snd (fgets m i)) \<le> length i" for m i
    by (induction m i rule: fgets.induct) (auto simp: case_prod_unfold Let_def)
  show "n > 0 \<Longrightarrow> inp \<noteq> [] \<Longrightarrow> length (snd (fgets n inp)) < length inp"
    using le by (cases "(n, inp)" rule: fgets.cases) (auto simp: case_prod_unfold Let_def less_Suc_eq_le)
qed

termination LoadBlock
proof (relation "measure (\<lambda>(_, _, _, inp). length inp)")
  fix EnvPtr :: nat and FreeSpace :: int and block inp x line inp' s x2 block' l
  assume "inp \<noteq> []" "x = fgets (MAX_LINE - 1) inp" "(line, inp') = x"
  then have "length inp' < length inp"
    using fgets_shrinks [of "MAX_LINE - 1" inp] by (auto simp: MAX_LINE_def dest: arg_cong [where f = snd])
  then show "((EnvPtr + l, FreeSpace, block', inp'), EnvPtr, FreeSpace, block, inp)
      \<in> measure (\<lambda>(_, _, _, inp). length inp)" by simp
qed simp

declare LoadBlock.simps [simp del]

text \<open>The first word of the block, as the ARM stores it.\<close>

definition le_bytes :: "u32 \<Rightarrow> u8 list" where
  "le_bytes w = [ucast w, ucast (drop_bit 8 w), ucast (drop_bit 16 w), ucast (drop_bit 24 w)]"

text \<open>
  \<open>wr k n\<close> is what the \<open>k\<close>-th call of \<^verbatim>\<open>write\<close> returns for \<open>n\<close> bytes. The loop need not end if it
  returns 0 for ever.
\<close>

partial_function (option) WriteBlock ::
  "(nat \<Rightarrow> nat \<Rightarrow> int) \<Rightarrow> nat \<Rightarrow> u8 list \<Rightarrow> u8 list \<Rightarrow> (env_failure + u8 list) option"
where
  "WriteBlock wr k block out =
     (if block = [] then Some (Inr out)
      else
        let written = wr k (length block) in
        if written = -1 then Some (Inl Write_error)
        else WriteBlock wr (k + 1) (drop (nat written) block) (out @ take (nat written) block))"

text \<open>The sizes are the arguments, read by \<^verbatim>\<open>strtol\<close>; an environment below four bytes is outside the model.\<close>

definition makeenv :: "(nat \<Rightarrow> nat \<Rightarrow> int) \<Rightarrow> nat \<Rightarrow> nat \<Rightarrow> u8 list \<Rightarrow> (env_failure + u8 list) option" where
  "makeenv wr BlockSize EnvSize inp =
     (if EnvSize > BlockSize then Some (Inl No_fit)
      else if EnvSize < 4 then Some (Inl Outside)
      else
        let block = replicate EnvSize 0 @ replicate (BlockSize - EnvSize) 0xFF in
        case LoadBlock 4 (int EnvSize - 4) block inp of
          Inl e \<Rightarrow> Some (Inl e)
        | Inr block \<Rightarrow>
            let crc = crc32 0 (take (EnvSize - 4) (drop 4 block)) in
            WriteBlock wr 0 (le_bytes crc @ drop 4 block) [])"

section \<open>Reading an environment block\<close>

text \<open>
  The loop over the characters after the checksum: \<open>arg\<close> is the name searched for, if any, and
  \<open>match\<close> the part of it that is not matched yet. The result is the exit code and the output.
\<close>

fun readenv_loop ::
  "u8 list option \<Rightarrow> bool \<Rightarrow> bool \<Rightarrow> u8 list \<Rightarrow> bool \<Rightarrow> u8 list \<Rightarrow> u8 list \<Rightarrow> int \<times> u8 list"
where
  "readenv_loop arg printing matched match eos out [] = (if printing then 0 else 1, out)"
| "readenv_loop arg printing matched match eos out (ch # inp) =
     (if ch = 0 then
        if arg \<noteq> None \<and> printing then (0, out)
        else if eos then (if printing then 0 else 1, out)
        else readenv_loop arg printing (arg \<noteq> None) (case arg of None \<Rightarrow> [] | Some a \<Rightarrow> a) True
               (if printing then out @ [newline] else out) inp
      else
        let out = (if printing then out @ [ch] else out) in
        if matched then
          if match = [] then readenv_loop arg (ch = equals) False match False out inp
          else readenv_loop arg printing (ch = hd match) (tl match) False out inp
        else readenv_loop arg printing matched match False out inp)"

definition readenv :: "u8 list option \<Rightarrow> u8 list \<Rightarrow> int \<times> u8 list" where
  "readenv arg inp =
     readenv_loop arg (arg = None) (arg \<noteq> None) (case arg of None \<Rightarrow> [] | Some a \<Rightarrow> a) True [] (drop 4 inp)"

section \<open>What is written is what is read\<close>

definition env_line :: "u8 list \<times> u8 list \<Rightarrow> u8 list" where
  "env_line nv = fst nv @ equals # snd nv"

definition env_text :: "u8 list list \<Rightarrow> u8 list" where
  "env_text ls = concat (map (\<lambda>l. l @ [newline]) ls)"

definition env_block :: "u8 list list \<Rightarrow> u8 list" where
  "env_block ls = concat (map (\<lambda>l. l @ [0]) ls) @ [0]"

text \<open>A line that can be stored: no 0, no newline, short enough for the buffer, with a value.\<close>

definition line_ok :: "u8 list \<Rightarrow> bool" where
  "line_ok l \<longleftrightarrow> 0 \<notin> set l \<and> newline \<notin> set l \<and> length l < MAX_LINE - 1 \<and> equals \<in> set l"

lemma fgets_line: "newline \<notin> set l \<Longrightarrow> length l < n \<Longrightarrow> fgets n (l @ newline # rest) = (l @ [newline], rest)"
proof (induction l arbitrary: n)
  case Nil
  then show ?case by (cases n) simp_all
next
  case (Cons c l)
  then show ?case by (cases n) auto
qed

lemma line_string_ok: "line_ok l \<Longrightarrow> line_string (l @ [newline]) = Inr l"
proof -
  assume "line_ok l"
  then have "c_string (l @ [newline]) = l @ [newline]"
    by (auto simp: c_string_def line_ok_def newline_def takeWhile_eq_all_conv)
  then show ?thesis by (simp add: line_string_def nth_append)
qed

lemma LoadBlock_lines:
  assumes "\<forall>l\<in>set ls. line_ok l \<and> int (length l) + 2 \<le> free" "p + length (env_block ls) \<le> length block"
  shows "LoadBlock p free block (env_text ls) =
    Inr (take p block @ env_block ls @ drop (p + length (env_block ls)) block)"
  using assms
proof (induction ls arbitrary: p block)
  case Nil
  then show ?case by (subst LoadBlock.simps) (simp add: env_text_def env_block_def poke_def)
next
  case (Cons l ls)
  have l: "line_ok l" "int (length l) + 2 \<le> free" using Cons.prems(1) by simp_all
  have t: "env_text (l # ls) = l @ newline # env_text ls" by (simp add: env_text_def)
  have b: "env_block (l # ls) = (l @ [0]) @ env_block ls" by (simp add: env_block_def)
  have f: "fgets (MAX_LINE - 1) (env_text (l # ls)) = (l @ [newline], env_text ls)"
    using l(1) unfolding t by (intro fgets_line) (simp_all add: line_ok_def)
  let ?block = "take p block @ (l @ [0]) @ drop (p + length (l @ [0])) block"
  have p: "poke p (l @ [0]) block = Some ?block" using Cons.prems(2) by (simp add: poke_def b)
  have "LoadBlock p free block (env_text (l # ls)) = LoadBlock (p + (length l + 1)) free ?block (env_text ls)"
    using l f p by (subst LoadBlock.simps) (auto simp: line_string_ok t line_ok_def)
  also have "\<dots> = Inr (take (p + (length l + 1)) ?block @ env_block ls @
      drop (p + (length l + 1) + length (env_block ls)) ?block)"
    using Cons.prems by (intro Cons.IH) (simp_all add: b)
  also have "take (p + (length l + 1)) ?block = take p block @ l @ [0]"
    using Cons.prems(2) by (simp add: b)
  also have "drop (p + (length l + 1) + length (env_block ls)) ?block = drop (p + length (env_block (l # ls))) block"
    using Cons.prems(2) by (simp add: b add.commute add.left_commute)
  finally show ?case by (simp add: b)
qed

lemma WriteBlock_all:
  assumes "\<forall>k n. n > 0 \<longrightarrow> 0 < wr k n \<and> wr k n \<le> int n"
  shows "WriteBlock wr k block out = Some (Inr (out @ block))"
proof (induction "length block" arbitrary: k block out rule: less_induct)
  case less
  show ?case
  proof (cases "block = []")
    case False
    then have w: "0 < wr k (length block)" using assms by simp
    then have "WriteBlock wr (k + 1) (drop (nat (wr k (length block))) block)
        (out @ take (nat (wr k (length block))) block) = Some (Inr (out @ block))"
      using False by (subst less) auto
    then show ?thesis using False w by (subst WriteBlock.simps) (simp add: Let_def)
  qed (subst WriteBlock.simps, simp)
qed

text \<open>The value a line gives to the name \<open>m\<close>.\<close>

fun value_of :: "u8 list \<Rightarrow> u8 list \<Rightarrow> u8 list option" where
  "value_of [] (c # s) = (if c = equals then Some s else None)"
| "value_of (x # m) (c # s) = (if c = x then value_of m s else None)"
| "value_of m [] = None"

lemma value_of_line:
  "equals \<notin> set n \<Longrightarrow> equals \<notin> set m \<Longrightarrow> value_of n (m @ equals # v) = (if n = m then Some v else None)"
proof (induction n arbitrary: m)
  case Nil
  then show ?case by (cases m) auto
next
  case (Cons x n)
  then show ?case by (cases m) auto
qed

lemma read_all:
  "0 \<notin> set s \<Longrightarrow> s \<noteq> [] \<or> \<not> e \<Longrightarrow>
    readenv_loop None True False m e out (s @ 0 # rest) = readenv_loop None True False [] True (out @ s @ [newline]) rest"
  by (induction s arbitrary: e out) auto

lemma read_value: "0 \<notin> set s \<Longrightarrow> readenv_loop (Some a) True False m e out (s @ 0 # rest) = (0, out @ s)"
  by (induction s arbitrary: e out) auto

lemma read_skip:
  "0 \<notin> set s \<Longrightarrow> s \<noteq> [] \<or> \<not> e \<Longrightarrow>
    readenv_loop (Some a) False False m e out (s @ 0 # rest) = readenv_loop (Some a) False True a True out rest"
  by (induction s arbitrary: e) auto

lemma read_match:
  "0 \<notin> set s \<Longrightarrow> s \<noteq> [] \<or> \<not> e \<Longrightarrow>
    readenv_loop (Some a) False True m e out (s @ 0 # rest) =
      (case value_of m s of Some v \<Rightarrow> (0, out @ v) | None \<Rightarrow> readenv_loop (Some a) False True a True out rest)"
proof (induction m s arbitrary: e rule: value_of.induct)
  case (1 c s)
  then show ?case by (auto simp: read_value read_skip)
next
  case (2 x m c s)
  then show ?case by (auto simp: read_skip)
next
  case (3 m)
  then show ?case by simp
qed

lemma readenv_all:
  assumes "\<forall>l\<in>set ls. 0 \<notin> set l \<and> l \<noteq> []"
  shows "readenv_loop None True False m True out (env_block ls @ rest) = (0, out @ env_text ls)"
  using assms
proof (induction ls arbitrary: out m)
  case Nil
  then show ?case by (simp add: env_block_def env_text_def)
next
  case (Cons l ls)
  have "env_block (l # ls) @ rest = l @ 0 # (env_block ls @ rest)" by (simp add: env_block_def)
  then show ?case using Cons by (simp add: read_all) (simp add: env_text_def)
qed

lemma readenv_named:
  assumes "\<forall>nv\<in>set env. 0 \<notin> set (env_line nv) \<and> equals \<notin> set (fst nv)" "equals \<notin> set a"
  shows "readenv_loop (Some a) False True a True out (env_block (map env_line env) @ rest) =
    (case map_of env a of Some v \<Rightarrow> (0, out @ v) | None \<Rightarrow> (1, out))"
  using assms(1)
proof (induction env)
  case Nil
  then show ?case by (simp add: env_block_def)
next
  case (Cons nv env)
  have b: "env_block (map env_line (nv # env)) @ rest = env_line nv @ 0 # (env_block (map env_line env) @ rest)"
    by (simp add: env_block_def)
  have "value_of a (env_line nv) = (if a = fst nv then Some (snd nv) else None)"
    using Cons.prems assms(2) by (simp add: env_line_def value_of_line)
  moreover have "env_line nv \<noteq> []" by (simp add: env_line_def)
  ultimately show ?case
    using Cons unfolding b by (cases nv) (auto simp: read_match)
qed

lemma line_length: "l \<in> set ls \<Longrightarrow> length (l @ [0]) \<le> length (concat (map (\<lambda>l. l @ [0]) ls))"
  by (induction ls) auto

text \<open>
  C38: an environment written by \<^verbatim>\<open>makeenv\<close> is read back by \<^verbatim>\<open>readenv\<close>: whenever the lines are
  well formed and the whole environment fits, and however the kernel splits the writes, a block of the
  requested size is written whose first word is the checksum of the environment; reading it prints the
  lines as they were given, and asking for a name prints its first value, or fails if it has none.
\<close>

theorem env_roundtrip:
  assumes "\<forall>nv\<in>set env. line_ok (env_line nv) \<and> equals \<notin> set (fst nv)"
    and "length (env_block (map env_line env)) + 4 \<le> EnvSize" "EnvSize \<le> BlockSize"
    and "\<forall>k n. n > 0 \<longrightarrow> 0 < wr k n \<and> wr k n \<le> int n"
  shows "\<exists>out. makeenv wr BlockSize EnvSize (env_text (map env_line env)) = Some (Inr out) \<and>
    length out = BlockSize \<and> take 4 out = le_bytes (crc32 0 (take (EnvSize - 4) (drop 4 out))) \<and>
    readenv None out = (0, env_text (map env_line env)) \<and>
    (\<forall>name. equals \<notin> set name \<longrightarrow>
       readenv (Some name) out = (case map_of env name of Some v \<Rightarrow> (0, v) | None \<Rightarrow> (1, [])))"
proof -
  let ?ls = "map env_line env" let ?e = "env_block ?ls"
  let ?block = "replicate EnvSize 0 @ replicate (BlockSize - EnvSize) 0xFF :: u8 list"
  let ?rest = "drop (4 + length ?e) ?block"
  have fits: "\<forall>l\<in>set ?ls. line_ok l \<and> int (length l) + 2 \<le> int EnvSize - 4"
  proof
    fix l assume l: "l \<in> set ?ls"
    then have "length (l @ [0]) \<le> length (concat (map (\<lambda>l. l @ [0]) ?ls))" by (rule line_length)
    then show "line_ok l \<and> int (length l) + 2 \<le> int EnvSize - 4"
      using assms(1,2) l by (auto simp: env_block_def)
  qed
  have load: "LoadBlock 4 (int EnvSize - 4) ?block (env_text ?ls) = Inr (take 4 ?block @ ?e @ ?rest)"
    using assms(2,3) fits by (intro LoadBlock_lines) simp_all
  have four: "length (take 4 ?block) = 4" using assms(2,3) by simp
  let ?out = "le_bytes (crc32 0 (take (EnvSize - 4) (?e @ ?rest))) @ ?e @ ?rest"
  have le: "length (le_bytes w) = 4" for w by (simp add: le_bytes_def)
  have made: "makeenv wr BlockSize EnvSize (env_text ?ls) = Some (Inr ?out)"
    using assms(2,3) load four by (simp add: makeenv_def WriteBlock_all [OF assms(4)] Let_def)
  have d: "drop 4 ?out = ?e @ ?rest" "take 4 ?out = le_bytes (crc32 0 (take (EnvSize - 4) (?e @ ?rest)))"
    by (simp_all add: le)
  have len: "length ?out = BlockSize" using assms(2,3) by (simp add: le)
  have ok: "\<forall>l\<in>set ?ls. 0 \<notin> set l \<and> l \<noteq> []" "\<forall>nv\<in>set env. 0 \<notin> set (env_line nv) \<and> equals \<notin> set (fst nv)"
    using assms(1) by (auto simp: line_ok_def env_line_def)
  show ?thesis
  proof (intro exI [of _ ?out] conjI allI impI)
    show "readenv None ?out = (0, env_text ?ls)"
      using readenv_all [OF ok(1)] by (simp only: readenv_def d) simp
    fix name assume "equals \<notin> set name"
    from readenv_named [OF ok(2) this, of "[]" ?rest]
    show "readenv (Some name) ?out = (case map_of env name of Some v \<Rightarrow> (0, v) | None \<Rightarrow> (1, []))"
      by (simp only: readenv_def d) (simp split: option.split)
  qed (use made len d in \<open>simp_all only:\<close>)
qed

text \<open>\<^verbatim>\<open>a=1\<close> and \<^verbatim>\<open>b=\<close> in a block of 16 bytes with an environment of 14, written two bytes at a time.\<close>

theorem env_roundtrip_witness:
  "\<exists>out. makeenv (\<lambda>_ n. if n = 1 then 1 else 2) 16 14 [97, 61, 49, 10, 98, 61, 10] = Some (Inr out) \<and>
     readenv (Some [97]) out = (0, [49]) \<and> readenv (Some [99]) out = (1, [])"
proof -
  let ?env = "[([97], [49]), ([98], [])] :: (u8 list \<times> u8 list) list"
  have t: "env_text (map env_line ?env) = [97, 61, 49, 10, 98, 61, 10]"
    by (simp add: env_text_def env_line_def equals_def newline_def)
  have w: "\<forall>k n. n > 0 \<longrightarrow> 0 < (if n = 1 then 1 else 2 :: int) \<and> (if n = 1 then 1 else 2) \<le> int n" by auto
  have l: "\<forall>nv\<in>set ?env. line_ok (env_line nv) \<and> equals \<notin> set (fst nv)"
    by (simp add: line_ok_def env_line_def equals_def newline_def MAX_LINE_def)
  have f: "length (env_block (map env_line ?env)) + 4 \<le> 14" "(14::nat) \<le> 16"
    by (simp_all add: env_block_def env_line_def)
  obtain out where out: "makeenv (\<lambda>_ n. if n = 1 then 1 else 2) 16 14 [97, 61, 49, 10, 98, 61, 10] = Some (Inr out)"
    "\<forall>name. equals \<notin> set name \<longrightarrow>
       readenv (Some name) out = (case map_of ?env name of Some v \<Rightarrow> (0, v) | None \<Rightarrow> (1, []))"
    using env_roundtrip [OF l f w] unfolding t by blast
  show ?thesis using out(1) out(2) [rule_format, of "[97]"] out(2) [rule_format, of "[99]"]
    by (simp add: equals_def)
qed

text \<open>
  The space left is never counted down, so each line is checked against the whole environment only:
  four lines that do not fit together are stored beyond it, over the padding.
\<close>

lemma env_overrun:
  "\<exists>out. makeenv (\<lambda>_. int) 32 14 (env_text (replicate 4 [97, 61, 49])) = Some (Inr out) \<and> out ! 14 \<noteq> 0xFF"
proof -
  let ?ls = "replicate 4 [97, 61, 49] :: u8 list list"
  let ?block = "replicate 14 0 @ replicate 18 0xFF :: u8 list"
  have e: "env_block ?ls = [97, 61, 49, 0, 97, 61, 49, 0, 97, 61, 49, 0, 97, 61, 49, 0, 0]"
    by (simp add: env_block_def numeral_eq_Suc)
  have "LoadBlock 4 10 ?block (env_text ?ls) = Inr (take 4 ?block @ env_block ?ls @ drop (4 + length (env_block ?ls)) ?block)"
    by (rule LoadBlock_lines) (auto simp: line_ok_def equals_def newline_def MAX_LINE_def e)
  then show ?thesis
    by (simp add: makeenv_def Let_def WriteBlock_all e le_bytes_def)
qed

section \<open>Padding\<close>

text \<open>
  \<open>chunks\<close> are the results of the successive calls of \<^verbatim>\<open>read\<close> before the end of the input. The
  result is the exit code and what has been written.
\<close>

definition BLOCK_SIZE :: int where "BLOCK_SIZE = 4096"

fun padff_copy ::
  "(nat \<Rightarrow> nat \<Rightarrow> int) \<Rightarrow> nat \<Rightarrow> u8 list list \<Rightarrow> int \<Rightarrow> u8 list \<Rightarrow> u8 list + (nat \<times> int \<times> u8 list)"
where
  "padff_copy wr k [] tlen out = Inr (k, tlen, out)"
| "padff_copy wr k (chunk # chunks) tlen out =
     (let written = wr k (length chunk); out = out @ take (nat written) chunk in
      if written \<noteq> int (length chunk) then Inl out
      else padff_copy wr (k + 1) chunks (tlen + int (length chunk)) out)"

function padff_fill :: "(nat \<Rightarrow> nat \<Rightarrow> int) \<Rightarrow> nat \<Rightarrow> u8 \<Rightarrow> int \<Rightarrow> int \<Rightarrow> u8 list \<Rightarrow> int \<times> u8 list" where
  "padff_fill wr k pad target tlen out =
     (if tlen < target then
        let write_length = min BLOCK_SIZE (target - tlen);
            written = wr k (nat write_length);
            out = out @ replicate (min (nat written) (nat write_length)) pad
        in if written \<noteq> write_length then (1, out)
           else padff_fill wr (k + 1) pad target (tlen + write_length) out
      else (0, out))"
  by pat_completeness auto
termination
  by (relation "measure (\<lambda>(_, _, _, target, tlen, _). nat (target - tlen))")
     (auto simp: BLOCK_SIZE_def)

declare padff_fill.simps [simp del]

definition padff :: "(nat \<Rightarrow> nat \<Rightarrow> int) \<Rightarrow> u8 \<Rightarrow> int \<Rightarrow> u8 list list \<Rightarrow> int \<times> u8 list" where
  "padff wr pad_char target_length chunks =
     (case padff_copy wr 0 chunks 0 [] of
        Inl out \<Rightarrow> (1, out)
      | Inr (k, tlen, out) \<Rightarrow> padff_fill wr k pad_char target_length tlen out)"

lemma padff_copy_all:
  "\<forall>k n. wr k n = int n \<Longrightarrow>
    padff_copy wr k chunks tlen out = Inr (k + length chunks, tlen + int (length (concat chunks)), out @ concat chunks)"
  by (induction chunks arbitrary: k tlen out) simp_all

lemma padff_fill_all:
  assumes "\<forall>k n. wr k n = int n"
  shows "padff_fill wr k pad target tlen out = (0, out @ replicate (nat (target - tlen)) pad)"
  using assms
proof (induction wr k pad target tlen out rule: padff_fill.induct)
  case (1 wr k pad target tlen out)
  show ?case
  proof (cases "tlen < target")
    case True
    let ?n = "min BLOCK_SIZE (target - tlen)"
    have n: "0 < ?n" "?n \<le> target - tlen" using True by (auto simp: BLOCK_SIZE_def)
    then have r: "nat (target - tlen) = nat ?n + nat (target - (tlen + ?n))" by linarith
    have w: "wr k (nat ?n) = ?n" using 1(2) n by simp
    have "padff_fill wr k pad target tlen out = padff_fill wr (k + 1) pad target (tlen + ?n) (out @ replicate (nat ?n) pad)"
      using True by (subst padff_fill.simps) (simp only: Let_def w min.idem if_True simp_thms if_False)
    also have "\<dots> = (0, out @ replicate (nat ?n) pad @ replicate (nat (target - (tlen + ?n))) pad)"
    proof -
      have "\<not> wr k (nat ?n) \<noteq> ?n" using w by simp
      from 1(1) [OF True refl refl refl this 1(2)] show ?thesis by (simp only: w min.idem append_assoc)
    qed
    finally show ?thesis by (simp only: r replicate_add)
  qed (subst padff_fill.simps, simp)
qed

section \<open>Comparing\<close>

text \<open>
  A file is the list of the results of its successive reads (\<open>None\<close> an error), after which it is at
  its end; \<open>None\<close> instead of a list is a file that cannot be opened. The result is the exit code.
\<close>

fun next_read :: "u8 list option list \<Rightarrow> u8 list option \<times> u8 list option list" where
  "next_read [] = (Some [], [])"
| "next_read (r # rs) = (r, rs)"

definition has_data :: "u8 list option \<Rightarrow> bool" where
  "has_data r = (case r of None \<Rightarrow> False | Some xs \<Rightarrow> xs \<noteq> [])"

function bindiff_loop :: "u8 list option list \<Rightarrow> u8 list option list \<Rightarrow> int" where
  "bindiff_loop file1 file2 =
     (let (r1, rest1) = next_read file1; (r2, rest2) = next_read file2 in
      if has_data r1 \<and> has_data r2 then
        if length (the r1) = length (the r2) then
          if r1 \<noteq> r2 then 1 else bindiff_loop rest1 rest2
        else 1
      else if r1 = Some [] \<and> r2 = Some [] then 0
      else if r1 = None \<or> r2 = None then 1
      else 1)"
  by pat_completeness auto
termination
proof (relation "measure (length \<circ> fst)")
  fix file1 file2 x r1 rest1 y r2 rest2
  assume "x = next_read file1" "(r1, rest1) = x" "has_data r1 \<and> has_data r2"
  then show "((rest1, rest2), file1, file2) \<in> measure (length \<circ> fst)"
    by (cases file1) (auto simp: has_data_def)
qed simp

declare bindiff_loop.simps [simp del]

definition bindiff :: "u8 list option list option \<Rightarrow> u8 list option list option \<Rightarrow> int" where
  "bindiff file1 file2 =
     (case (file1, file2) of (Some f, Some g) \<Rightarrow> bindiff_loop f g | _ \<Rightarrow> 2)"

text \<open>A regular file is read in full blocks but for the last one.\<close>

function blocks :: "u8 list \<Rightarrow> u8 list option list" where
  "blocks xs = (if xs = [] then [] else Some (take (nat BLOCK_SIZE) xs) # blocks (drop (nat BLOCK_SIZE) xs))"
  by pat_completeness auto
termination by (relation "measure length") (auto simp: BLOCK_SIZE_def)

declare blocks.simps [simp del]

lemma bindiff_blocks: "bindiff_loop (blocks xs) (blocks ys) = (if xs = ys then 0 else 1)"
proof (induction xs arbitrary: ys rule: blocks.induct)
  case (1 xs)
  let ?n = "nat BLOCK_SIZE"
  have n: "?n > 0" by (simp add: BLOCK_SIZE_def)
  have b: "zs \<noteq> [] \<Longrightarrow> blocks zs = Some (take ?n zs) # blocks (drop ?n zs)" "blocks [] = []" for zs
    by (subst blocks.simps, simp)+
  consider "xs = []" "ys = []" | "xs = []" "ys \<noteq> []" | "xs \<noteq> []" "ys = []" | "xs \<noteq> []" "ys \<noteq> []" by blast
  then show ?case
  proof cases
    case 4
    let ?x = "take ?n xs" and ?y = "take ?n ys"
    have e: "xs = ys \<longleftrightarrow> ?x = ?y \<and> drop ?n xs = drop ?n ys" by (metis append_take_drop_id)
    have d: "has_data (Some ?x)" "has_data (Some ?y)" using 4 n by (simp_all add: has_data_def)
    have "bindiff_loop (blocks xs) (blocks ys) =
        (if length ?x = length ?y then if ?x \<noteq> ?y then 1 else bindiff_loop (blocks (drop ?n xs)) (blocks (drop ?n ys)) else 1)"
      using 4 d by (subst bindiff_loop.simps) (simp only: b(1) next_read.simps Let_def case_prod_conv if_True
          simp_thms option.sel option.inject)
    then show ?thesis using e 1 [OF 4(1), of "drop ?n ys"] by auto
  qed (subst bindiff_loop.simps, simp add: b has_data_def BLOCK_SIZE_def)+
qed

text \<open>
  The padding tool copies its input and appends the padding character up to the target length
  (nothing when the input is longer), for any split of the input into reads; the comparison of two
  regular files succeeds exactly when they are equal, but a short read, as from a pipe, makes it call
  equal inputs different.
\<close>

lemma pad_and_compare:
  assumes "\<forall>k n. wr k n = int n"
  shows "padff wr pad target chunks =
      (0, concat chunks @ replicate (nat (target - int (length (concat chunks)))) pad) \<and>
    bindiff (Some (blocks xs)) (Some (blocks ys)) = (if xs = ys then 0 else 1) \<and>
    bindiff (Some [Some [1, 2]]) (Some [Some [1], Some [2]]) = 1"
proof -
  have "bindiff_loop [Some [1, 2]] [Some [1], Some [2]] = 1"
    by (subst bindiff_loop.simps) (simp add: has_data_def)
  then show ?thesis
    using padff_copy_all [OF assms] padff_fill_all [OF assms]
    by (simp add: padff_def bindiff_def bindiff_blocks)
qed


end
