(* ===== verification/Msp.thy ===== *)
theory Msp
  imports Resources "HOL-Library.Signed_Division"
begin

text \<open>
  The voltage monitor: the kernel driver \<^verbatim>\<open>drivers/msp430/msp_main.c\<close>, which talks over a synchronous
  serial port (SSP) to the MSP430 microcontroller, and the firmware \<^verbatim>\<open>adc/msp_adc.c\<close> of the
  microcontroller. The two ends meet in the locale \<open>msp_slave\<close>: the protocol the driver relies on, proved
  of the firmware.
\<close>

section \<open>Registers\<close>

text \<open>
  The accesses of the driver to the port and to the reset register, as functions on the state of
  everything behind them; \<open>pause\<close> is \<^verbatim>\<open>msp_delay\<close>, during which that state moves on.
\<close>

record 'd ssp_ops =
  put_ssdr :: "u32 \<Rightarrow> 'd \<Rightarrow> 'd"
  get_sssr :: "'d \<Rightarrow> u32 \<times> 'd"
  get_ssdr :: "'d \<Rightarrow> u32 \<times> 'd"
  iowrite8 :: "u8 \<Rightarrow> 'd \<Rightarrow> 'd"
  pause :: "'d \<Rightarrow> 'd"

definition SSSR_RNE :: u32 where [reg_defs]: "SSSR_RNE = 8"
definition MRR_PGM :: u8 where [reg_defs]: "MRR_PGM = 4"
definition MRR_TCK :: u8 where [reg_defs]: "MRR_TCK = 2"
definition MRR_NMI :: u8 where [reg_defs]: "MRR_NMI = 1"
definition MSP_PROTO_CONV_START :: u32 where [reg_defs]: "MSP_PROTO_CONV_START = 0x10"
definition MSP_PROTO_CONV_IN_PROGRESS :: u32 where [reg_defs]: "MSP_PROTO_CONV_IN_PROGRESS = 0xef"
definition MSP_PROTO_CONV_TEST :: u32 where [reg_defs]: "MSP_PROTO_CONV_TEST = 0xa5"
definition MSP_PROTO_RESET :: u32 where [reg_defs]: "MSP_PROTO_RESET = 0xaa"
definition MSP_ADC_RANGE :: int where [reg_defs]: "MSP_ADC_RANGE = 2 ^ 12"
definition MSP_ADC_VREF :: int where [reg_defs]: "MSP_ADC_VREF = 2500"

section \<open>The driver\<close>

definition msp_reset :: "'d ssp_ops \<Rightarrow> 'd \<Rightarrow> 'd" where
  "msp_reset ops d =
     (let d = iowrite8 ops ((MRR_PGM OR MRR_TCK) AND NOT MRR_NMI) d;
          d = pause ops d;
          d = iowrite8 ops (MRR_PGM OR MRR_TCK OR MRR_NMI) d;
          d = pause ops d;
          d = iowrite8 ops ((MRR_NMI OR MRR_TCK) AND NOT MRR_PGM) d
      in pause ops d)"

text \<open>An exchange of a word; an error is left with its number.\<close>

definition ssp_exchange :: "'d ssp_ops \<Rightarrow> u32 \<Rightarrow> 'd \<Rightarrow> (int + u32) \<times> 'd" where
  "ssp_exchange ops tx d =
     (let d = put_ssdr ops tx d;
          d = pause ops d;
          (sssr, d) = get_sssr ops d
      in if sssr AND SSSR_RNE = 0 then (Inl (- EBADE), msp_reset ops d)
         else
           let (rx, d) = get_ssdr ops d
           in (Inr (rx AND 0xFFFF), pause ops d))"

definition check_protocol :: "'d ssp_ops \<Rightarrow> u32 \<Rightarrow> u32 \<Rightarrow> 'd \<Rightarrow> int \<times> 'd" where
  "check_protocol ops rx expect d = (if rx = expect then (0, d) else (- EPROTO, msp_reset ops d))"

text \<open>An exchange whose answer must be \<open>expect\<close>.\<close>

definition exchange_expect :: "'d ssp_ops \<Rightarrow> u32 \<Rightarrow> u32 \<Rightarrow> 'd \<Rightarrow> int \<times> 'd" where
  "exchange_expect ops tx expect d =
     (case ssp_exchange ops tx d of
        (Inl e, d) \<Rightarrow> (e, d)
      | (Inr rx, d) \<Rightarrow> check_protocol ops rx expect d)"

text \<open>Waiting for the conversion; \<open>None\<close> is a conversion that never ends.\<close>

partial_function (option) wait_conversion :: "'d ssp_ops \<Rightarrow> 'd \<Rightarrow> ((int + u32) \<times> 'd) option" where
  "wait_conversion ops d =
     (case ssp_exchange ops MSP_PROTO_CONV_TEST d of
        (Inl e, d) \<Rightarrow> Some (Inl e, d)
      | (Inr rx, d) \<Rightarrow> if rx = MSP_PROTO_CONV_IN_PROGRESS then wait_conversion ops d else Some (Inr rx, d))"

text \<open>The loop that reads the bytes, from index \<open>j\<close> to 14, and the last exchange.\<close>

fun read_bytes :: "'d ssp_ops \<Rightarrow> u32 list \<Rightarrow> u32 list \<Rightarrow> 'd \<Rightarrow> (int + u32 list) \<times> 'd" where
  "read_bytes ops [] buf d = (Inr buf, d)"
| "read_bytes ops (tx # txs) buf d =
     (case ssp_exchange ops tx d of
        (Inl e, d) \<Rightarrow> (Inl e, d)
      | (Inr rx, d) \<Rightarrow> read_bytes ops txs (buf @ [rx]) d)"

text \<open>
  The voltages, in 32-bit signed integers. The C program's \<^verbatim>\<open>/\<close> truncates; \<open>sdiv\<close> does as well.
\<close>

definition wrap32 :: "int \<Rightarrow> int" where
  "wrap32 x = signed_take_bit 31 x"

definition res_coeff :: "(int \<times> int) list" where
  "res_coeff = [(101, 100), (101, 100), (120, 100), (1511, 1000), (250, 100), (611, 100), (315, 100),
     (290, 100), (1000, 3550)]"

definition scale_voltage :: "u32 list \<Rightarrow> nat \<Rightarrow> int" where
  "scale_voltage data i =
     (let v = sint (push_bit 8 (data ! (2 * i + 1)) OR data ! (2 * i));
          v = wrap32 (v * MSP_ADC_VREF) sdiv MSP_ADC_RANGE
      in wrap32 (v * fst (res_coeff ! i)) sdiv snd (res_coeff ! i))"

definition msp_transform :: "u32 list \<Rightarrow> int list" where
  "msp_transform data =
     (let v = map (scale_voltage data) [0..<8];
          v = v[6 := wrap32 (v ! 6 - wrap32 (v ! 5 * 1500) sdiv 1000)]
      in v[7 := wrap32 (v ! 7 - 5500 * 1500 sdiv 1000)])"

definition msp_atom_bytes :: int where [reg_defs]: "msp_atom_bytes = 32"

text \<open>\<open>left\<close> is what \<^verbatim>\<open>copy_to_user\<close> fails to copy; on success the voltages are delivered.\<close>

definition msp_transfer :: "'d ssp_ops \<Rightarrow> nat \<Rightarrow> 'd \<Rightarrow> (int \<times> int list \<times> 'd) option" where
  "msp_transfer ops left d =
     (let (ret, d) = exchange_expect ops MSP_PROTO_CONV_START MSP_PROTO_RESET d in
      if ret < 0 then Some (ret, [], d)
      else
        Option.bind (wait_conversion ops d) (\<lambda>(r, d).
          case r of
            Inl ret \<Rightarrow> Some (ret, [], d)
          | Inr rx \<Rightarrow>
              let (ret, d) = check_protocol ops rx (MSP_PROTO_CONV_TEST + 1) d in
              if ret \<noteq> 0 then Some (ret, [], d)
              else
                let (ret, d) = exchange_expect ops 0 (MSP_PROTO_CONV_TEST + 1) d in
                if ret \<noteq> 0 then Some (ret, [], d)
                else
                  case read_bytes ops (map (\<lambda>j. of_nat j + 1) [0..<15] @ [MSP_PROTO_RESET - 1]) [] d of
                    (Inl ret, d) \<Rightarrow> Some (ret, [], d)
                  | (Inr rx_buf, d) \<Rightarrow>
                      if left \<noteq> 0 then Some (- EFAULT, [], d)
                      else Some (msp_atom_bytes, msp_transform rx_buf, d)))"

definition msp_open :: "bool \<Rightarrow> int" where
  "msp_open write = (if write then - EACCES else 0)"

definition msp_read :: "'d ssp_ops \<Rightarrow> bool \<Rightarrow> nat \<Rightarrow> nat \<Rightarrow> 'd \<Rightarrow> (int \<times> int list \<times> 'd) option" where
  "msp_read ops interrupted left count d =
     (if int count < msp_atom_bytes then Some (- EINVAL, [], d)
      else if interrupted then Some (- EINTR, [], d)
      else msp_transfer ops left d)"

text \<open>Reads one after another, by a caller that asks for one atom each time; their returns and voltages.\<close>

fun msp_reads :: "'d ssp_ops \<Rightarrow> nat \<Rightarrow> 'd \<Rightarrow> (int \<times> int list) list option" where
  "msp_reads ops 0 d = Some []"
| "msp_reads ops (Suc n) d =
     Option.bind (msp_read ops False 0 32 d) (\<lambda>(ret, v, d). map_option ((#) (ret, v)) (msp_reads ops n d))"

section \<open>The firmware\<close>

text \<open>
  The data, the flag that they are being converted and the transmit buffer. \<open>asleep\<close> tells whether the
  main loop is in low power mode.
\<close>

record firmware =
  byte_data :: "u8 list"
  no_data :: bool
  U0TXBUF :: u8
  asleep :: bool

text \<open>The main program up to its first conversion, the end of a conversion, and waking up.\<close>

definition fw_main :: firmware where
  "fw_main = \<lparr>byte_data = replicate 16 0, no_data = True, U0TXBUF = 0xaa, asleep = False\<rparr>"

definition short_bytes :: "u16 list \<Rightarrow> u8 list" where
  "short_bytes xs = concat (map (\<lambda>x. [ucast x, ucast (drop_bit 8 x)]) xs)"

definition fw_converted :: "u16 list \<Rightarrow> firmware \<Rightarrow> firmware" where
  "fw_converted adc12mem f = f\<lparr>byte_data := short_bytes adc12mem, no_data := False, asleep := True\<rparr>"

definition fw_woken :: "firmware \<Rightarrow> firmware" where
  "fw_woken f = f\<lparr>no_data := True, asleep := False\<rparr>"

text \<open>The interrupt on a received byte; the main loop goes on once it returns, when it has been woken.\<close>

definition rx_isr :: "u8 \<Rightarrow> firmware \<Rightarrow> firmware" where
  "rx_isr U0RXBUF f =
     (if no_data f then f\<lparr>U0TXBUF := 0xef\<rparr>
      else if U0RXBUF \<le> 15 then f\<lparr>U0TXBUF := byte_data f ! unat U0RXBUF\<rparr>
      else if U0RXBUF = 16 then f\<lparr>U0TXBUF := 0xef, asleep := False\<rparr>
      else f\<lparr>U0TXBUF := U0RXBUF + 1\<rparr>)"

section \<open>The protocol\<close>

text \<open>
  What the driver relies on, the table in \<^verbatim>\<open>msp_adc.c\<close>: every exchange succeeds and its answer is the
  byte the slave had ready (\<open>reply\<close>); while data are converted the slave prepares the answer
  ``in progress'' and the conversion comes nearer to its end; after it a start command starts the next one,
  an index prepares the byte of the result with that index, and any other command its successor.
\<close>

locale msp_slave =
  fixes ops :: "'d ssp_ops" and inv :: "'d \<Rightarrow> bool" and reply :: "'d \<Rightarrow> u8" and left_time :: "'d \<Rightarrow> nat"
    and conv :: "'d \<Rightarrow> nat" and outcome :: "nat \<Rightarrow> u8 list" and next_state :: "u32 \<Rightarrow> 'd \<Rightarrow> 'd"
  assumes exchanges: "inv d \<Longrightarrow> ssp_exchange ops tx d = (Inr (ucast (reply d)), next_state tx d)"
    and keeps: "inv d \<Longrightarrow> inv (next_state tx d)"
    and converting: "inv d \<Longrightarrow> left_time d > 0 \<Longrightarrow> reply (next_state tx d) = 0xef \<and>
      left_time (next_state tx d) < left_time d \<and> conv (next_state tx d) = conv d"
    and starting: "inv d \<Longrightarrow> left_time d = 0 \<Longrightarrow> reply (next_state MSP_PROTO_CONV_START d) = 0xef \<and>
      conv (next_state MSP_PROTO_CONV_START d) = Suc (conv d)"
    and indexing: "inv d \<Longrightarrow> left_time d = 0 \<Longrightarrow> i < 16 \<Longrightarrow> reply (next_state (of_nat i) d) = outcome (conv d) ! i \<and>
      left_time (next_state (of_nat i) d) = 0 \<and> conv (next_state (of_nat i) d) = conv d"
    and echoing: "inv d \<Longrightarrow> left_time d = 0 \<Longrightarrow> tx \<in> {MSP_PROTO_CONV_TEST, MSP_PROTO_RESET - 1} \<Longrightarrow>
      reply (next_state tx d) = ucast tx + 1 \<and> left_time (next_state tx d) = 0 \<and> conv (next_state tx d) = conv d"
    and sixteen: "inv d \<Longrightarrow> length (outcome n) = 16"
begin

lemma wait_returns:
  assumes "inv d" "reply d = 0xef"
  shows "\<exists>d'. wait_conversion ops d = Some (Inr 0xa6, d') \<and> inv d' \<and> left_time d' = 0 \<and> reply d' = 0xa6 \<and> conv d' = conv d"
  using assms
proof (induction "left_time d" arbitrary: d rule: less_induct)
  case less
  let ?d = "next_state MSP_PROTO_CONV_TEST d"
  have step: "wait_conversion ops d = wait_conversion ops ?d"
    using less.prems by (subst wait_conversion.simps) (simp add: exchanges reg_defs)
  show ?case
  proof (cases "left_time d = 0")
    case False
    then have d: "reply ?d = 0xef" "left_time ?d < left_time d" "conv ?d = conv d" using converting less.prems by simp_all
    show ?thesis using less.hyps [OF d(2) keeps [OF less.prems(1)] d(1)] unfolding step d(3) .
  next
    case True
    let ?e = "next_state MSP_PROTO_CONV_TEST ?d"
    have d: "reply ?d = 0xa6" "left_time ?d = 0" "inv ?d" "conv ?d = conv d"
      using echoing [OF less.prems(1) True, of MSP_PROTO_CONV_TEST] keeps less.prems(1) by (simp_all add: reg_defs)
    have "wait_conversion ops ?d = Some (Inr 0xa6, ?e)"
      using d by (subst wait_conversion.simps) (simp add: exchanges reg_defs)
    moreover have "reply ?e = 0xa6" "left_time ?e = 0" "inv ?e" "conv ?e = conv d"
      using echoing [OF d(3,2), of MSP_PROTO_CONV_TEST] keeps d(3,4) by (simp_all add: reg_defs)
    ultimately show ?thesis unfolding step by blast
  qed
qed

text \<open>Reading from the index \<open>j\<close> on, the byte \<open>j\<close> of the result \<open>bs\<close> being ready.\<close>

lemma read_bytes_from:
  assumes "inv d" "left_time d = 0" "j + n = 15" "outcome (conv d) = bs" "reply d = bs ! j" "buf = map ucast (take j bs)"
  shows "\<exists>d'. read_bytes ops (map (\<lambda>j. of_nat j + 1) [j..<15] @ [MSP_PROTO_RESET - 1]) buf d =
      (Inr (map ucast bs), d') \<and> inv d' \<and> left_time d' = 0 \<and> reply d' = 0xaa \<and> conv d' = conv d"
  using assms
proof (induction n arbitrary: j d buf)
  case (0 j)
  let ?d = "next_state (MSP_PROTO_RESET - 1) d"
  have j: "j = 15" and l: "length bs = 16" using sixteen 0 by auto
  have e: "take 16 bs = take 15 bs @ [bs ! 15]"
    using l take_Suc_conv_app_nth [of 15 bs] by simp
  have "map ucast (take 16 bs) = buf @ [ucast (reply d)]" using 0(5,6) by (simp add: e j)
  then have b: "buf @ [ucast (reply d)] = map ucast bs" using l by simp
  have "read_bytes ops [MSP_PROTO_RESET - 1] buf d = (Inr (map ucast bs), ?d)"
    by (simp only: read_bytes.simps exchanges [OF 0(1)] case_prod_conv sum.case b)
  moreover have "reply ?d = 0xaa" "left_time ?d = 0" "conv ?d = conv d" "inv ?d"
    using echoing [OF 0(1,2), of "MSP_PROTO_RESET - 1"] keeps [OF 0(1)] by (simp_all add: reg_defs)
  ultimately show ?case by (simp add: j)
next
  case (Suc n j)
  let ?d = "next_state (of_nat (Suc j)) d"
  have l: "length bs = 16" and j: "Suc j < 16" "[j..<15] = j # [Suc j..<15]"
    using sixteen Suc.prems by (auto simp add: upt_conv_Cons)
  have d: "reply ?d = bs ! Suc j" "left_time ?d = 0" "conv ?d = conv d" "inv ?d"
    using indexing [OF Suc.prems(1,2) j(1)] keeps [OF Suc.prems(1)] Suc.prems(4) by simp_all
  have b: "buf @ [ucast (reply d)] = map ucast (take (Suc j) bs)"
    using Suc.prems(5,6) l j(1) take_Suc_conv_app_nth [of j bs] by simp
  have IH: "\<exists>d'. read_bytes ops (map (\<lambda>j. of_nat j + 1) [Suc j..<15] @ [MSP_PROTO_RESET - 1]) (buf @ [ucast (reply d)]) ?d =
      (Inr (map ucast bs), d') \<and> inv d' \<and> left_time d' = 0 \<and> reply d' = 0xaa \<and> conv d' = conv ?d"
    using d b Suc.prems(3,4) by (intro Suc.IH) simp_all
  have e: "of_nat j + 1 = (of_nat (Suc j) :: u32)" by simp
  show ?case
    using IH unfolding j(2) list.map append_Cons read_bytes.simps e exchanges [OF Suc.prems(1)] case_prod_conv sum.case d(3)
    by blast
qed

lemma transfer_returns:
  assumes "inv d" "reply d = 0xaa"
  shows "\<exists>d'. msp_transfer ops 0 d = Some (32, msp_transform (map ucast (outcome (conv d'))), d') \<and>
    inv d' \<and> left_time d' = 0 \<and> reply d' = 0xaa \<and> conv d' = conv d + (if left_time d = 0 then 1 else 0)"
proof -
  let ?d1 = "next_state MSP_PROTO_CONV_START d"
  have d1: "inv ?d1" "reply ?d1 = 0xef" "conv ?d1 = conv d + (if left_time d = 0 then 1 else 0)"
    using keeps converting starting assms by (cases "left_time d = 0"; simp)+
  have e1: "exchange_expect ops MSP_PROTO_CONV_START MSP_PROTO_RESET d = (0, ?d1)"
    using assms by (simp add: exchange_expect_def exchanges check_protocol_def reg_defs)
  obtain d2 where d2: "wait_conversion ops ?d1 = Some (Inr 0xa6, d2)" "inv d2" "left_time d2 = 0" "reply d2 = 0xa6"
    "conv d2 = conv ?d1"
    using wait_returns [OF d1(1,2)] by blast
  let ?d3 = "next_state 0 d2"
  have e3: "exchange_expect ops 0 (MSP_PROTO_CONV_TEST + 1) d2 = (0, ?d3)"
    using d2 by (simp add: exchange_expect_def exchanges check_protocol_def reg_defs)
  have d3: "reply ?d3 = outcome (conv ?d3) ! 0" "left_time ?d3 = 0" "conv ?d3 = conv d2" "inv ?d3"
    using indexing [OF d2(2,3), of 0] keeps [OF d2(2)] by simp_all
  obtain d4 where d4: "read_bytes ops (map (\<lambda>j. of_nat j + 1) [0..<15] @ [MSP_PROTO_RESET - 1]) [] ?d3 =
      (Inr (map ucast (outcome (conv ?d3))), d4)" "inv d4" "left_time d4 = 0" "reply d4 = 0xaa" "conv d4 = conv ?d3"
    using read_bytes_from [OF d3(4,2), of 0 15 "outcome (conv ?d3)" "[]"] d3(1) by auto
  have t: "MSP_PROTO_CONV_TEST + 1 = 166" by (simp add: reg_defs)
  have "msp_transfer ops 0 d = Some (32, msp_transform (map ucast (outcome (conv d4))), d4)"
    unfolding msp_transfer_def e1 t using d2(1) e3 [unfolded t] d4(1,5)
    by (simp add: check_protocol_def msp_atom_bytes_def del: upt_Suc)
  then show ?thesis using d4(2-5) d3(3) d2(5) d1(3) by simp
qed

text \<open>\<open>n\<close> reads, one after another, return the results of consecutive conversions.\<close>

lemma reads_return:
  assumes "inv d" "reply d = 0xaa" "left_time d = 0"
  shows "msp_reads ops n d = Some (map (\<lambda>k. (32, msp_transform (map ucast (outcome (Suc (conv d + k)))))) [0..<n])"
  using assms
proof (induction n arbitrary: d)
  case (Suc n)
  obtain d' where d': "msp_transfer ops 0 d = Some (32, msp_transform (map ucast (outcome (conv d'))), d')" "inv d'"
    "reply d' = 0xaa" "left_time d' = 0" "conv d' = Suc (conv d)"
    using transfer_returns [OF Suc.prems(1,2)] Suc.prems(3) by auto
  show ?case
    using d' Suc.IH [OF d'(2-4)]
    by (simp add: msp_read_def msp_atom_bytes_def map_Suc_upt [symmetric] upt_conv_Cons comp_def del: upt_Suc)
qed simp

end

section \<open>The firmware keeps the protocol\<close>

text \<open>
  The microcontroller seen from the port and the reset register: its firmware, the byte received last, the
  number of the conversion started last, the pauses until it ends, and whether it is held in reset.
  \<open>samples n\<close> are the eight results of conversion \<open>n\<close> and \<open>duration n\<close> the pauses it takes, whatever
  they are. The bit \<open>MRR_NMI\<close> drives the reset pin, low being active; when it rises the main program
  starts, and is ready by the next exchange: the driver pauses twice.
\<close>

record msp430 =
  fw :: firmware
  rx_latch :: u8
  conversions :: nat
  time_left :: nat
  in_reset :: bool

definition mcu_start :: "(nat \<Rightarrow> nat) \<Rightarrow> msp430 \<Rightarrow> msp430" where
  "mcu_start duration d = d\<lparr>time_left := Suc (duration (Suc (conversions d))), conversions := Suc (conversions d)\<rparr>"

text \<open>A byte: both ends get the other's, the interrupt runs, and the main loop if it was woken.\<close>

definition mcu_receive :: "(nat \<Rightarrow> nat) \<Rightarrow> u32 \<Rightarrow> msp430 \<Rightarrow> msp430" where
  "mcu_receive duration tx d =
     (let slept = asleep (fw d);
          d = d\<lparr>rx_latch := U0TXBUF (fw d), fw := rx_isr (ucast tx) (fw d)\<rparr>
      in if slept \<and> \<not> asleep (fw d) then mcu_start duration (d\<lparr>fw := fw_woken (fw d)\<rparr>) else d)"

definition mcu_pause :: "(nat \<Rightarrow> u16 list) \<Rightarrow> msp430 \<Rightarrow> msp430" where
  "mcu_pause samples d =
     (if time_left d = 0 then d
      else if time_left d = 1
      then d\<lparr>time_left := 0, fw := fw_converted (samples (conversions d)) (fw d)\<rparr>
      else d\<lparr>time_left := time_left d - 1\<rparr>)"

definition mcu_reset_write :: "(nat \<Rightarrow> nat) \<Rightarrow> u8 \<Rightarrow> msp430 \<Rightarrow> msp430" where
  "mcu_reset_write duration v d =
     (if v AND MRR_NMI = 0 then d\<lparr>in_reset := True, time_left := 0\<rparr>
      else if in_reset d then mcu_start duration (d\<lparr>fw := fw_main, in_reset := False\<rparr>)
      else d)"

definition mcu_ops :: "(nat \<Rightarrow> u16 list) \<Rightarrow> (nat \<Rightarrow> nat) \<Rightarrow> msp430 ssp_ops" where
  "mcu_ops samples duration =
     \<lparr>put_ssdr = mcu_receive duration, get_sssr = (\<lambda>d. (SSSR_RNE, d)), get_ssdr = (\<lambda>d. (ucast (rx_latch d), d)),
      iowrite8 = mcu_reset_write duration, pause = mcu_pause samples\<rparr>"

text \<open>Conversions give eight results, and one is running exactly while there are no data.\<close>

definition mcu_inv :: "(nat \<Rightarrow> u16 list) \<Rightarrow> msp430 \<Rightarrow> bool" where
  "mcu_inv samples d \<longleftrightarrow> (\<forall>n. length (samples n) = 8) \<and>
     (if time_left d = 0 then \<not> no_data (fw d) \<and> asleep (fw d) \<and> byte_data (fw d) = short_bytes (samples (conversions d))
      else no_data (fw d) \<and> \<not> asleep (fw d))"

definition mcu_next :: "(nat \<Rightarrow> u16 list) \<Rightarrow> (nat \<Rightarrow> nat) \<Rightarrow> u32 \<Rightarrow> msp430 \<Rightarrow> msp430" where
  "mcu_next samples duration tx d = mcu_pause samples (mcu_pause samples (mcu_receive duration tx d))"

lemma length_short_bytes [simp]: "length (short_bytes xs) = 2 * length xs"
  by (induction xs) (simp_all add: short_bytes_def)

lemma pause_frame [simp]:
  "U0TXBUF (fw (mcu_pause samples d)) = U0TXBUF (fw d)" "rx_latch (mcu_pause samples d) = rx_latch d"
  "conversions (mcu_pause samples d) = conversions d" "time_left (mcu_pause samples d) = time_left d - 1"
  by (simp_all add: mcu_pause_def fw_converted_def)

lemma pause_idle: "time_left d = 0 \<Longrightarrow> mcu_pause samples d = d"
  by (simp add: mcu_pause_def)

lemma pause_inv: "mcu_inv samples d \<Longrightarrow> mcu_inv samples (mcu_pause samples d)"
  by (auto simp: mcu_inv_def mcu_pause_def fw_converted_def)

lemma receive_cases:
  assumes "mcu_inv samples d"
  shows "time_left d > 0 \<Longrightarrow> mcu_receive duration tx d = d\<lparr>rx_latch := U0TXBUF (fw d), fw := (fw d)\<lparr>U0TXBUF := 0xef\<rparr>\<rparr>"
    and "time_left d = 0 \<Longrightarrow> ucast tx = (16 :: u8) \<Longrightarrow> mcu_receive duration tx d =
      mcu_start duration (d\<lparr>rx_latch := U0TXBUF (fw d), fw := (fw d)\<lparr>U0TXBUF := 0xef, no_data := True, asleep := False\<rparr>\<rparr>)"
    and "time_left d = 0 \<Longrightarrow> ucast tx \<noteq> (16 :: u8) \<Longrightarrow> mcu_receive duration tx d =
      d\<lparr>rx_latch := U0TXBUF (fw d), fw := (fw d)\<lparr>U0TXBUF :=
        (if ucast tx \<le> (15 :: u8) then byte_data (fw d) ! unat (ucast tx :: u8) else ucast tx + 1)\<rparr>\<rparr>"
  using assms by (simp_all add: mcu_receive_def rx_isr_def fw_woken_def mcu_inv_def Let_def)

lemma receive_inv:
  assumes "mcu_inv samples d"
  shows "mcu_inv samples (mcu_receive duration tx d)"
proof -
  consider "time_left d > 0" | "time_left d = 0" "ucast tx = (16 :: u8)" | "time_left d = 0" "ucast tx \<noteq> (16 :: u8)"
    by blast
  then show ?thesis
    using assms by cases (simp_all add: receive_cases [OF assms] mcu_inv_def mcu_start_def)
qed

lemma small_index: "i < 16 \<Longrightarrow> ucast (of_nat i :: u32) \<le> (15 :: u8) \<and> unat (ucast (of_nat i :: u32) :: u8) = i \<and> ucast (of_nat i :: u32) \<noteq> (16 :: u8)"
proof -
  assume i: "i < 16"
  then have u: "unat (ucast (of_nat i :: u32) :: u8) = i" by (simp add: unsigned_ucast_eq unsigned_of_nat take_bit_nat_eq_self)
  then show ?thesis using i by (auto simp: word_le_nat_alt)
qed

lemma exchange_mcu:
  "ssp_exchange (mcu_ops samples duration) tx d = (Inr (ucast (U0TXBUF (fw d))), mcu_next samples duration tx d)"
proof -
  have rx: "rx_latch (mcu_receive duration tx d) = U0TXBUF (fw d)"
    by (simp add: mcu_receive_def Let_def mcu_start_def)
  have m: "(0xFFFF :: u32) = mask 16" by (simp add: mask_eq_exp_minus_1)
  have "(ucast b :: u32) AND 0xFFFF = ucast b" for b :: u8
    unfolding m by (rule bit_word_eqI) (auto simp: bit_simps dest: bit_imp_le_length)
  then show ?thesis by (simp add: ssp_exchange_def mcu_ops_def mcu_next_def rx SSSR_RNE_def)
qed

interpretation mcu: msp_slave "mcu_ops samples duration" "mcu_inv samples" "\<lambda>d. U0TXBUF (fw d)" time_left
  conversions "\<lambda>n. short_bytes (samples n)" "mcu_next samples duration"
proof unfold_locales
  fix d tx assume inv: "mcu_inv samples d"
  show "ssp_exchange (mcu_ops samples duration) tx d = (Inr (ucast (U0TXBUF (fw d))), mcu_next samples duration tx d)"
    by (rule exchange_mcu)
  show "mcu_inv samples (mcu_next samples duration tx d)"
    unfolding mcu_next_def using inv by (intro pause_inv receive_inv)
  show "U0TXBUF (fw (mcu_next samples duration tx d)) = 0xef \<and>
      time_left (mcu_next samples duration tx d) < time_left d \<and> conversions (mcu_next samples duration tx d) = conversions d"
    if "0 < time_left d"
    using that receive_cases(1) [OF inv that] by (simp add: mcu_next_def)
  show "length (short_bytes (samples n)) = 16" for n using inv by (simp add: mcu_inv_def)
next
  fix d assume inv: "mcu_inv samples d" and t: "time_left d = 0"
  show "U0TXBUF (fw (mcu_next samples duration MSP_PROTO_CONV_START d)) = 0xef \<and>
      conversions (mcu_next samples duration MSP_PROTO_CONV_START d) = Suc (conversions d)"
    using receive_cases(2) [OF inv t, of MSP_PROTO_CONV_START duration]
    by (simp add: mcu_next_def MSP_PROTO_CONV_START_def mcu_start_def)
next
  fix d :: msp430 and i :: nat assume inv: "mcu_inv samples d" and t: "time_left d = 0" and i: "i < 16"
  show "U0TXBUF (fw (mcu_next samples duration (of_nat i) d)) = short_bytes (samples (conversions d)) ! i \<and>
    time_left (mcu_next samples duration (of_nat i) d) = 0 \<and>
    conversions (mcu_next samples duration (of_nat i) d) = conversions d"
    using receive_cases(3) [OF inv t, of "of_nat i" duration] small_index [OF i] t inv
    by (simp add: mcu_next_def pause_idle mcu_inv_def)
next
  fix d :: msp430 and tx assume inv: "mcu_inv samples d" and t: "time_left d = 0"
    and tx: "tx \<in> {MSP_PROTO_CONV_TEST, MSP_PROTO_RESET - 1}"
  show "U0TXBUF (fw (mcu_next samples duration tx d)) = ucast tx + 1 \<and>
    time_left (mcu_next samples duration tx d) = 0 \<and> conversions (mcu_next samples duration tx d) = conversions d"
    using receive_cases(3) [OF inv t, of tx duration] tx t
    by (auto simp: mcu_next_def pause_idle reg_defs)
qed

section \<open>Voltages\<close>

text \<open>The voltages in millivolts of the eight 12-bit results, in unbounded arithmetic.\<close>

definition millivolts :: "u16 list \<Rightarrow> int list" where
  "millivolts xs =
     (let v = map2 (\<lambda>x (num, denom). uint x * 2500 div 4096 * num div denom) xs res_coeff
      in v[6 := v ! 6 - v ! 5 * 1500 div 1000, 7 := v ! 7 - 8250])"

lemma wrap32_small: "- (2 ^ 31) \<le> x \<Longrightarrow> x < 2 ^ 31 \<Longrightarrow> wrap32 x = x"
  by (simp add: wrap32_def signed_take_bit_int_eq_self)

lemma wrap32_nonneg: "0 \<le> x \<Longrightarrow> x < 2 ^ 31 \<Longrightarrow> wrap32 x = x"
  by (rule wrap32_small) simp_all

lemma nth_short_bytes:
  "i < length xs \<Longrightarrow> short_bytes xs ! (2 * i) = ucast (xs ! i) \<and> short_bytes xs ! Suc (2 * i) = ucast (drop_bit 8 (xs ! i))"
proof (induction xs arbitrary: i)
  case (Cons x xs)
  then show ?case by (cases i) (simp_all add: short_bytes_def)
qed simp

lemma join_bytes: "push_bit 8 (ucast (ucast (drop_bit 8 x) :: u8)) OR ucast (ucast x :: u8) = (ucast (x :: u16) :: u32)"
proof (rule bit_word_eqI)
  fix n assume "n < LENGTH(32)"
  have "bit x n \<Longrightarrow> n < 16" by (auto dest: bit_imp_le_length)
  then show "bit (push_bit 8 (ucast (ucast (drop_bit 8 x) :: u8)) OR ucast (ucast x :: u8) :: u32) n = bit (ucast x :: u32) n"
    by (auto simp: bit_simps not_less)
qed

text \<open>No product leaves the 32 bits.\<close>

lemma scaled_bounds:
  fixes x :: int
  assumes "0 \<le> x" "x < 4096" "i < 8"
  shows "x * 2500 div 4096 * fst (res_coeff ! i) \<in> {0..<4000000}" "0 < snd (res_coeff ! i)"
    "x * 2500 div 4096 * fst (res_coeff ! i) div snd (res_coeff ! i) \<in> {0..<16000}"
proof -
  have v: "0 \<le> x * 2500 div 4096" "x * 2500 div 4096 < 2500" using assms by linarith+
  have "i \<in> set [0..<8]" using assms(3) by simp
  then show "x * 2500 div 4096 * fst (res_coeff ! i) \<in> {0..<4000000}" "0 < snd (res_coeff ! i)"
    "x * 2500 div 4096 * fst (res_coeff ! i) div snd (res_coeff ! i) \<in> {0..<16000}"
    using v by (auto simp: upt_rec res_coeff_def; linarith)+
qed

lemma sdiv_nonneg: "0 \<le> a \<Longrightarrow> 0 < b \<Longrightarrow> a sdiv b = a div (b :: int)"
  by (simp add: signed_divide_int_def sgn_if)

lemma scale_voltage_millivolts:
  assumes "i < 8" "length xs = 8" "xs ! i < 4096"
  shows "scale_voltage (map ucast (short_bytes xs)) i =
    uint (xs ! i) * 2500 div 4096 * fst (res_coeff ! i) div snd (res_coeff ! i)"
proof -
  let ?x = "uint (xs ! i)"
  have x: "0 \<le> ?x" "?x < 4096" using assms(3) by (simp_all add: word_less_def)
  have "sint (ucast (xs ! i) :: u32) = ?x"
    using x wrap32_small [OF order_trans [of _ 0 ?x]] by (simp add: sint_uint unsigned_ucast_eq take_bit_int_eq_self wrap32_def)
  then have "sint (push_bit 8 (map ucast (short_bytes xs) ! (2 * i + 1)) OR map ucast (short_bytes xs) ! (2 * i) :: u32) = ?x"
    using nth_short_bytes [of i xs] assms(1,2) by (simp add: join_bytes)
  moreover have "wrap32 (?x * 2500) sdiv 4096 = ?x * 2500 div 4096"
    using x by (subst wrap32_nonneg) (auto simp: sdiv_nonneg)
  moreover have "wrap32 (?x * 2500 div 4096 * fst (res_coeff ! i)) sdiv snd (res_coeff ! i) =
      ?x * 2500 div 4096 * fst (res_coeff ! i) div snd (res_coeff ! i)"
    using scaled_bounds(1,2) [OF x assms(1)] by (subst wrap32_nonneg) (auto simp: sdiv_nonneg)
  ultimately show ?thesis
    by (simp only: scale_voltage_def Let_def MSP_ADC_VREF_def MSP_ADC_RANGE_def) simp
qed

lemma last_two:
  fixes f :: "nat \<Rightarrow> int"
  assumes "wrap32 (f 5 * 1500) = f 5 * 1500" "wrap32 (f 6 - f 5 * 1500 div 1000) = f 6 - f 5 * 1500 div 1000"
    "wrap32 (f 7 - 8250) = f 7 - 8250" "0 \<le> f 5"
  shows "(let v = map f [0..<8]; v = v[6 := wrap32 (v ! 6 - wrap32 (v ! 5 * 1500) sdiv 1000)] in v[7 := wrap32 (v ! 7 - 8250)]) =
    (let v = map f [0..<8] in v[6 := v ! 6 - v ! 5 * 1500 div 1000, 7 := v ! 7 - 8250])"
  using assms by (simp add: Let_def sdiv_nonneg del: upt_Suc)

lemma transform_millivolts:
  assumes "length xs = 8" "list_all (\<lambda>x. x < 4096) xs"
  shows "msp_transform (map ucast (short_bytes xs)) = millivolts xs"
proof -
  let ?v = "\<lambda>i. uint (xs ! i) * 2500 div 4096 * fst (res_coeff ! i) div snd (res_coeff ! i)"
  have e: "scale_voltage (map ucast (short_bytes xs)) i = ?v i" if "i < 8" for i
    using scale_voltage_millivolts [of i xs] assms that by (simp add: list_all_length)
  have b: "?v i \<in> {0..<16000}" if "i < 8" for i
    using scaled_bounds(3) [of "uint (xs ! i)" i] assms that by (simp add: list_all_length word_less_def)
  have m: "map2 (\<lambda>x (num, denom). uint x * 2500 div 4096 * num div denom) xs res_coeff = map ?v [0..<8]"
    using assms(1) by (intro nth_equalityI) (auto simp: res_coeff_def split: prod.split)
  have s: "map (scale_voltage (map ucast (short_bytes xs))) [0..<8] = map ?v [0..<8]" using e by simp
  have w: "wrap32 (?v 5 * 1500) = ?v 5 * 1500" "wrap32 (?v 6 - ?v 5 * 1500 div 1000) = ?v 6 - ?v 5 * 1500 div 1000"
    "wrap32 (?v 7 - 8250) = ?v 7 - 8250" "0 \<le> ?v 5"
    using b [of 5] b [of 6] b [of 7] by (auto intro!: wrap32_small)
  have c: "(5500 * 1500 :: int) sdiv 1000 = 8250" by (simp add: sdiv_nonneg)
  show ?thesis
    unfolding msp_transform_def millivolts_def s m c by (rule last_two [OF w])
qed

section \<open>Reading after a reset\<close>

lemma reset_writes:
  "(MRR_PGM OR MRR_TCK) AND NOT MRR_NMI = 6" "MRR_PGM OR MRR_TCK OR MRR_NMI = 7" "(MRR_NMI OR MRR_TCK) AND NOT MRR_PGM = 3"
  by (simp_all add: reg_defs)

lemma write_nmi [simp]:
  "mcu_reset_write duration 6 d = d\<lparr>in_reset := True, time_left := 0\<rparr>"
  "in_reset d \<Longrightarrow> mcu_reset_write duration 7 d = mcu_start duration (d\<lparr>fw := fw_main, in_reset := False\<rparr>)"
  "\<not> in_reset d \<Longrightarrow> mcu_reset_write duration 3 d = d"
  by (simp_all add: mcu_reset_write_def MRR_NMI_def)

lemma held_pause [simp]: "in_reset (mcu_pause samples d) = in_reset d" "in_reset (mcu_start duration d) = in_reset d"
  by (simp_all add: mcu_pause_def mcu_start_def)

lemma reset_steps:
  "msp_reset (mcu_ops samples duration) d =
     mcu_pause samples (mcu_pause samples (mcu_start duration (d\<lparr>time_left := 0, fw := fw_main, in_reset := False\<rparr>)))"
  by (simp add: msp_reset_def mcu_ops_def Let_def reset_writes pause_idle)

lemma reset_mcu:
  assumes "\<forall>n. length (samples n) = 8"
  shows "mcu_inv samples (msp_reset (mcu_ops samples duration) d)"
    "U0TXBUF (fw (msp_reset (mcu_ops samples duration) d)) = 0xaa"
    "conversions (msp_reset (mcu_ops samples duration) d) = Suc (conversions d)"
  using assms unfolding reset_steps by (intro pause_inv) (simp_all add: mcu_start_def mcu_inv_def fw_main_def)

text \<open>The conversion after the reset may still run when the first read starts, which then returns it.\<close>

lemma reads_after_reset:
  assumes "\<forall>n. length (samples n) = 8"
  shows "\<exists>c \<in> {1, 2}. msp_reads (mcu_ops samples duration) n (msp_reset (mcu_ops samples duration) d) =
    Some (map (\<lambda>k. (32, msp_transform (map ucast (short_bytes (samples (conversions d + c + k)))))) [0..<n])"
proof (cases n)
  case (Suc m)
  let ?ops = "mcu_ops samples duration" and ?e = "msp_reset (mcu_ops samples duration) d"
  let ?c = "if time_left ?e = 0 then 2 else 1 :: nat"
  obtain d' where d': "msp_transfer ?ops 0 ?e = Some (32, msp_transform (map ucast (short_bytes (samples (conversions d')))), d')"
    "mcu_inv samples d'" "U0TXBUF (fw d') = 0xaa" "time_left d' = 0" "conversions d' = conversions d + ?c"
    using mcu.transfer_returns [of samples ?e duration] reset_mcu [OF assms, of duration d] by auto
  have "msp_reads ?ops n ?e =
      Some (map (\<lambda>k. (32, msp_transform (map ucast (short_bytes (samples (conversions d + ?c + k)))))) [0..<n])"
    using d' mcu.reads_return [OF d'(2-4), of duration m]
    by (simp add: Suc msp_read_def msp_atom_bytes_def map_Suc_upt [symmetric] upt_conv_Cons comp_def del: upt_Suc)
  then show ?thesis by (intro bexI [of _ ?c]) auto
qed auto



text \<open>The next \<open>n\<close> reads succeed, with the voltages of consecutive conversions.\<close>

definition delivers :: "(nat \<Rightarrow> u16 list) \<Rightarrow> (nat \<Rightarrow> nat) \<Rightarrow> nat \<Rightarrow> msp430 \<Rightarrow> bool" where
  "delivers samples duration n d \<longleftrightarrow> (\<exists>c. msp_reads (mcu_ops samples duration) n d =
     Some (map (\<lambda>k. (32, msp_transform (map ucast (short_bytes (samples (c + k)))))) [0..<n]))"



section \<open>Loading and unloading the driver\<close>

text \<open>
  What the driver holds while it is loaded, and what the kernel answers while it loads: the results of the
  calls that return an error number, and the pointers of the others. The kernel's \<^verbatim>\<open>request_mem_region\<close>
  and \<^verbatim>\<open>ioremap\<close> return a null pointer when they fail, \<^verbatim>\<open>class_create\<close> and \<^verbatim>\<open>device_create\<close> an
  error number cast to a pointer.
\<close>

datatype msp_resource = Ssp_port | Reset_region | Reset_mapping | Msp_chrdev | Msp_cdev | Msp_class | Msp_node

record msp_env =
  ssp_result :: int
  region_ptr :: u32
  mapping_ptr :: u32
  msp_chrdev_result :: int
  msp_cdev_result :: int
  msp_class_ptr :: u32
  msp_node_ptr :: u32

definition IS_ERR :: "u32 \<Rightarrow> bool" where
  "IS_ERR p = (- 4095 \<le> p)"

definition PTR_ERR :: "u32 \<Rightarrow> int" where
  "PTR_ERR p = sint p"

definition leave :: "int \<Rightarrow> msp_resource list \<Rightarrow> 'd \<Rightarrow> msp_resource list \<Rightarrow> (int \<times> 'd \<times> msp_resource list) option" where
  "leave ret rs d held = map_option (\<lambda>held. (ret, d, held)) (give_back_all rs held)"

text \<open>A write to the reset register through a null pointer stops the kernel: \<open>None\<close>.\<close>

definition initialise_msp :: "'d ssp_ops \<Rightarrow> msp_env \<Rightarrow> 'd \<Rightarrow> msp_resource list \<Rightarrow>
    (int \<times> 'd \<times> msp_resource list) option" where
  "initialise_msp ops env d held =
     (if ssp_result env < 0 then leave (ssp_result env) [] d held
      else
        let held = Ssp_port # held in
        if IS_ERR (region_ptr env) then leave (PTR_ERR (region_ptr env)) [Ssp_port] d held
        else
          let held = (if region_ptr env = 0 then held else Reset_region # held) in
          if IS_ERR (mapping_ptr env) then leave (PTR_ERR (mapping_ptr env)) [Reset_region, Ssp_port] d held
          else if mapping_ptr env = 0 then None
          else Some (0, msp_reset ops d, Reset_mapping # held))"

definition uninitialise_msp :: "msp_resource list \<Rightarrow> msp_resource list option" where
  "uninitialise_msp held = give_back_all [Reset_mapping, Reset_region, Ssp_port] held"

text \<open>The error exits of \<^verbatim>\<open>msp_init\<close>, which all go through \<^verbatim>\<open>uninitialise_msp\<close>.\<close>

definition msp_abandon :: "int \<Rightarrow> msp_resource list \<Rightarrow> 'd \<Rightarrow> msp_resource list \<Rightarrow>
    (int \<times> 'd \<times> msp_resource list) option" where
  "msp_abandon ret rs d held =
     map_option (\<lambda>held. (ret, d, held)) (Option.bind (give_back_all rs held) uninitialise_msp)"

definition msp_init :: "'d ssp_ops \<Rightarrow> msp_env \<Rightarrow> 'd \<Rightarrow> msp_resource list \<Rightarrow>
    (int \<times> 'd \<times> msp_resource list) option" where
  "msp_init ops env d held =
     Option.bind (initialise_msp ops env d held) (\<lambda>(ret, d, held).
       if ret < 0 then Some (ret, d, held)
       else if msp_chrdev_result env < 0 then msp_abandon (msp_chrdev_result env) [] d held
       else
         let held = Msp_chrdev # held in
         if msp_cdev_result env < 0 then msp_abandon (msp_cdev_result env) [Msp_chrdev] d held
         else
           let held = Msp_cdev # held in
           if IS_ERR (msp_class_ptr env) then msp_abandon (PTR_ERR (msp_class_ptr env)) [Msp_cdev, Msp_chrdev] d held
           else
             let held = Msp_class # held in
             if IS_ERR (msp_node_ptr env)
             then msp_abandon (PTR_ERR (msp_node_ptr env)) [Msp_class, Msp_cdev, Msp_chrdev] d held
             else Some (0, d, Msp_node # held))"

definition msp_exit :: "msp_resource list \<Rightarrow> msp_resource list option" where
  "msp_exit held = Option.bind (give_back_all [Msp_node, Msp_class, Msp_cdev, Msp_chrdev] held) uninitialise_msp"

definition msp_resources :: "msp_resource list" where
  "msp_resources = [Msp_node, Msp_class, Msp_cdev, Msp_chrdev, Reset_mapping, Reset_region, Ssp_port]"

text \<open>Every call of the kernel succeeds but perhaps those that return a null pointer on failure.\<close>

definition msp_env_ok :: "msp_env \<Rightarrow> bool" where
  "msp_env_ok env \<longleftrightarrow> 0 \<le> ssp_result env \<and> \<not> IS_ERR (region_ptr env) \<and> \<not> IS_ERR (mapping_ptr env) \<and>
     0 \<le> msp_chrdev_result env \<and> 0 \<le> msp_cdev_result env \<and> \<not> IS_ERR (msp_class_ptr env) \<and> \<not> IS_ERR (msp_node_ptr env)"

lemma PTR_ERR_negative: "IS_ERR p \<Longrightarrow> PTR_ERR p < 0"
proof -
  assume "IS_ERR p"
  then have "4294963201 \<le> uint p" by (simp add: IS_ERR_def word_le_def)
  then have "uint p div 2147483648 = 1" using uint_lt2p [of p] by simp
  then show ?thesis
    using uint_lt2p [of p] by (simp add: PTR_ERR_def sint_uint signed_take_bit_eq_take_bit_minus take_bit_int_eq_self bit_iff_odd)
qed

lemmas msp_load_defs = msp_init_def initialise_msp_def leave_def msp_abandon_def uninitialise_msp_def msp_exit_def
  msp_resources_def give_back_def

text \<open>
  When the register could be reserved and mapped, loading the driver takes every resource once and
  leaves the microcontroller reset, or fails with a negative error holding nothing; unloading gives
  everything back. But a reservation that failed, with a null pointer, is not noticed: the driver loads
  without holding the region, and its unloading releases what it does not hold; and a mapping that failed
  is written through.
\<close>

lemma msp_load_cases:
  "(region_ptr env \<noteq> 0 \<and> mapping_ptr env \<noteq> 0 \<longrightarrow>
     (\<exists>r d' h. msp_init ops env d [] = Some (r, d', h) \<and>
       (if msp_env_ok env then r = 0 \<and> d' = msp_reset ops d \<and> h = msp_resources \<and> msp_exit h = Some []
        else r < 0 \<and> h = []))) \<and>
   (msp_env_ok env \<and> region_ptr env = 0 \<and> mapping_ptr env \<noteq> 0 \<longrightarrow>
     msp_init ops env d [] = Some (0, msp_reset ops d, remove1 Reset_region msp_resources) \<and>
     msp_exit (remove1 Reset_region msp_resources) = None) \<and>
   (0 \<le> ssp_result env \<and> \<not> IS_ERR (region_ptr env) \<and> mapping_ptr env = 0 \<longrightarrow> msp_init ops env d [] = None)"
proof -
  have z: "\<not> IS_ERR 0" by (simp add: IS_ERR_def word_le_def)
  have n: "IS_ERR p \<Longrightarrow> p \<noteq> 0" for p using z by auto
  note S = msp_load_defs msp_env_ok_def Let_def not_le z PTR_ERR_negative
  show ?thesis
  proof (intro conjI impI)
    assume "region_ptr env \<noteq> 0 \<and> mapping_ptr env \<noteq> 0"
    then show "\<exists>r d' h. msp_init ops env d [] = Some (r, d', h) \<and>
       (if msp_env_ok env then r = 0 \<and> d' = msp_reset ops d \<and> h = msp_resources \<and> msp_exit h = Some []
        else r < 0 \<and> h = [])"
      by (cases "ssp_result env < 0", simp add: S, cases "IS_ERR (region_ptr env)", simp add: S,
          cases "IS_ERR (mapping_ptr env)", simp add: S, cases "msp_chrdev_result env < 0", simp add: S,
          cases "msp_cdev_result env < 0", simp add: S, cases "IS_ERR (msp_class_ptr env)", simp add: S,
          cases "IS_ERR (msp_node_ptr env)"; simp add: S)
  qed (simp_all add: S)
qed

end
