(* ===== verification/Mspload.thy ===== *)
theory Mspload
  imports Prelude "HOL-Library.Char_ord"
begin

text \<open>
  The loader of the microcontroller's firmware, \<^verbatim>\<open>drivers/msp430/adc/mspload.c\<close>: it drives the reset
  lines of the microcontroller, sends commands to its bootstrap loader over a serial line, and reads an
  Intel hex file from its standard input. Characters are unsigned, as they are on ARM. Messages and delays
  are left out.
\<close>

section \<open>State\<close>

text \<open>What the program does to the outside, in order: writes to the register and bytes to the line.\<close>

datatype load_event = Reg2 u8 | Tty u8

record loader =
  cks_l :: u8
  cks_h :: u8
  frame_lenght :: nat
  frame_done :: bool
  number_of_data_bytes :: u8
  address_h :: u8
  address_l :: u8
  S :: "u8 list"
  FRAME_BYTES :: "u8 list"
  StreamData :: u8
  stdin :: string
  events :: "load_event list"

definition loader_bss :: "string \<Rightarrow> loader" where
  "loader_bss cs = \<lparr>cks_l = 0, cks_h = 0, frame_lenght = 0, frame_done = False, number_of_data_bytes = 0,
     address_h = 0, address_l = 0, S = replicate 1024 0, FRAME_BYTES = replicate 270 0, StreamData = 0,
     stdin = cs, events = []\<rparr>"

definition PGM :: u8 where [reg_defs]: "PGM = 4"
definition TCK :: u8 where [reg_defs]: "TCK = 2"
definition RST_NMI :: u8 where [reg_defs]: "RST_NMI = 1"
definition BSL_SYNC :: u8 where [reg_defs]: "BSL_SYNC = 0x80"
definition BSL_TXPWORD :: u8 where [reg_defs]: "BSL_TXPWORD = 0x10"
definition BSL_TXBLK :: u8 where [reg_defs]: "BSL_TXBLK = 0x12"
definition BSL_MERAS :: u8 where [reg_defs]: "BSL_MERAS = 0x18"
definition BSL_LOADPC :: u8 where [reg_defs]: "BSL_LOADPC = 0x1A"

section \<open>Reset sequences\<close>

definition put_reg2 :: "u8 \<Rightarrow> loader \<Rightarrow> loader" where
  "put_reg2 v s = s\<lparr>events := events s @ [Reg2 v]\<rparr>"

definition Bootstrap_ON :: "loader \<Rightarrow> loader" where
  "Bootstrap_ON s =
     (let s = put_reg2 (PGM OR TCK OR RST_NMI) s;
          s = put_reg2 ((PGM OR TCK) AND NOT RST_NMI) s;
          s = put_reg2 (PGM AND NOT TCK AND NOT RST_NMI) s;
          s = put_reg2 ((PGM OR TCK) AND NOT RST_NMI) s;
          s = put_reg2 (PGM AND NOT TCK AND NOT RST_NMI) s;
          s = put_reg2 ((PGM AND NOT TCK) OR RST_NMI) s
      in put_reg2 (PGM OR TCK OR RST_NMI) s)"

definition Bootstrap_OFF :: "loader \<Rightarrow> loader" where
  "Bootstrap_OFF s = put_reg2 (NOT PGM AND (TCK OR RST_NMI)) s"

definition Reset_msp :: "loader \<Rightarrow> loader" where
  "Reset_msp s =
     (let s = put_reg2 ((PGM OR TCK) AND NOT RST_NMI) s;
          s = put_reg2 (PGM OR TCK OR RST_NMI) s
      in put_reg2 ((RST_NMI OR TCK) AND NOT PGM) s)"

section \<open>Frames\<close>

definition MSP_WRITE :: "loader \<Rightarrow> loader" where
  "MSP_WRITE s =
     (let s = (if frame_done s
               then s\<lparr>events := events s @ Tty 0x80 # map (\<lambda>i. Tty (FRAME_BYTES s ! i)) [0..<frame_lenght s]\<rparr>
               else s)
      in s\<lparr>frame_done := False\<rparr>)"

definition add_check :: "nat \<Rightarrow> loader \<Rightarrow> loader" where
  "add_check i s =
     (if i mod 2 = 0 then s\<lparr>cks_l := cks_l s XOR FRAME_BYTES s ! i\<rparr>
      else s\<lparr>cks_h := cks_h s XOR FRAME_BYTES s ! i\<rparr>)"

definition checksum :: "loader \<Rightarrow> loader" where
  "checksum s =
     (let s = fold add_check [0..<frame_lenght s] (s\<lparr>cks_l := 0, cks_h := 0\<rparr>);
          s = s\<lparr>FRAME_BYTES := (FRAME_BYTES s)[frame_lenght s := NOT (cks_l s), frame_lenght s + 1 := NOT (cks_h s)]\<rparr>
      in s\<lparr>frame_lenght := frame_lenght s + 2\<rparr>)"

text \<open>The loop that copies a frame into the buffer.\<close>

definition copy_frame :: "u8 list \<Rightarrow> loader \<Rightarrow> loader" where
  "copy_frame B s = s\<lparr>FRAME_BYTES := fold (\<lambda>l F. F[l := B ! l]) [0..<frame_lenght s] (FRAME_BYTES s)\<rparr>"

definition erase_mem :: "loader \<Rightarrow> loader" where
  "erase_mem s =
     (let s = s\<lparr>frame_lenght := 8\<rparr>;
          s = copy_frame [BSL_SYNC, BSL_MERAS, 0x04, 0x04, 0x00, 0x00, 0x00, 0x00] s;
          s = checksum s;
          s = s\<lparr>frame_lenght := 10\<rparr>
      in MSP_WRITE (s\<lparr>frame_done := True\<rparr>))"

definition passwd :: "loader \<Rightarrow> loader" where
  "passwd s =
     (let s = s\<lparr>frame_lenght := 40\<rparr>;
          s = copy_frame ([BSL_SYNC, BSL_TXPWORD, 0x24, 0x24, 0x00, 0x00, 0x00, 0x00] @ replicate 32 0xFF) s;
          s = checksum s
      in MSP_WRITE (s\<lparr>frame_done := True\<rparr>))"

definition load_PC_patch :: "loader \<Rightarrow> loader" where
  "load_PC_patch s =
     (let s = s\<lparr>frame_lenght := 8\<rparr>;
          s = copy_frame [BSL_SYNC, BSL_LOADPC, 0x4, 0x4, 0x20, 0x02, 0x00, 0x00] s;
          s = checksum s
      in MSP_WRITE (s\<lparr>frame_done := True\<rparr>))"

definition load_PC :: "loader \<Rightarrow> loader" where
  "load_PC s =
     (let s = s\<lparr>frame_lenght := 8\<rparr>;
          s = copy_frame [BSL_SYNC, BSL_LOADPC, 0x4, 0x4, 0x22, 0x0C, 0x00, 0x00] s;
          s = checksum s
      in MSP_WRITE (s\<lparr>frame_done := True\<rparr>))"

text \<open>Not called by the program; it sends what \<open>load_PC_patch\<close> sends.\<close>

definition load_PC2 :: "loader \<Rightarrow> loader" where
  "load_PC2 s =
     (let s = s\<lparr>frame_lenght := 8\<rparr>;
          s = copy_frame [BSL_SYNC, BSL_LOADPC, 0x4, 0x4, 0x20, 0x02, 0x00, 0x00] s;
          s = checksum s
      in MSP_WRITE (s\<lparr>frame_done := True\<rparr>))"

text \<open>The patch of the bootstrap loader that is sent to the microcontroller's RAM.\<close>

definition patch_code :: "u8 list" where
  "patch_code =
    [0x31, 0x40, 0x1A, 0x02, 0x09, 0x43, 0xB0, 0x12, 0x2A, 0x0E, 0xB0, 0x12, 0xBA, 0x0D, 0x55, 0x42,
     0x0B, 0x02, 0x75, 0x90, 0x12, 0x00, 0x1F, 0x24, 0xB0, 0x12, 0xBA, 0x02, 0x55, 0x42, 0x0B, 0x02,
     0x75, 0x90, 0x16, 0x00, 0x16, 0x24, 0x75, 0x90, 0x14, 0x00, 0x11, 0x24, 0xB0, 0x12, 0x84, 0x0E,
     0x06, 0x3C, 0xB0, 0x12, 0x94, 0x0E, 0x03, 0x3C, 0x21, 0x53, 0xB0, 0x12, 0x8C, 0x0E, 0xB2, 0x40,
     0x10, 0xA5, 0x2C, 0x01, 0xB2, 0x40, 0x00, 0xA5, 0x28, 0x01, 0x30, 0x40, 0x42, 0x0C, 0x30, 0x40,
     0x76, 0x0D, 0x30, 0x40, 0xAC, 0x0C, 0x16, 0x42, 0x0E, 0x02, 0x17, 0x42, 0x10, 0x02, 0xE2, 0xB2,
     0x08, 0x02, 0x14, 0x24, 0xB0, 0x12, 0x10, 0x0F, 0x36, 0x90, 0x00, 0x10, 0x06, 0x28, 0xB2, 0x40,
     0x00, 0xA5, 0x2C, 0x01, 0xB2, 0x40, 0x40, 0xA5, 0x28, 0x01, 0xD6, 0x42, 0x06, 0x02, 0x00, 0x00,
     0x16, 0x53, 0x17, 0x83, 0xEF, 0x23, 0xB0, 0x12, 0xBA, 0x02, 0xD3, 0x3F, 0xB0, 0x12, 0x10, 0x0F,
     0x17, 0x83, 0xFC, 0x23, 0xB0, 0x12, 0xBA, 0x02, 0xD0, 0x3F, 0x18, 0x42, 0x12, 0x02, 0xB0, 0x12,
     0x10, 0x0F, 0xD2, 0x42, 0x06, 0x02, 0x12, 0x02, 0xB0, 0x12, 0x10, 0x0F, 0xD2, 0x42, 0x06, 0x02,
     0x13, 0x02, 0x38, 0xE3, 0x18, 0x92, 0x12, 0x02, 0xBF, 0x23, 0xE2, 0xB3, 0x08, 0x02, 0xBC, 0x23,
     0x30, 0x41]"

definition load_PATCH :: "loader \<Rightarrow> loader" where
  "load_PATCH s =
     (let s = s\<lparr>frame_lenght := 202\<rparr>;
          s = copy_frame ([BSL_SYNC, BSL_TXBLK, 0xC6, 0xC6, 0x20, 0x02, 0xC2, 0] @ patch_code) s;
          s = checksum s
      in MSP_WRITE (s\<lparr>frame_done := True\<rparr>))"

definition frame_gen :: "loader \<Rightarrow> loader" where
  "frame_gen s =
     (let n = number_of_data_bytes s;
          A = [BSL_SYNC, BSL_TXBLK, n + 4, n + 4, address_l s, address_h s, n, 0] @ map (\<lambda>i. S s ! i) [0..<unat n];
          s = s\<lparr>frame_lenght := 8 + unat n\<rparr>;
          s = copy_frame A s;
          s = checksum s
      in MSP_WRITE (s\<lparr>frame_done := True\<rparr>))"

section \<open>Reading the file\<close>

definition is_space :: "char \<Rightarrow> bool" where
  "is_space c \<longleftrightarrow> c = CHR 0x20 \<or> (CHR 0x09 \<le> c \<and> c \<le> CHR 0x0D)"

definition hex_value :: "char \<Rightarrow> u8 option" where
  "hex_value c =
     (if CHR ''0'' \<le> c \<and> c \<le> CHR ''9'' then Some (of_char c - 48)
      else if CHR ''A'' \<le> c \<and> c \<le> CHR ''F'' then Some (of_char c - 55)
      else if CHR ''a'' \<le> c \<and> c \<le> CHR ''f'' then Some (of_char c - 87)
      else None)"

text \<open>
  The C library's conversion \<^verbatim>\<open>%02x\<close>: white space is skipped, then at most two characters make a number,
  a sign or the prefix \<^verbatim>\<open>0x\<close> among them. \<open>None\<close> is no number.
\<close>

definition scan_hex :: "string \<Rightarrow> (u8 \<times> string) option" where
  "scan_hex cs =
     (case dropWhile is_space cs of
        [] \<Rightarrow> None
      | c # cs \<Rightarrow>
          if c = CHR ''+'' \<or> c = CHR ''-'' then
            (case cs of
               [] \<Rightarrow> None
             | d # ds \<Rightarrow> map_option (\<lambda>v. (if c = CHR ''-'' then - v else v, ds)) (hex_value d))
          else
            Option.bind (hex_value c) (\<lambda>v.
              case cs of
                [] \<Rightarrow> Some (v, [])
              | d # ds \<Rightarrow>
                  if c = CHR ''0'' \<and> (d = CHR ''x'' \<or> d = CHR ''X'') then Some (0, ds)
                  else
                    case hex_value d of
                      None \<Rightarrow> Some (v, d # ds)
                    | Some w \<Rightarrow> Some (16 * v + w, ds)))"

text \<open>
  A result \<open>None\<close> is a run that never returns, or that goes on with a variable never set: \<^verbatim>\<open>read_byte\<close>
  ignores that there was no number.
\<close>

definition read_byte :: "loader \<Rightarrow> loader option" where
  "read_byte s = map_option (\<lambda>(b, cs). s\<lparr>StreamData := b, stdin := cs\<rparr>) (scan_hex (stdin s))"

text \<open>The loop to the next colon: at the end of the file the character stays what it was.\<close>

fun skip_to_colon :: "u8 \<Rightarrow> string \<Rightarrow> string option" where
  "skip_to_colon b [] = (if b = 58 then Some [] else None)"
| "skip_to_colon b (c # cs) = (if c = CHR '':'' then Some cs else skip_to_colon (of_char c) cs)"

text \<open>The data bytes of a line, from index \<open>k\<close> on.\<close>

fun read_data :: "nat \<Rightarrow> nat \<Rightarrow> loader \<Rightarrow> loader option" where
  "read_data 0 k s = Some s"
| "read_data (Suc n) k s =
     Option.bind (read_byte s) (\<lambda>s. read_data n (k + 1) (s\<lparr>S := (S s)[k := StreamData s]\<rparr>))"

definition read_line :: "loader \<Rightarrow> (int \<times> loader) option" where
  "read_line s =
     Option.bind (skip_to_colon (StreamData s) (stdin s)) (\<lambda>cs.
     Option.bind (read_byte (s\<lparr>StreamData := 58, stdin := cs\<rparr>)) (\<lambda>s.
       let s = s\<lparr>number_of_data_bytes := StreamData s\<rparr> in
       if number_of_data_bytes s = 0 then Some (1, s)
       else
         Option.bind (read_byte s) (\<lambda>s. let s = s\<lparr>address_h := StreamData s\<rparr> in
         Option.bind (read_byte s) (\<lambda>s. let s = s\<lparr>address_l := StreamData s\<rparr> in
         Option.bind (read_byte s) (\<lambda>s.
         Option.bind (read_data (unat (number_of_data_bytes s)) 0 s) (\<lambda>s.
         Option.bind (read_byte s) (\<lambda>s. Some (0, frame_gen s))))))))"

partial_function (option) read_lines :: "loader \<Rightarrow> loader option" where
  "read_lines s =
     Option.bind (read_line (load_PC_patch s)) (\<lambda>(r, s). if r = 0 then read_lines s else Some s)"

definition read_file :: "loader \<Rightarrow> loader option" where
  "read_file s = read_lines (load_PC_patch s)"

section \<open>The program\<close>

text \<open>
  \<open>args\<close> are the arguments after the program's name, and \<open>mapped\<close> tells whether the register could be
  mapped. \<open>Some\<close> carries the exit status.
\<close>

definition mspload :: "bool \<Rightarrow> string list \<Rightarrow> loader \<Rightarrow> (int \<times> loader) option" where
  "mspload mapped args s =
     (if \<not> mapped then Some (-1, s)
      else
        case args of
          (CHR ''e'' # _) # _ \<Rightarrow>
            let s = Bootstrap_ON s; s = erase_mem s; s = Bootstrap_OFF s in Some (0, Reset_msp s)
        | (CHR ''r'' # _) # _ \<Rightarrow> Some (0, Reset_msp s)
        | (CHR ''w'' # _) # _ \<Rightarrow>
            let s = Bootstrap_ON s; s = erase_mem s; s = Bootstrap_OFF s; s = Reset_msp s; s = Bootstrap_ON s;
                s = passwd s; s = load_PC s; s = passwd s; s = load_PATCH s; s = load_PC_patch s
            in map_option (\<lambda>s. (0, Reset_msp (Bootstrap_OFF s))) (read_file s)
        | _ \<Rightarrow> Some (0, s))"

section \<open>Frames sent\<close>

text \<open>
  The check bytes of a frame, before they are inverted: the exclusive or of the bytes at even and at odd
  positions. \<open>bsl_frame\<close> is a command with its body as it is to be sent, \<open>bsl_decode\<close> reads a sequence of
  frames, each after a byte for synchronisation, and refuses a wrong header, length or check.
\<close>

fun parities :: "u8 list \<Rightarrow> u8 \<times> u8" where
  "parities [] = (0, 0)"
| "parities (b # bs) = (b XOR snd (parities bs), fst (parities bs))"

definition bsl_head :: "u8 \<Rightarrow> u8 list \<Rightarrow> u8 list" where
  "bsl_head cmd body = [0x80, cmd, of_nat (length body), of_nat (length body)] @ body"

definition bsl_frame :: "u8 \<Rightarrow> u8 list \<Rightarrow> u8 list" where
  "bsl_frame cmd body = 0x80 # bsl_head cmd body @
     [NOT (fst (parities (bsl_head cmd body))), NOT (snd (parities (bsl_head cmd body)))]"

function (sequential) bsl_decode :: "u8 list \<Rightarrow> (u8 \<times> u8 list) list option" where
  "bsl_decode [] = Some []"
| "bsl_decode (y # h # cmd # n # m # bs) =
     (let body = take (unat n) bs; rest = drop (unat n) bs in
      if y = 0x80 \<and> h = 0x80 \<and> n = m \<and> length body = unat n \<and> 2 \<le> length rest \<and>
         (NOT (rest ! 0), NOT (rest ! 1)) = parities (h # cmd # n # m # body)
      then map_option ((#) (cmd, body)) (bsl_decode (drop 2 rest))
      else None)"
| "bsl_decode _ = None"
  by pat_completeness auto
termination by (relation "measure length") auto

lemma decode_frame:
  assumes "length body < 256"
  shows "bsl_decode (bsl_frame cmd body @ bs) = map_option ((#) (cmd, body)) (bsl_decode bs)"
  using assms by (simp add: bsl_frame_def bsl_head_def unsigned_of_nat take_bit_nat_eq_self Let_def)

lemma parities_snoc:
  "parities (bs @ [b]) =
     (if even (length bs) then (fst (parities bs) XOR b, snd (parities bs)) else (fst (parities bs), snd (parities bs) XOR b))"
  by (induction bs) (auto simp: xor.commute xor.left_commute)

section \<open>Sending a frame\<close>

lemma copy_prefix:
  "n \<le> length B \<Longrightarrow> n \<le> length F \<Longrightarrow> fold (\<lambda>l F. F[l := B ! l]) [0..<n] F = take n B @ drop n F"
proof (induction n)
  case (Suc n)
  then have "drop n F = F ! n # drop (Suc n) F" by (simp add: Cons_nth_drop_Suc)
  then show ?case using Suc by (simp add: take_Suc_conv_app_nth list_update_append)
qed simp

lemma add_checks:
  "n \<le> length (FRAME_BYTES s) \<Longrightarrow> fold add_check [0..<n] (s\<lparr>cks_l := 0, cks_h := 0\<rparr>) =
     s\<lparr>cks_l := fst (parities (take n (FRAME_BYTES s))), cks_h := snd (parities (take n (FRAME_BYTES s)))\<rparr>"
proof (induction n)
  case (Suc n)
  then show ?case
    by (simp add: add_check_def take_Suc_conv_app_nth parities_snoc even_iff_mod_2_eq_zero [symmetric])
qed simp

text \<open>Copying a frame, its check and its sending: the frame is sent with its check bytes, and only the buffer has changed.\<close>

definition same_input :: "loader \<Rightarrow> loader \<Rightarrow> bool" where
  "same_input s t \<longleftrightarrow> stdin t = stdin s \<and> StreamData t = StreamData s \<and> length (FRAME_BYTES t) = length (FRAME_BYTES s) \<and>
     S t = S s"

lemma frame_bytes_sent:
  assumes "length B = n" "n + 2 \<le> length F"
  shows "map (\<lambda>i. Tty ((B @ drop n F)[n := a, n + 1 := b] ! i)) [0..<n + 2] = map Tty (B @ [a, b])"
proof -
  have "(B @ drop n F)[n := a, n + 1 := b] ! i = (B @ [a, b]) ! i" if "i < n + 2" for i
    using assms that by (cases "i < n"; cases "i = n") (auto simp: nth_append nth_list_update)
  then have "map (\<lambda>i. Tty ((B @ drop n F)[n := a, n + 1 := b] ! i)) [0..<n + 2] =
      map (\<lambda>i. Tty ((B @ [a, b]) ! i)) [0..<n + 2]"
    by (intro map_cong) (simp_all del: upt_Suc)
  also have "\<dots> = map Tty (map ((!) (B @ [a, b])) [0..<length (B @ [a, b])])" using assms(1) by (simp add: comp_def del: upt_Suc)
  finally show ?thesis by (simp only: map_nth)
qed

lemma send_frame:
  assumes "length B = n" "n + 2 \<le> length (FRAME_BYTES s)" "t = checksum (copy_frame B (s\<lparr>frame_lenght := n\<rparr>))"
  shows "frame_lenght t = n + 2"
    "events (MSP_WRITE (t\<lparr>frame_done := True\<rparr>)) = events s @ map Tty (0x80 # B @ [NOT (fst (parities B)), NOT (snd (parities B))])"
    "same_input s (MSP_WRITE (t\<lparr>frame_done := True\<rparr>))"
proof -
  let ?a = "NOT (fst (parities B))" and ?b = "NOT (snd (parities B))"
  have c: "copy_frame B (s\<lparr>frame_lenght := n\<rparr>) = s\<lparr>frame_lenght := n, FRAME_BYTES := B @ drop n (FRAME_BYTES s)\<rparr>"
    using assms(1,2) by (simp add: copy_frame_def copy_prefix)
  have t: "t = s\<lparr>frame_lenght := n + 2, FRAME_BYTES := (B @ drop n (FRAME_BYTES s))[n := ?a, n + 1 := ?b],
      cks_l := fst (parities B), cks_h := snd (parities B)\<rparr>"
    using assms(1,2) unfolding assms(3) c checksum_def Let_def by (simp add: add_checks)
  show "frame_lenght t = n + 2" by (simp add: t)
  show "events (MSP_WRITE (t\<lparr>frame_done := True\<rparr>)) = events s @ map Tty (0x80 # B @ [?a, ?b])"
    using frame_bytes_sent [OF assms(1,2), of ?a ?b] by (simp add: t MSP_WRITE_def del: upt_Suc)
  show "same_input s (MSP_WRITE (t\<lparr>frame_done := True\<rparr>))"
    using assms(1,2) by (simp add: t MSP_WRITE_def same_input_def)
qed

text \<open>Each command of the program sends one frame.\<close>

definition sends :: "u8 \<Rightarrow> u8 list \<Rightarrow> (loader \<Rightarrow> loader) \<Rightarrow> bool" where
  "sends cmd body f \<longleftrightarrow> (\<forall>s. length (FRAME_BYTES s) = 270 \<longrightarrow>
     events (f s) = events s @ map Tty (bsl_frame cmd body) \<and> same_input s (f s))"

lemma bsl_head_length [simp]: "length (bsl_head cmd body) = length body + 4"
  by (simp add: bsl_head_def)

lemma sends_frame:
  assumes "\<And>s. f s = MSP_WRITE ((checksum (copy_frame (bsl_head cmd body) (s\<lparr>frame_lenght := length body + 4\<rparr>)))\<lparr>frame_done := True\<rparr>)"
    "length body \<le> 264"
  shows "sends cmd body f"
  unfolding sends_def assms(1) using assms(2) send_frame [OF bsl_head_length _ refl]
  by (simp add: bsl_frame_def)

lemma length_patch_code [simp]: "length patch_code = 194"
  by (simp add: patch_code_def)

lemma fixed_commands:
  "sends 0x10 ([0, 0, 0, 0] @ replicate 32 0xFF) passwd" "sends 0x1A [0x20, 0x02, 0, 0] load_PC_patch"
  "sends 0x1A [0x22, 0x0C, 0, 0] load_PC" "sends 0x12 ([0x20, 0x02, 0xC2, 0] @ patch_code) load_PATCH"
  by (rule sends_frame;
      simp add: passwd_def load_PC_patch_def load_PC_def load_PATCH_def bsl_head_def reg_defs Let_def)+

lemma frame_lenght_checks [simp]: "frame_lenght (fold add_check xs s) = frame_lenght s"
  by (induction xs arbitrary: s) (simp_all add: add_check_def)

lemma sends_erase: "sends 0x18 [0, 0, 0, 0] erase_mem"
proof (rule sends_frame)
  fix s
  let ?B = "[BSL_SYNC, BSL_MERAS, 4, 4, 0, 0, 0, 0] :: u8 list"
  let ?t = "checksum (copy_frame ?B (s\<lparr>frame_lenght := 8\<rparr>))"
  have "frame_lenght ?t = 10" by (simp add: checksum_def copy_frame_def Let_def)
  then have "?t\<lparr>frame_lenght := 10\<rparr> = ?t" by (cases ?t) simp
  then show "erase_mem s = MSP_WRITE ((checksum (copy_frame (bsl_head 0x18 [0, 0, 0, 0])
      (s\<lparr>frame_lenght := length [0, 0, 0, 0 :: u8] + 4\<rparr>)))\<lparr>frame_done := True\<rparr>)"
    by (simp add: erase_mem_def bsl_head_def reg_defs Let_def)
qed simp

lemma frame_gen_sends:
  assumes "length (FRAME_BYTES s) = 270" "number_of_data_bytes s = of_nat (length ds)" "length ds \<le> 251"
    "take (length ds) (S s) = ds"
  shows "events (frame_gen s) = events s @ map Tty (bsl_frame 0x12 ([address_l s, address_h s, of_nat (length ds), 0] @ ds)) \<and>
    same_input s (frame_gen s)"
proof -
  let ?body = "[address_l s, address_h s, of_nat (length ds), 0] @ ds"
  have u: "unat (of_nat (length ds) :: u8) = length ds"
    using assms(3) by (simp add: unsigned_of_nat take_bit_nat_eq_self)
  have l: "length ds \<le> length (S s)" using assms(4) by (metis length_take min.cobounded1 min_def)
  have "map ((!) (S s)) [0..<length ds] = take (length ds) (S s)" using l by (intro nth_equalityI) simp_all
  then have "map ((!) (S s)) [0..<length ds] = ds" by (simp only: assms(4))
  then have "frame_gen s = MSP_WRITE ((checksum (copy_frame (bsl_head 0x12 ?body) (s\<lparr>frame_lenght := length ?body + 4\<rparr>)))\<lparr>frame_done := True\<rparr>)"
    using assms(2) u by (simp add: frame_gen_def bsl_head_def reg_defs Let_def add.commute)
  then show ?thesis
    using send_frame [of "bsl_head 0x12 ?body" "length ?body + 4" s, OF bsl_head_length _ refl] assms(1,3) by (simp add: bsl_frame_def)
qed

section \<open>Reading\<close>

definition hex_digit :: "u8 \<Rightarrow> char" where
  "hex_digit v = char_of (if v < 10 then unat v + 48 else unat v + 55)"

definition hex_byte :: "u8 \<Rightarrow> string" where
  "hex_byte b = [hex_digit (b div 16), hex_digit (b mod 16)]"

lemma hex_digits:
  "list_all (\<lambda>v. hex_value (hex_digit v) = Some v \<and> \<not> is_space (hex_digit v) \<and>
     list_all ((\<noteq>) (hex_digit v)) ''+-xX:'') (map of_nat [0..<16])"
  by code_simp

lemma hex_digit_values:
  assumes "v < 16"
  shows "hex_value (hex_digit v) = Some v" "\<not> is_space (hex_digit v)" "hex_digit v \<notin> set ''+-xX:''"
proof -
  have "v \<in> set (map of_nat [0..<16])"
    using assms by (auto simp: word_less_nat_alt intro!: image_eqI [of _ _ "unat v"])
  then show "hex_value (hex_digit v) = Some v" "\<not> is_space (hex_digit v)" "hex_digit v \<notin> set ''+-xX:''"
    using hex_digits unfolding list_all_iff by blast+
qed

lemma hex_halves: "b div 16 < 16" "b mod 16 < 16" "16 * (b div 16) + b mod 16 = b" for b :: u8
proof -
  have "unat b < 2 ^ LENGTH(8)" by (rule unsigned_less)
  then show "b div 16 < 16" by (simp add: word_less_nat_alt unat_div less_mult_imp_div_less)
  show "b mod 16 < 16" by (simp add: word_less_nat_alt unat_mod)
qed (simp add: mult_div_mod_eq)

lemma scan_hex_byte: "scan_hex (hex_byte b @ cs) = Some (b, cs)"
proof -
  note h = hex_digit_values [OF hex_halves(1) [of b]] hex_digit_values [OF hex_halves(2) [of b]]
  show ?thesis using h by (simp add: scan_hex_def hex_byte_def hex_halves(3))
qed

lemma read_hex_byte:
  "stdin s = hex_byte b @ cs \<Longrightarrow> read_byte s = Some (s\<lparr>StreamData := b, stdin := cs\<rparr>)"
  by (simp add: read_byte_def scan_hex_byte)

lemma read_hex_data:
  assumes "stdin s = concat (map hex_byte ds) @ cs" "k + length ds \<le> length (S s)"
  shows "\<exists>b. read_data (length ds) k s =
    Some (s\<lparr>S := take k (S s) @ ds @ drop (k + length ds) (S s), StreamData := b, stdin := cs\<rparr>)"
  using assms
proof (induction ds arbitrary: k s)
  case Nil
  then show ?case by (intro exI [of _ "StreamData s"]) simp
next
  case (Cons d ds)
  let ?s = "s\<lparr>StreamData := d, stdin := concat (map hex_byte ds) @ cs, S := (S s)[k := d]\<rparr>"
  have "read_data (length (d # ds)) k s = read_data (length ds) (k + 1) ?s"
    using Cons.prems(1) by (simp add: read_hex_byte)
  moreover have "take (k + 1) ((S s)[k := d]) = take k (S s) @ [d]"
    using Cons.prems(2) by (simp add: take_Suc_conv_app_nth)
  ultimately show ?case
    using Cons.IH [of ?s "k + 1"] Cons.prems(2) by simp
qed

section \<open>Intel hex files\<close>

text \<open>
  A line of an Intel hex file: its address, type, data and checksum, with what separates it from the next
  line; and the body of the frame that carries it.
\<close>

type_synonym hex_record = "u16 \<times> u8 \<times> u8 list \<times> u8"

fun hex_line :: "string \<Rightarrow> hex_record \<Rightarrow> string" where
  "hex_line sep (a, ty, ds, ck) =
     CHR '':'' # hex_byte (of_nat (length ds)) @ hex_byte (ucast (drop_bit 8 a)) @ hex_byte (ucast a) @ hex_byte ty @
     concat (map hex_byte ds) @ hex_byte ck @ sep"

fun block_body :: "hex_record \<Rightarrow> u8 list" where
  "block_body (a, ty, ds, ck) = [ucast a, ucast (drop_bit 8 a), of_nat (length ds), 0] @ ds"

fun data_ok :: "hex_record \<Rightarrow> bool" where
  "data_ok (a, ty, ds, ck) \<longleftrightarrow> 0 < length ds \<and> length ds \<le> 251"

definition buffers_ok :: "loader \<Rightarrow> bool" where
  "buffers_ok s \<longleftrightarrow> length (FRAME_BYTES s) = 270 \<and> length (S s) = 1024"

lemma skip_found: "CHR '':'' \<notin> set pre \<Longrightarrow> skip_to_colon b (pre @ CHR '':'' # cs) = Some cs"
  by (induction pre arbitrary: b) auto

lemma skip_never:
  assumes "CHR '':'' \<notin> set pre" "pre \<noteq> []"
  shows "skip_to_colon b pre = None"
proof -
  have c: "of_char c \<noteq> (58 :: u8)" if "c \<noteq> CHR '':''" for c
  proof
    assume a: "of_char c = (58 :: u8)"
    have "unat (of_nat (of_char c) :: u8) = (of_char c :: nat)"
      using nat_of_char_less_256 [of c] by (simp add: unsigned_of_nat take_bit_nat_eq_self del: of_nat_of_char)
    then have "(of_char c :: nat) = unat (of_char c :: u8)" by (simp only: of_nat_of_char)
    then have "(of_char c :: nat) = 58" by (simp add: a)
    then have "char_of (of_char c :: nat) = (char_of (58 :: nat) :: char)" by (rule arg_cong)
    moreover have "char_of (58 :: nat) = CHR '':''" by code_simp
    ultimately show False using that by (simp only: char_of_char)
  qed
  have *: "b \<noteq> 58 \<Longrightarrow> CHR '':'' \<notin> set cs \<Longrightarrow> skip_to_colon b cs = None" for b cs
  proof (induction cs arbitrary: b)
    case (Cons x xs)
    then have "x \<noteq> CHR '':''" "CHR '':'' \<notin> set xs" by auto
    then show ?case using Cons.IH [OF c, of x] by (simp only: skip_to_colon.simps if_False simp_thms)
  qed simp
  obtain x xs where p: "pre = x # xs" using assms(2) by (cases pre) auto
  then have "x \<noteq> CHR '':''" "CHR '':'' \<notin> set xs" using assms(1) by auto
  then show ?thesis using * [OF c, of x xs] unfolding p by (simp only: skip_to_colon.simps if_False simp_thms)
qed

lemma read_hex_line:
  assumes "stdin s = pre @ hex_line sep r @ cs" "CHR '':'' \<notin> set pre" "data_ok r" "buffers_ok s"
  shows "\<exists>t. read_line s = Some (0, t) \<and> stdin t = sep @ cs \<and> buffers_ok t \<and>
    events t = events s @ map Tty (bsl_frame 0x12 (block_body r))"
proof -
  obtain a ty ds ck where r: "r = (a, ty, ds, ck)" by (cases r)
  let ?n = "of_nat (length ds) :: u8" and ?tail = "hex_byte ck @ sep @ cs"
  have n: "unat ?n = length ds" "?n \<noteq> 0"
  proof -
    show "unat ?n = length ds" using assms(3) by (simp add: r unsigned_of_nat take_bit_nat_eq_self)
    then show "?n \<noteq> 0" using assms(3) by (auto simp: r)
  qed
  have skip: "skip_to_colon (StreamData s) (stdin s) = Some (hex_byte ?n @ hex_byte (ucast (drop_bit 8 a)) @
      hex_byte (ucast a) @ hex_byte ty @ concat (map hex_byte ds) @ ?tail)"
    using skip_found [OF assms(2)] unfolding assms(1) r hex_line.simps append_Cons append_assoc .
  let ?s4 = "s\<lparr>number_of_data_bytes := ?n, address_h := ucast (drop_bit 8 a), address_l := ucast a,
      StreamData := ty, stdin := concat (map hex_byte ds) @ ?tail\<rparr>"
  obtain b where d: "read_data (length ds) 0 ?s4 =
      Some (?s4\<lparr>S := ds @ drop (length ds) (S s), StreamData := b, stdin := ?tail\<rparr>)"
    using read_hex_data [of ?s4 ds ?tail 0] assms(3,4) by (auto simp: r buffers_ok_def)
  let ?s6 = "?s4\<lparr>S := ds @ drop (length ds) (S s), StreamData := ck, stdin := sep @ cs\<rparr>"
  have "read_line s = Some (0, frame_gen ?s6)"
    unfolding read_line_def skip using n d by (simp add: read_hex_byte Let_def)
  moreover have "events (frame_gen ?s6) = events s @ map Tty (bsl_frame 0x12 (block_body r)) \<and> same_input ?s6 (frame_gen ?s6)"
    using frame_gen_sends [of ?s6 ds] assms(3,4) by (simp add: r buffers_ok_def)
  ultimately show ?thesis
    using assms(3,4) by (simp add: same_input_def buffers_ok_def r)
qed

lemma read_end_line:
  assumes "stdin s = pre @ CHR '':'' # ''00'' @ cs" "CHR '':'' \<notin> set pre"
  shows "read_line s = Some (1, s\<lparr>StreamData := 0, stdin := cs, number_of_data_bytes := 0\<rparr>)"
proof -
  have "''00'' = hex_byte 0" by code_simp
  then have "skip_to_colon (StreamData s) (stdin s) = Some (hex_byte 0 @ cs)"
    using skip_found [OF assms(2)] unfolding assms(1) by simp
  then show ?thesis by (simp add: read_line_def read_hex_byte Let_def)
qed

section \<open>Programming\<close>

lemma sends_step:
  assumes "sends cmd body f" "buffers_ok s"
  shows "events (f s) = events s @ map Tty (bsl_frame cmd body)" "stdin (f s) = stdin s" "StreamData (f s) = StreamData s"
    "buffers_ok (f s)"
  using assms by (auto simp: sends_def buffers_ok_def same_input_def)

lemmas command_steps = sends_step [OF fixed_commands(1)] sends_step [OF fixed_commands(2)] sends_step [OF fixed_commands(3)]
  sends_step [OF fixed_commands(4)] sends_step [OF sends_erase]

text \<open>The bytes sent for a file: a command that starts the patch before each line, and the line's data.\<close>

abbreviation patch_frame :: "u8 list" where
  "patch_frame \<equiv> bsl_frame 0x1A [0x20, 0x02, 0, 0]"

definition file_frames :: "hex_record list \<Rightarrow> u8 list" where
  "file_frames rs = concat (map (\<lambda>r. patch_frame @ bsl_frame 0x12 (block_body r)) rs) @ patch_frame"

definition hex_file :: "string \<Rightarrow> hex_record list \<Rightarrow> string" where
  "hex_file sep rs = concat (map (hex_line sep) rs)"

lemma read_hex_file:
  assumes "stdin s = pre @ hex_file sep rs @ CHR '':'' # ''00'' @ cs" "CHR '':'' \<notin> set pre" "CHR '':'' \<notin> set sep"
    "list_all data_ok rs" "buffers_ok s"
  shows "\<exists>t. read_lines s = Some t \<and> events t = events s @ map Tty (file_frames rs) \<and> stdin t = cs"
  using assms
proof (induction rs arbitrary: s pre)
  case Nil
  note c = command_steps(5-8) [OF Nil(5)]
  show ?case
    using read_end_line [of "load_PC_patch s" pre cs] Nil(1,2) c
    by (subst read_lines.simps) (simp add: hex_file_def file_frames_def)
next
  case (Cons r rs)
  note c = command_steps(5-8) [OF Cons.prems(5)]
  obtain t where t: "read_line (load_PC_patch s) = Some (0, t)" "stdin t = sep @ hex_file sep rs @ CHR '':'' # ''00'' @ cs"
    "buffers_ok t" "events t = events s @ map Tty (patch_frame @ bsl_frame 0x12 (block_body r))"
    using read_hex_line [of "load_PC_patch s" pre sep r "hex_file sep rs @ CHR '':'' # ''00'' @ cs"] Cons.prems c
    by (auto simp: hex_file_def)
  show ?case
    using Cons.IH [OF t(2) Cons.prems(3,3) _ t(3)] Cons.prems(4) t(1,4)
    by (subst read_lines.simps) (auto simp: file_frames_def)
qed

text \<open>A file that ends without its last line is read for ever.\<close>

lemma read_cut_file:
  assumes "stdin s = pre @ hex_file sep rs" "CHR '':'' \<notin> set pre" "CHR '':'' \<notin> set sep" "pre \<noteq> []" "sep \<noteq> []"
    "list_all data_ok rs" "buffers_ok s"
  shows "read_lines s = None"
  using assms
proof (induction rs arbitrary: s pre)
  case Nil
  note c = command_steps(5-8) [OF Nil(7)]
  show ?case
    using skip_never [OF Nil(2,4)] Nil(1) c by (subst read_lines.simps) (simp add: read_line_def hex_file_def)
next
  case (Cons r rs)
  note c = command_steps(5-8) [OF Cons.prems(7)]
  obtain t where t: "read_line (load_PC_patch s) = Some (0, t)" "stdin t = sep @ hex_file sep rs" "buffers_ok t"
    using read_hex_line [of "load_PC_patch s" pre sep r "hex_file sep rs"] Cons.prems c by (auto simp: hex_file_def)
  show ?case
    using Cons.IH [OF t(2) Cons.prems(3,3,5,5) _ t(3)] Cons.prems(6) t(1)
    by (subst read_lines.simps) simp
qed

lemma decode_file:
  assumes "list_all data_ok rs"
  shows "bsl_decode (file_frames rs) =
    Some (concat (map (\<lambda>r. [(0x1A, [0x20, 0x02, 0, 0]), (0x12, block_body r)]) rs) @ [(0x1A, [0x20, 0x02, 0, 0])])"
  using assms
proof (induction rs)
  case Nil
  show ?case using decode_frame [of "[0x20, 0x02, 0, 0]" "0x1A" "[]"] by (simp add: file_frames_def)
next
  case (Cons r rs)
  have "length (block_body r) < 256" using Cons.prems by (cases r) simp
  then show ?case
    using Cons by (simp add: file_frames_def decode_frame)
qed

lemma register_sequences:
  "Bootstrap_ON s = s\<lparr>events := events s @ map Reg2 [7, 6, 4, 6, 4, 5, 7]\<rparr>"
  "Bootstrap_OFF s = s\<lparr>events := events s @ [Reg2 3]\<rparr>"
  "Reset_msp s = s\<lparr>events := events s @ map Reg2 [6, 7, 3]\<rparr>"
  by (simp_all add: Bootstrap_ON_def Bootstrap_OFF_def Reset_msp_def put_reg2_def reg_defs Let_def)

lemma buffers_bss: "buffers_ok (loader_bss cs)"
  by (simp add: buffers_ok_def loader_bss_def)

lemma buffers_events [simp]: "buffers_ok (s\<lparr>events := es\<rparr>) = buffers_ok s"
  by (simp add: buffers_ok_def)

text \<open>Everything sent before the file is read.\<close>

definition erase_frames :: "u8 list" where
  "erase_frames = bsl_frame 0x18 [0, 0, 0, 0]"

definition patch_frames :: "u8 list" where
  "patch_frames =
     (let passwd = bsl_frame 0x10 ([0, 0, 0, 0] @ replicate 32 0xFF) in
      passwd @ bsl_frame 0x1A [0x22, 0x0C, 0, 0] @ passwd @ bsl_frame 0x12 ([0x20, 0x02, 0xC2, 0] @ patch_code) @
      patch_frame @ patch_frame)"

definition before_file :: "loader \<Rightarrow> loader" where
  "before_file s = load_PC_patch (load_PC_patch (load_PATCH (passwd (load_PC (passwd (Bootstrap_ON
     (Reset_msp (Bootstrap_OFF (erase_mem (Bootstrap_ON s))))))))))"

lemma before_file_bss:
  "events (before_file (loader_bss cs)) = map Reg2 [7, 6, 4, 6, 4, 5, 7] @ map Tty erase_frames @
     map Reg2 [3, 6, 7, 3, 7, 6, 4, 6, 4, 5, 7] @ map Tty patch_frames"
  "stdin (before_file (loader_bss cs)) = cs" "StreamData (before_file (loader_bss cs)) = 0" "buffers_ok (before_file (loader_bss cs))"
  using buffers_bss [of cs]
  by (simp_all add: before_file_def register_sequences command_steps erase_frames_def patch_frames_def Let_def)
    (simp_all add: loader_bss_def)

lemma mspload_write:
  "mspload True [CHR ''w'' # w] (loader_bss cs) =
     map_option (\<lambda>s. (0, s\<lparr>events := events s @ map Reg2 [3, 6, 7, 3]\<rparr>)) (read_lines (before_file (loader_bss cs)))"
  by (simp add: mspload_def read_file_def before_file_def register_sequences Let_def)



end
