(* ===== verification/Signals.thy ===== *)
theory Signals
  imports Event_Dev
begin

text \<open>
  The events the machine clock interrupt signals, and their way to a reader of the event device: the
  interrupt handler, the event queue and the device together refine a small machine with two variables.
\<close>

section \<open>The abstract machine\<close>

text \<open>
  Its state is the trigger mode and whether a post-mortem is frozen; a trigger signals at most one event.
  \<open>sz\<close> is the size reported with a post-mortem, and \<open>once\<close> tells that the first one freezes.
\<close>

definition mc_signal :: "u32 \<Rightarrow> bool \<Rightarrow> nat \<Rightarrow> u32 \<times> bool \<Rightarrow> libera_event list \<times> u32 \<times> bool" where
  "mc_signal sz once i = (\<lambda>(mode, frozen).
     if i = T_TRIG_TRIGGER then
       if mode = LIBERA_TRIGMODE_SET then ([\<lparr>ev_id = LIBERA_EVENT_TRIGSET, ev_param = 0\<rparr>], LIBERA_TRIGMODE_GET, frozen)
       else if mode = LIBERA_TRIGMODE_GET then ([\<lparr>ev_id = LIBERA_EVENT_TRIGGET, ev_param = 0\<rparr>], mode, frozen)
       else ([], mode, frozen)
     else if i = T_TRIG_POST_MORTEM \<and> \<not> frozen then ([\<lparr>ev_id = LIBERA_EVENT_PM, ev_param = sz\<rparr>], mode, once)
     else ([], mode, frozen))"

fun mc_signals :: "u32 \<Rightarrow> bool \<Rightarrow> nat list \<Rightarrow> u32 \<times> bool \<Rightarrow> libera_event list \<times> u32 \<times> bool" where
  "mc_signals sz once [] a = ([], a)"
| "mc_signals sz once (i # is) a =
     (let (es, a) = mc_signal sz once i a; (fs, a) = mc_signals sz once is a in (es @ fs, a))"

lemma mc_signals_append:
  "mc_signals sz once (is @ js) a =
     (let (es, a) = mc_signals sz once is a; (fs, a) = mc_signals sz once js a in (es @ fs, a))"
  by (induction "is" arbitrary: a) (simp_all add: Let_def case_prod_unfold)

text \<open>The driver's state seen as the machine's, its constants, and the events its mask lets through.\<close>

definition signal_state :: "libera \<Rightarrow> u32 \<times> bool" where
  "signal_state s = (param (cfg s) LIBERA_CFG_TRIGMODE, pm_freezed (cfg s))"

definition freezes :: "libera \<Rightarrow> bool" where
  "freezes s \<longleftrightarrow> param (cfg s) LIBERA_CFG_PM_MODE \<noteq> 0"

definition unmasked :: "libera \<Rightarrow> libera_event list \<Rightarrow> libera_event list" where
  "unmasked s = filter (\<lambda>e. ev_id e AND event_mask (lgbl s) \<noteq> 0)"

text \<open>The relation between a state, the triggers handled and the state after them.\<close>

definition signals :: "nat list \<Rightarrow> libera \<Rightarrow> libera \<Rightarrow> bool" where
  "signals is s t \<longleftrightarrow>
     (let (es, a) = mc_signals (pmsize (modp s)) (freezes s) is (signal_state s) in
      trig_wf (events (event t)) \<and> signal_state t = a \<and>
      pending_events t = accept 4095 (pending_events s) (unmasked s es) \<and>
      pmsize (modp t) = pmsize (modp s) \<and> freezes t = freezes s \<and> event_mask (lgbl t) = event_mask (lgbl s))"

lemma signals_trans:
  assumes "signals is s t" "signals js t u"
  shows "signals (is @ js) s u"
  using assms by (auto simp: signals_def mc_signals_append Let_def case_prod_unfold unmasked_def)

text \<open>States that differ only in what the machine does not see.\<close>

definition same_signals :: "libera \<Rightarrow> libera \<Rightarrow> bool" where
  "same_signals s t \<longleftrightarrow> events (event t) = events (event s) \<and> cfg t = cfg s \<and> modp t = modp s \<and> lgbl t = lgbl s"

lemma signals_none:
  "same_signals s t \<Longrightarrow> trig_wf (events (event s)) \<Longrightarrow> signals [] s t"
  by (simp add: same_signals_def signals_def signal_state_def freezes_def unmasked_def ev.accept_empty)

section \<open>The handler refines it\<close>

lemma set_time_same: "same_signals s (libera_set_time s)"
  by (simp add: same_signals_def libera_set_time_def libera_set_LST_def libera_set_LMT_def Let_def writel_def)

lemma put_same:
  "same_signals s (put_pair_lmt i x s)" "same_signals s (put_mc_stamp i m x s)"
  by (simp_all add: same_signals_def put_pair_lmt_def put_mc_stamp_def Let_def case_prod_unfold printk_crit_def)

lemma send_event_pending:
  assumes "trig_wf (events (event s))"
  shows "trig_wf (events (event (send_event i p s)))"
    "pending_events (send_event i p s) = accept 4095 (pending_events s) (unmasked s [\<lparr>ev_id = i, ev_param = p\<rparr>])"
    "cfg (send_event i p s) = cfg s" "modp (send_event i p s) = modp s" "lgbl (send_event i p s) = lgbl s"
  using assms
  by (simp_all add: libera_send_event_def Let_def case_prod_unfold printk_crit_def wake_up_interruptible_def
      ev.wf_enq ev.enq_accept ev.accept_empty unmasked_def)

lemma same_trans: "same_signals s t \<Longrightarrow> same_signals t u \<Longrightarrow> same_signals s u"
  by (simp add: same_signals_def)

lemma same_parts:
  "same_signals s t \<Longrightarrow> events (event t) = events (event s) \<and> cfg t = cfg s \<and> modp t = modp s \<and> lgbl t = lgbl s"
  by (simp add: same_signals_def)

lemma pm_mode_apart: "LIBERA_CFG_PM_MODE \<noteq> LIBERA_CFG_TRIGMODE"
  by (simp add: LIBERA_CFG_PM_MODE_def LIBERA_CFG_TRIGMODE_def)

lemma mc_trigger_signals:
  assumes "trig_wf (events (event s))"
  shows "signals [i] s (mc_trigger x y i m s)"
proof -
  consider (set) "i = T_TRIG_TRIGGER" "param (cfg s) LIBERA_CFG_TRIGMODE = LIBERA_TRIGMODE_SET"
    | (get) "i = T_TRIG_TRIGGER" "param (cfg s) LIBERA_CFG_TRIGMODE \<noteq> LIBERA_TRIGMODE_SET"
    | (pm) "i = T_TRIG_POST_MORTEM" | (other) "i \<noteq> T_TRIG_TRIGGER" "i \<noteq> T_TRIG_POST_MORTEM"
    by blast
  then show ?thesis
  proof cases
    case set
    let ?t = "libera_set_time (put_pair_lmt i y s)"
    let ?u = "?t\<lparr>cfg := (cfg ?t)\<lparr>param := (param (cfg ?t))(LIBERA_CFG_TRIGMODE := LIBERA_TRIGMODE_GET)\<rparr>\<rparr>"
    have t: "events (event ?t) = events (event s) \<and> cfg ?t = cfg s \<and> modp ?t = modp s \<and> lgbl ?t = lgbl s"
      by (rule same_parts [OF same_trans [OF put_same(1) set_time_same]])
    have "mc_trigger x y i m s = send_event LIBERA_EVENT_TRIGSET 0 ?u"
      using set by (simp add: mc_trigger_def Let_def)
    then show ?thesis
      using send_event_pending [of ?u LIBERA_EVENT_TRIGSET 0] t assms set pm_mode_apart
      by (simp add: signals_def mc_signal_def signal_state_def freezes_def unmasked_def)
  next
    case get
    let ?t = "put_pair_lmt i x s"
    have t: "events (event ?t) = events (event s) \<and> cfg ?t = cfg s \<and> modp ?t = modp s \<and> lgbl ?t = lgbl s"
      by (rule same_parts [OF put_same(1)])
    have "mc_trigger x y i m s = (if param (cfg s) LIBERA_CFG_TRIGMODE = LIBERA_TRIGMODE_GET
        then send_event LIBERA_EVENT_TRIGGET 0 ?t else ?t)"
      using get by (simp add: mc_trigger_def libera_valid_trigger_def Let_def)
    then show ?thesis
      using send_event_pending [of ?t LIBERA_EVENT_TRIGGET 0] t assms get
      by (simp add: signals_def mc_signal_def signal_state_def freezes_def unmasked_def ev.accept_empty)
  next
    case pm
    let ?t = "put_pair_lmt i x s"
    have t: "events (event ?t) = events (event s) \<and> cfg ?t = cfg s \<and> modp ?t = modp s \<and> lgbl ?t = lgbl s"
      by (rule same_parts [OF put_same(1)])
    have "i \<noteq> T_TRIG_TRIGGER" using pm by (simp add: reg_defs)
    then show ?thesis
      using send_event_pending [of ?t LIBERA_EVENT_PM "pmsize (modp s)"] t assms pm
      by (simp add: mc_trigger_def libera_MCtrig_specific_def Let_def signals_def mc_signal_def signal_state_def
          freezes_def unmasked_def ev.accept_empty)
  next
    case other
    then have "same_signals s (mc_trigger x y i m s)"
      using put_same(2) by (simp add: mc_trigger_def libera_MCtrig_specific_def)
    then show ?thesis
      using signals_none [OF _ assms] other by (simp add: signals_def mc_signal_def case_prod_unfold)
  qed
qed

lemma signals_wf: "signals is s t \<Longrightarrow> trig_wf (events (event t))"
  by (simp add: signals_def case_prod_unfold Let_def)

lemma fold_signals:
  assumes "trig_wf (events (event s))"
  shows "signals is s (fold (\<lambda>i. mc_trigger x y i (m i)) is s)"
  using assms
proof (induction "is" arbitrary: s)
  case Nil
  then show ?case by (simp add: signals_none same_signals_def)
next
  case (Cons i "is")
  note h = mc_trigger_signals [OF Cons.prems, of i x y "m i"]
  show ?case using signals_trans [OF h Cons.IH [OF signals_wf [OF h]]] by simp
qed

lemma signals_same:
  assumes "same_signals s s'" "signals is s' t" "same_signals t t'"
  shows "signals is s t'"
  using assms by (simp add: signals_def same_signals_def signal_state_def freezes_def unmasked_def)

lemma mc_pass_signals:
  assumes "trig_wf (events (event s))"
  shows "signals (triggers (fst e)) s (mc.pass e s)"
proof -
  obtain sl sh where e: "e = (sl, sh)" by fastforce
  let ?s = "snd (readl T_MC_FIFOADV (snd (readl T_MC_STATUSH s)))"
  let ?t = "next_count sl (mc_time (event ?s))"
  let ?u = "?s\<lparr>event := (event ?s)\<lparr>mc_time := ?t\<rparr>\<rparr>"
  let ?v = "if sl AND SELF_INC_TRIGGER \<noteq> 0 then libera_mc_selfinc_specific ?u else ?u"
  have rd: "same_signals x (snd (readl a x))" for a and x :: libera
    by (simp add: same_signals_def readl_def Let_def)
  have v: "same_signals s ?v"
    by (simp add: same_signals_def readl_def Let_def libera_mc_selfinc_specific_def writel_def)
  have "signals (triggers sl) ?v (mc_act sl sh ?s)"
    using fold_signals [of ?v] assms v unfolding mc_act_def Let_def by (simp add: same_signals_def)
  moreover have "same_signals x (snd (readl SBC_IRQ (snd (readl T_MC_STATUSL (snd (readl SBC_IRQ x))))))" for x :: libera
    by (rule same_trans [OF rd same_trans [OF rd rd]])
  ultimately show ?thesis
    unfolding e timing_pass_def Let_def fst_conv snd_conv by (rule signals_same [OF v])
qed

lemma mc_passes_signal:
  assumes "trig_wf (events (event s))"
  shows "signals (concat (map (triggers \<circ> fst) es)) s (fold mc.pass es s)"
  using assms
proof (induction es arbitrary: s)
  case Nil
  then show ?case by (simp add: signals_none same_signals_def)
next
  case (Cons e es)
  note h = mc_pass_signals [OF Cons.prems, of e]
  show ?case using signals_trans [OF h Cons.IH [OF signals_wf [OF h]]] by simp
qed

section \<open>From the interrupt to the reader\<close>

lemma mc_handler_signals:
  assumes "timing_fifo T_MC_STATUSL T_MC_STATUSH T_MC_FIFOADV es (fpga s) (trace s)" "trig_wf (events (event s))"
  shows "\<exists>t. libera_mc_handler s = Some t \<and> signals (concat (map (triggers \<circ> fst) es)) s t"
proof -
  let ?t = "fold mc.pass es (snd (readl T_MC_STATUSL s))"
  have "libera_mc_handler s = Some (wake_up_interruptible MC_queue ?t)"
    using mc.handler_drains [OF assms(1)] by (simp add: libera_mc_handler_def case_prod_unfold)
  moreover have "signals (concat (map (triggers \<circ> fst) es)) s (wake_up_interruptible MC_queue ?t)"
  proof (rule signals_same)
    show "same_signals s (snd (readl T_MC_STATUSL s))" by (simp add: same_signals_def readl_def Let_def)
    show "signals (concat (map (triggers \<circ> fst) es)) (snd (readl T_MC_STATUSL s)) ?t"
      using assms(2) by (intro mc_passes_signal) (simp add: readl_def Let_def)
    show "same_signals ?t (wake_up_interruptible MC_queue ?t)" by (simp add: same_signals_def wake_up_interruptible_def)
  qed
  ultimately show ?thesis by blast
qed

text \<open>Once a post-mortem is frozen no other is signalled.\<close>

lemma one_post_mortem:
  "mc_signals sz True is (mode, frozen) = (es, a) \<Longrightarrow>
     length (filter (\<lambda>e. ev_id e = LIBERA_EVENT_PM) es) \<le> (if frozen then 0 else 1)"
proof (induction "is" arbitrary: mode frozen es a)
  case (Cons i "is")
  obtain e m f where e: "mc_signal sz True i (mode, frozen) = (e, m, f)" by (metis prod_cases3)
  obtain es' a' where r: "mc_signals sz True is (m, f) = (es', a')" by (cases "mc_signals sz True is (m, f)") auto
  have es: "es = e @ es'" using Cons.prems e r by simp
  have "length (filter (\<lambda>e. ev_id e = LIBERA_EVENT_PM) e) + (if f then 0 else 1) \<le> (if frozen then 0 else 1)"
    using e by (auto simp: mc_signal_def reg_defs split: if_splits)
  then show ?case using Cons.IH [OF r] by (simp add: es)
qed simp

lemma read_pending:
  assumes "trig_wf (events (event t))" "pending_events t \<noteq> []" "0 < n" "n \<le> room" "\<not> lock_intr c t"
  shows "\<exists>u. libera_event_read c f (8 * n) room t =
      Some (int (8 * min n (length (pending_events t))), take n (pending_events t), u) \<and>
    pending_events u = drop n (pending_events t)"
proof -
  let ?l = "lock_event t" let ?m = "min n (length (pending_events t))"
  have l: "events (event ?l) = events (event t)" by (simp add: lock_event_def)
  have ne: "\<not> empty_eventFIFO (events (event ?l))"
    using ev.empty_contents [OF assms(1)] assms(2) unfolding l by (simp add: empty_eventFIFO_def)
  have len: "unat (len_eventFIFO (events (event ?l))) = length (pending_events t)"
    unfolding l by (rule ev.len_contents [OF assms(1)])
  let ?p = "pending_events t"
  have m: "?m \<le> length ?p" "?m \<le> room" "take (min ?m room) ?p = take n ?p" "drop ?m ?p = drop n ?p"
    using assms(4) by (auto simp: min_def)
  obtain q where q: "event_copy ?m room 0 [] (events (event ?l)) = (int (8 * ?m), take n ?p, q)" "trig_contents q = drop n ?p"
    using ev.copy_out_takes [OF assms(1) m(1), of "int event_bytes" room 0 "[]"]
    unfolding event_copy_def l if_P [OF m(2)] m(3,4) by (auto simp: event_bytes_def)
  have mm: "(if n < length ?p then n else length ?p) = ?m" by (simp add: min_def)
  have "libera_event_read c f (8 * n) room t =
      Some (int (8 * ?m), take n (pending_events t), unlock_event (upd_event (\<lambda>e. e\<lparr>events := q\<rparr>) ?l))"
    using assms(3,5) ne len q(1) mm
    by (simp add: libera_event_read_def Let_def event_bytes_def split del: if_split cong: if_cong)
  moreover have "pending_events (unlock_event (upd_event (\<lambda>e. e\<lparr>events := q\<rparr>) ?l)) = drop n (pending_events t)"
    using q(2) by (simp add: unlock_event_def upd_event_def)
  ultimately show ?thesis by blast
qed

text \<open>
  C2: the events of the machine clock reach their reader: whatever entries the FPGA's FIFO holds, the
  interrupt handler returns, with the trigger mode and the freezing of the post-mortem those of the abstract
  machine run on the triggers of the entries in order; and a read that follows returns, oldest first, the events that
  were pending and those the machine signals and the mask lets through (as far as the 4095 places reach).
  When a post-mortem freezes, at most one is signalled.
\<close>

theorem mc_events_reach_reader:
  assumes "timing_fifo T_MC_STATUSL T_MC_STATUSH T_MC_FIFOADV es (fpga s) (trace s)" "trig_wf (events (event s))"
    and "mc_signals (pmsize (modp s)) (freezes s) (concat (map (triggers \<circ> fst) es)) (signal_state s) = (evs, a)"
    and "q = accept 4095 (pending_events s) (unmasked s evs)" "q \<noteq> []" "0 < n" "n \<le> room" "\<And>t. \<not> lock_intr c t"
  shows "\<exists>t u. libera_mc_handler s = Some t \<and> signal_state t = a \<and>
      libera_event_read c f (8 * n) room t = Some (int (8 * min n (length q)), take n q, u) \<and>
      pending_events u = drop n q \<and>
      (if freezes s then length (filter (\<lambda>e. ev_id e = LIBERA_EVENT_PM) evs) \<le> (if pm_freezed (cfg s) then 0 else 1)
       else True)"
proof -
  obtain t where t: "libera_mc_handler s = Some t" "signals (concat (map (triggers \<circ> fst) es)) s t"
    using mc_handler_signals [OF assms(1,2)] by blast
  then have s: "signal_state t = a" "pending_events t = q" "trig_wf (events (event t))"
    using assms(3,4) by (simp_all add: signals_def)
  moreover have "if freezes s then length (filter (\<lambda>e. ev_id e = LIBERA_EVENT_PM) evs) \<le> (if pm_freezed (cfg s) then 0 else 1)
      else True"
    using one_post_mortem [of "pmsize (modp s)" _ "param (cfg s) LIBERA_CFG_TRIGMODE" "pm_freezed (cfg s)" evs a] assms(3)
    by (cases "freezes s") (simp_all add: signal_state_def)
  ultimately show ?thesis using t(1) read_pending [OF s(3) _ assms(6-8), of f] assms(5) by auto
qed

text \<open>Two post-mortem triggers, the first of which freezes, and a trigger.\<close>

definition pm_state :: libera where
  "pm_state = (let s = libera_bss (fifo_fpga T_MC_STATUSL T_MC_STATUSH T_MC_FIFOADV
       [(0x20000001, 5), (0x60000001, 9)]) in
     s\<lparr>cfg := (cfg s)\<lparr>param := (param (cfg s))(LIBERA_CFG_PM_MODE := 1, LIBERA_CFG_TRIGMODE := LIBERA_TRIGMODE_GET)\<rparr>,
       lgbl := (lgbl s)\<lparr>event_mask := 0xFF\<rparr>, modp := (modp s)\<lparr>pmsize := 8\<rparr>\<rparr>)"

theorem mc_events_reach_reader_witness:
  "\<exists>t u. libera_mc_handler pm_state = Some t \<and> signal_state t = (LIBERA_TRIGMODE_GET, True) \<and>
     libera_event_read (event_ctx \<lparr>ev_id = 0, ev_param = 0\<rparr>) \<lparr>filp = 1, f_read = True, f_write = False, f_nonblock = True, f_pos = 0\<rparr> 80 10 t =
       Some (16, [\<lparr>ev_id = LIBERA_EVENT_PM, ev_param = 8\<rparr>, \<lparr>ev_id = LIBERA_EVENT_TRIGGET, ev_param = 0\<rparr>], u)"
proof -
  let ?es = "[(0x20000001, 5), (0x60000001, 9)] :: (u32 \<times> u32) list"
  have tr: "triggers 0x20000001 = [7]" "triggers 0x60000001 = [7, 8]"
    by (simp_all add: triggers_def upt_rec)
  have st: "signal_state pm_state = (LIBERA_TRIGMODE_GET, False)" "freezes pm_state" "pmsize (modp pm_state) = 8"
    "pending_events pm_state = []" "trig_wf (events (event pm_state))"
    using pm_mode_apart
    by (simp_all add: pm_state_def Let_def signal_state_def freezes_def libera_bss_def zero_event_dev_def)
  have f: "timing_fifo T_MC_STATUSL T_MC_STATUSH T_MC_FIFOADV ?es (fpga pm_state) (trace pm_state)"
    using fifo_fpga_ok [of ?es T_MC_STATUSL T_MC_STATUSH]
    by (simp add: pm_state_def Let_def libera_bss_def T_FIFO_SIZE_def reg_defs)
  have sig: "mc_signals (pmsize (modp pm_state)) (freezes pm_state) (concat (map (triggers \<circ> fst) ?es)) (signal_state pm_state) =
      ([\<lparr>ev_id = LIBERA_EVENT_PM, ev_param = 8\<rparr>, \<lparr>ev_id = LIBERA_EVENT_TRIGGET, ev_param = 0\<rparr>], LIBERA_TRIGMODE_GET, True)"
    by (simp add: st tr mc_signal_def T_TRIG_TRIGGER_def T_TRIG_POST_MORTEM_def LIBERA_TRIGMODE_GET_def LIBERA_TRIGMODE_SET_def)
  have q: "accept 4095 (pending_events pm_state)
      (unmasked pm_state [\<lparr>ev_id = LIBERA_EVENT_PM, ev_param = 8\<rparr>, \<lparr>ev_id = LIBERA_EVENT_TRIGGET, ev_param = 0\<rparr>]) =
      [\<lparr>ev_id = LIBERA_EVENT_PM, ev_param = 8\<rparr>, \<lparr>ev_id = LIBERA_EVENT_TRIGGET, ev_param = 0\<rparr>]"
    unfolding st(4) by (simp add: unmasked_def accept_def pm_state_def Let_def LIBERA_EVENT_PM_def LIBERA_EVENT_TRIGGET_def)
  show ?thesis
    using mc_events_reach_reader [OF f st(5) sig q [symmetric], of 10 10
        "event_ctx \<lparr>ev_id = 0, ev_param = 0\<rparr>" "\<lparr>filp = 1, f_read = True, f_write = False, f_nonblock = True, f_pos = 0\<rparr>"]
    by (auto simp: event_ctx_def)
qed

end
