(* ===== verification/Debug.thy ===== *)
theory Debug
  imports System
begin

text \<open>
  The driver built with \<^verbatim>\<open>DEBUG\<close> greater than 0 (the \<^verbatim>\<open>Kbuild\<close> file sets 0, the build of the other
  theories). The macros \<^verbatim>\<open>DEBUG_ONLY\<close>, \<^verbatim>\<open>DEBUG2_ONLY\<close> and \<^verbatim>\<open>DEBUG3_ONLY\<close> of \<^verbatim>\<open>libera_kernel.h\<close> keep code from
  level 1, 2 and 3 on: limits on the loops of the interrupt handlers (\<^verbatim>\<open>libera_main.c\<close>, \<^verbatim>\<open>ebpp.c\<close>), the log
  of irregular time stamps (\<^verbatim>\<open>libera_main.c\<close>) and some commands of the event device (\<^verbatim>\<open>libera_event.c\<close>). The
  level is the argument \<open>lvl\<close> of the definitions. Messages that only print are left out; those of the
  limits and of the log are kept.
\<close>

section \<open>The log of irregular stamps\<close>

definition GLITCH_HISTORY :: nat where [reg_defs]: "GLITCH_HISTORY = 8"
definition GLITCH_LOG_MASK :: u32 where [reg_defs]: "GLITCH_LOG_MASK = of_nat GLITCH_HISTORY - 1"
definition GLITCH_LOG_MAX :: nat where [reg_defs]: "GLITCH_LOG_MAX = 5"
definition GT_SC_JIFF_LOW :: u32 where [reg_defs]: "GT_SC_JIFF_LOW = 8"
definition GT_SC_JIFF_HIGH :: u32 where [reg_defs]: "GT_SC_JIFF_HIGH = 20"
definition GT_MC_JIFF_LOW :: u32 where [reg_defs]: "GT_MC_JIFF_LOW = 8"
definition GT_MC_JIFF_HIGH :: u32 where [reg_defs]: "GT_MC_JIFF_HIGH = 20"
definition GT_SC_TRIG10_LOW :: int where [reg_defs]: "GT_SC_TRIG10_LOW = 10500000"
definition GT_SC_TRIG10_HIGH :: int where [reg_defs]: "GT_SC_TRIG10_HIGH = 12600000"
definition GT_MC_TRIG10_LOW :: int where [reg_defs]: "GT_MC_TRIG10_LOW = 10500000"
definition GT_MC_TRIG10_HIGH :: int where [reg_defs]: "GT_MC_TRIG10_HIGH = 12500000"
definition GET_MASK :: u32 where [reg_defs]: "GET_MASK = 0xFF800000"
definition PUT_MASK :: u32 where [reg_defs]: "PUT_MASK = 0x007FC000"
definition GET_SHIFT :: nat where [reg_defs]: "GET_SHIFT = 23"
definition PUT_SHIFT :: nat where [reg_defs]: "PUT_SHIFT = 14"

record glitch_times =
  gl_stamp :: u64
  gl_th :: u32
  gl_tl :: u32
  gl_jiff :: u32

record glitch_CB =
  gt :: "nat \<Rightarrow> glitch_times"
  gl_put :: u32

text \<open>The messages, and the state debugging adds to the driver's: the logs of \<^verbatim>\<open>libera_event_device\<close>, the
  messages (oldest first) and whether the spin lock of the interrupt handler is held.\<close>

datatype dmsg =
    Glitch string
  | Glitch_line nat u32 u32 u32 u32 u64 u32 u32
  | Deadlock_avoided string u32
  | Int_deadlock_avoided u32 u32

record dbg =
  sc_self_inc :: glitch_CB
  mc_self_inc :: glitch_CB
  sc_trig10 :: glitch_CB
  mc_trig10 :: glitch_CB
  dlog :: "dmsg list"
  irq_spin :: bool

definition PDEBUG :: "dmsg list \<Rightarrow> dbg \<Rightarrow> dbg" where
  "PDEBUG ms d = d\<lparr>dlog := dlog d @ ms\<rparr>"

definition putToGlitchCB :: "glitch_times \<Rightarrow> glitch_CB \<Rightarrow> glitch_CB" where
  "putToGlitchCB g q = q\<lparr>gt := (gt q)(unat (gl_put q) := g), gl_put := (gl_put q + 1) AND GLITCH_LOG_MASK\<rparr>"

definition getFromGlitchCB :: "glitch_CB \<Rightarrow> nat \<Rightarrow> glitch_times" where
  "getFromGlitchCB q history = (let index = (gl_put q - 1 - of_nat history) AND GLITCH_LOG_MASK in gt q (unat index))"

definition glitch_line :: "nat \<Rightarrow> glitch_times \<Rightarrow> dmsg" where
  "glitch_line i g = Glitch_line i (drop_bit GET_SHIFT (gl_th g AND GET_MASK)) (drop_bit PUT_SHIFT (gl_th g AND PUT_MASK))
     (gl_th g) (gl_tl g) (gl_stamp g) (gl_jiff g) (T_FIFO_SIZE (gl_tl g))"

definition glitch_report :: "string \<Rightarrow> glitch_CB \<Rightarrow> dmsg list" where
  "glitch_report name q = Glitch name # map (\<lambda>i. glitch_line i (getFromGlitchCB q i)) [0..<GLITCH_LOG_MAX]"

text \<open>
  The difference of two counts of jiffies is a \<^verbatim>\<open>long\<close> compared with an \<^verbatim>\<open>unsigned int\<close>, both of 32 bits, so the
  comparison is unsigned; that of two stamps is a \<^verbatim>\<open>long long\<close> compared with another.
\<close>

definition gt_log_jiff :: "string \<Rightarrow> glitch_times \<Rightarrow> u32 \<Rightarrow> u32 \<Rightarrow> glitch_CB \<Rightarrow> glitch_CB \<times> dmsg list" where
  "gt_log_jiff name g jiff_low jiff_high q =
     (let q = putToGlitchCB g q;
          gt_diff = gl_jiff (getFromGlitchCB q 0) - gl_jiff (getFromGlitchCB q 1)
      in (q, if gt_diff < jiff_low \<or> gt_diff > jiff_high then glitch_report name q else []))"

definition gt_log_stamp :: "string \<Rightarrow> glitch_times \<Rightarrow> int \<Rightarrow> int \<Rightarrow> glitch_CB \<Rightarrow> glitch_CB \<times> dmsg list" where
  "gt_log_stamp name g stamp_low stamp_high q =
     (let q = putToGlitchCB g q;
          lgt_diff = sint (gl_stamp (getFromGlitchCB q 0) - gl_stamp (getFromGlitchCB q 1))
      in (q, if lgt_diff < stamp_low \<or> lgt_diff > stamp_high then glitch_report name q else []))"

section \<open>The handlers of the timing interrupts\<close>

text \<open>
  The state is that of debugging and the driver's. \<open>jf\<close> is the kernel's count of jiffies. The logs of the
  self-increments and of trigger 10 are kept from level 3 on.
\<close>

type_synonym dlibera = "dbg \<times> libera"

definition log_sc_selfinc :: "(libera \<Rightarrow> u32) \<Rightarrow> u32 \<Rightarrow> u32 \<Rightarrow> dlibera \<Rightarrow> dlibera" where
  "log_sc_selfinc jf sh sl = (\<lambda>(d, s).
     let (q, ms) = gt_log_jiff ''SC_SELF_INC'' \<lparr>gl_stamp = sc_time (event s), gl_th = sh, gl_tl = sl, gl_jiff = jf s\<rparr>
           GT_SC_JIFF_LOW GT_SC_JIFF_HIGH (sc_self_inc d)
     in (PDEBUG ms (d\<lparr>sc_self_inc := q\<rparr>), s))"

definition log_mc_selfinc :: "(libera \<Rightarrow> u32) \<Rightarrow> u32 \<Rightarrow> u32 \<Rightarrow> dlibera \<Rightarrow> dlibera" where
  "log_mc_selfinc jf sh sl = (\<lambda>(d, s).
     let (q, ms) = gt_log_jiff ''MC_SELF_INC'' \<lparr>gl_stamp = mc_time (event s), gl_th = sh, gl_tl = sl, gl_jiff = jf s\<rparr>
           GT_MC_JIFF_LOW GT_MC_JIFF_HIGH (mc_self_inc d)
     in (PDEBUG ms (d\<lparr>mc_self_inc := q\<rparr>), s))"

definition log_sc_trig10 :: "(libera \<Rightarrow> u32) \<Rightarrow> u64 \<Rightarrow> u32 \<Rightarrow> u32 \<Rightarrow> dlibera \<Rightarrow> dlibera" where
  "log_sc_trig10 jf stamp_raw sh sl = (\<lambda>(d, s).
     let (q, ms) = gt_log_stamp ''SC_TRIG10'' \<lparr>gl_stamp = stamp_raw, gl_th = sh, gl_tl = sl, gl_jiff = jf s\<rparr>
           GT_SC_TRIG10_LOW GT_SC_TRIG10_HIGH (sc_trig10 d)
     in (PDEBUG ms (d\<lparr>sc_trig10 := q\<rparr>), s))"

definition log_mc_trig10 :: "(libera \<Rightarrow> u32) \<Rightarrow> u64 \<Rightarrow> u32 \<Rightarrow> u32 \<Rightarrow> dlibera \<Rightarrow> dlibera" where
  "log_mc_trig10 jf stamp_raw sh sl = (\<lambda>(d, s).
     let (q, ms) = gt_log_stamp ''MC_TRIG10'' \<lparr>gl_stamp = stamp_raw, gl_th = sh, gl_tl = sl, gl_jiff = jf s\<rparr>
           GT_MC_TRIG10_LOW GT_MC_TRIG10_HIGH (mc_trig10 d)
     in (PDEBUG ms (d\<lparr>mc_trig10 := q\<rparr>), s))"

text \<open>What is done for trigger \<open>i\<close>; \<open>sl\<close> is what is left of the status word.\<close>

definition debug_sc_trigger ::
  "nat \<Rightarrow> (libera \<Rightarrow> u32) \<Rightarrow> u64 \<Rightarrow> u64 \<Rightarrow> u32 \<Rightarrow> u32 \<Rightarrow> nat \<Rightarrow> u32 \<Rightarrow> dlibera \<Rightarrow> dlibera"
where
  "debug_sc_trigger lvl jf stamp stamp_raw sh sl i m x =
     (let x = (if lvl \<ge> 3 \<and> i = 10 then log_sc_trig10 jf stamp_raw sh sl x else x)
      in (fst x, sc_trigger stamp stamp_raw i m (snd x)))"

definition debug_mc_trigger ::
  "nat \<Rightarrow> (libera \<Rightarrow> u32) \<Rightarrow> u64 \<Rightarrow> u64 \<Rightarrow> u32 \<Rightarrow> u32 \<Rightarrow> nat \<Rightarrow> u32 \<Rightarrow> dlibera \<Rightarrow> dlibera"
where
  "debug_mc_trigger lvl jf stamp stamp_raw sh sl i m x =
     (let x = (if lvl \<ge> 3 \<and> i = 10 then log_mc_trig10 jf stamp_raw sh sl x else x)
      in (fst x, mc_trigger stamp stamp_raw i m (snd x)))"

definition debug_sc_entry :: "nat \<Rightarrow> (libera \<Rightarrow> u32) \<Rightarrow> u32 \<Rightarrow> u32 \<Rightarrow> dlibera \<Rightarrow> dlibera option" where
  "debug_sc_entry lvl jf sl sh x =
     (let stamp = ucast (sh AND 0x03FFFFFF) :: u64;
          x = (if sl AND SELF_INC_TRIGGER \<noteq> 0
               then let s = (snd x)\<lparr>event := (event (snd x))\<lparr>sc_time := sc_time (event (snd x)) + 0x4000000\<rparr>\<rparr>;
                        x = (if lvl \<ge> 3 then log_sc_selfinc jf sh sl (fst x, s) else (fst x, s))
                    in (fst x, libera_sc_selfinc_specific (snd x))
               else x);
          stamp = stamp OR (sc_time (event (snd x)) AND 0xFFFFFFFFFC000000);
          stamp_raw = stamp;
          stamp = stamp + lst_off (set_time (event (snd x)))
      in map_option snd (trig_loop 10 (\<lambda>i m (left, x). let left = left AND NOT m
           in (left, debug_sc_trigger lvl jf stamp stamp_raw sh left i m x)) sl TRIG_ZERO 0 (sl, x)))"

definition debug_mc_entry :: "nat \<Rightarrow> (libera \<Rightarrow> u32) \<Rightarrow> u32 \<Rightarrow> u32 \<Rightarrow> dlibera \<Rightarrow> dlibera option" where
  "debug_mc_entry lvl jf sl sh x =
     (let stamp = ucast (sh AND 0x3FFFFFF) :: u64;
          x = (if sl AND SELF_INC_TRIGGER \<noteq> 0
               then let s = (snd x)\<lparr>event := (event (snd x))\<lparr>mc_time := mc_time (event (snd x)) + 0x4000000\<rparr>\<rparr>;
                        x = (if lvl \<ge> 3 then log_mc_selfinc jf sh sl (fst x, s) else (fst x, s))
                    in (fst x, libera_mc_selfinc_specific (snd x))
               else x);
          stamp = stamp OR (mc_time (event (snd x)) AND 0xFFFFFFFFFC000000);
          stamp_raw = stamp;
          stamp = stamp + lmt_off (set_time (event (snd x)))
      in map_option snd (trig_loop 10 (\<lambda>i m (left, x). let left = left AND NOT m
           in (left, debug_mc_trigger lvl jf stamp stamp_raw sh left i m x)) sl TRIG_ZERO 0 (sl, x)))"

text \<open>
  The outer loop. From level 2 on it gives up after the entry for which \<open>count\<close>, which starts at 0, has passed
  512; the result tells whether it ended with an empty FIFO. The size of the FIFO it reports is that of the
  status word read before the entry.
\<close>

datatype clock = SC_clock | MC_clock

fun clock_name :: "clock \<Rightarrow> string" where
  "clock_name SC_clock = ''SC''"
| "clock_name MC_clock = ''MC''"

fun STATUSL :: "clock \<Rightarrow> u32" where
  "STATUSL SC_clock = T_SC_STATUSL"
| "STATUSL MC_clock = T_MC_STATUSL"

fun STATUSH :: "clock \<Rightarrow> u32" where
  "STATUSH SC_clock = T_SC_STATUSH"
| "STATUSH MC_clock = T_MC_STATUSH"

fun FIFOADV :: "clock \<Rightarrow> u32" where
  "FIFOADV SC_clock = T_SC_FIFOADV"
| "FIFOADV MC_clock = T_MC_FIFOADV"

partial_function (option) debug_timing_loop ::
  "nat \<Rightarrow> clock \<Rightarrow> (u32 \<Rightarrow> u32 \<Rightarrow> dlibera \<Rightarrow> dlibera option) \<Rightarrow> nat \<Rightarrow> u32 \<Rightarrow> dbg \<Rightarrow> libera \<Rightarrow> (bool \<times> dlibera) option"
where
  "debug_timing_loop lvl ck entry count sl d s =
     (if T_FIFO_SIZE sl = 0 then Some (True, d, s)
      else
        let (sh, s) = readl (STATUSH ck) s;
            (tex, s) = readl (FIFOADV ck) s
        in Option.bind (entry sl sh (d, s)) (\<lambda>(d, s).
             if lvl \<ge> 2 \<and> count > 512
             then Some (False, PDEBUG [Deadlock_avoided (clock_name ck) (T_FIFO_SIZE sl)] d, s)
             else
               let s = snd (readl SBC_IRQ s);
                   (sl, s) = readl (STATUSL ck) s;
                   s = snd (readl SBC_IRQ s)
               in debug_timing_loop lvl ck entry (count + 1) sl d s))"

definition debug_sc_handler :: "nat \<Rightarrow> (libera \<Rightarrow> u32) \<Rightarrow> dlibera \<Rightarrow> dlibera option" where
  "debug_sc_handler lvl jf x =
     (let (sl, s) = readl T_SC_STATUSL (snd x)
      in map_option (\<lambda>(ok, x). if ok then (fst x, wake_up_interruptible SC_queue (snd x)) else x)
           (debug_timing_loop lvl SC_clock (debug_sc_entry lvl jf) 0 sl (fst x) s))"

definition debug_mc_handler :: "nat \<Rightarrow> (libera \<Rightarrow> u32) \<Rightarrow> dlibera \<Rightarrow> dlibera option" where
  "debug_mc_handler lvl jf x =
     (let (sl, s) = readl T_MC_STATUSL (snd x)
      in map_option (\<lambda>(ok, x). if ok then (fst x, wake_up_interruptible MC_queue (snd x)) else x)
           (debug_timing_loop lvl MC_clock (debug_mc_entry lvl jf) 0 sl (fst x) s))"

text \<open>
  The slow acquisition handler gives up after twelve atoms, the interrupt handler after 258 passes: it then
  returns with the spin lock still held. \<^verbatim>\<open>PDEBUG3\<close> reads the interrupt register once more at level 3.
\<close>

partial_function (option) debug_sa_loop :: "nat \<Rightarrow> nat \<Rightarrow> libera \<Rightarrow> libera option" where
  "debug_sa_loop lvl count s =
     (let s = sa_read_atom s;
          (FIFOstatus, s) = readl SA_STATUS s;
          s = sa_check_overrun FIFOstatus s
      in if lvl \<ge> 2 \<and> count > 10 then Some s
         else if SA_SIZE FIFOstatus \<noteq> 0 then debug_sa_loop lvl (count + 1) s else Some s)"

definition debug_sa_handler :: "nat \<Rightarrow> libera \<Rightarrow> libera option" where
  "debug_sa_handler lvl s =
     (let (FIFOstatus, s) = readl SA_STATUS s;
          s = sa_check_overrun FIFOstatus s
      in debug_sa_loop lvl 0 s)"

definition debug_irq_pass :: "nat \<Rightarrow> (libera \<Rightarrow> u32) \<Rightarrow> u32 \<Rightarrow> dlibera \<Rightarrow> dlibera option" where
  "debug_irq_pass lvl jf int_vec x =
     (let x = (if int_vec AND LIBERA_INTERRUPT_ILK_MASK \<noteq> 0 then (fst x, libera_ilk_handler (snd x)) else x) in
      Option.bind (if int_vec AND LIBERA_INTERRUPT_SC_MASK \<noteq> 0 then debug_sc_handler lvl jf x else Some x) (\<lambda>x.
      Option.bind (if int_vec AND LIBERA_INTERRUPT_MC_MASK \<noteq> 0 then debug_mc_handler lvl jf x else Some x) (\<lambda>x.
        let s = snd x;
            s = (if int_vec AND (LIBERA_INTERRUPT_HELPSC_MASK OR LIBERA_INTERRUPT_HELPMC_MASK) \<noteq> 0
                 then libera_scmchelp_handler s else s);
            s = (if int_vec AND LIBERA_INTERRUPT_DD_MASK \<noteq> 0 then libera_dd_handler s else s)
        in map_option (Pair (fst x))
             (if int_vec AND LIBERA_INTERRUPT_SA_MASK \<noteq> 0 then debug_sa_handler lvl s else Some s))))"

partial_function (option) debug_irq_loop ::
  "nat \<Rightarrow> (libera \<Rightarrow> u32) \<Rightarrow> nat \<Rightarrow> dbg \<Rightarrow> libera \<Rightarrow> (irqreturn \<times> dlibera) option"
where
  "debug_irq_loop lvl jf count d s =
     (let (v, s) = readl SBC_IRQ s;
          int_vec = v AND get_irqMask s
      in if int_vec = 0 then
           Some (IRQ_HANDLED, d\<lparr>irq_spin := False\<rparr>, if lvl \<ge> 3 then snd (readl SBC_IRQ s) else s)
         else
           Option.bind (debug_irq_pass lvl jf int_vec (d, s)) (\<lambda>(d, s).
             if lvl \<ge> 2 \<and> count > 256 then
               let (v, s) = readl SBC_IRQ s
               in Some (IRQ_NONE, PDEBUG [Int_deadlock_avoided v int_vec] d, s)
             else debug_irq_loop lvl jf (count + 1) d s))"

definition debug_interrupt :: "nat \<Rightarrow> (libera \<Rightarrow> u32) \<Rightarrow> int \<Rightarrow> dlibera \<Rightarrow> (irqreturn \<times> dlibera) option" where
  "debug_interrupt lvl jf irq x =
     (if irq \<noteq> g_irq (lgbl (snd x)) then Some (IRQ_NONE, x)
      else debug_irq_loop lvl jf 0 ((fst x)\<lparr>irq_spin := True\<rparr>) (snd x))"

section \<open>Waiting for a time\<close>

definition EDEADLK :: int where [errno_defs]: "EDEADLK = 35"
definition DD_WAIT_TIMEOUT :: nat where [reg_defs]: "DD_WAIT_TIMEOUT = 2"

partial_function (option) debug_wait_clock_loop ::
  "nat \<Rightarrow> nat \<Rightarrow> (Ltimestamp \<Rightarrow> u64) \<Rightarrow> (u64 \<Rightarrow> libera \<Rightarrow> u32) \<Rightarrow> ctx \<Rightarrow> u64 \<Rightarrow> u64 \<Rightarrow> Ltimestamp \<Rightarrow> libera
     \<Rightarrow> (int \<times> Ltimestamp \<times> libera) option"
where
  "debug_wait_clock_loop lvl wait_count clk jiff c start delta_end t s =
     (if lvl \<ge> 2 \<and> wait_count + 1 > DD_WAIT_TIMEOUT then Some (- EDEADLK, t, s)
      else
        let (ret, s) = libera_delay_jiffies_interruptible c (jiff (- delta_end) s) s in
        if ret \<noteq> 0 then Some (ret, t, s)
        else
          Option.bind (libera_get_CTIME c t s) (\<lambda>(ret, t, s).
            if ret \<noteq> 0 then Some (ret, t, s)
            else
              let delta_end = clk t - start - ucast (span32 LIBERA_DD_READSYNC_MARGIN s)
              in if sint delta_end < 0
                 then debug_wait_clock_loop lvl (wait_count + 1) clk jiff c start delta_end t s
                 else Some (0, t, s)))"

section \<open>Commands of the event device\<close>

definition LIBERA_EVENT_PEEK_POKE :: u32 where [reg_defs]: "LIBERA_EVENT_PEEK_POKE = 28"
definition LIBERA_EVENT_EVENTSIM :: u32 where [reg_defs]: "LIBERA_EVENT_EVENTSIM = 29"
definition LIBERA_EVENT_OFFPLL :: u32 where [reg_defs]: "LIBERA_EVENT_OFFPLL = 30"
definition LIBERA_EVENT_GET_TRIGGER_BLOCKED :: u32 where [reg_defs]: "LIBERA_EVENT_GET_TRIGGER_BLOCKED = IOR LIBERA_EVENT_MAGIC LIBERA_EVENT_TRIGGER_BLOCK 16"
definition LIBERA_EVENT_SET_OFFPLL :: u32 where [reg_defs]: "LIBERA_EVENT_SET_OFFPLL = IOW LIBERA_EVENT_MAGIC LIBERA_EVENT_OFFPLL 8"
definition LIBERA_EVENT_PEEK :: u32 where [reg_defs]: "LIBERA_EVENT_PEEK = IOR LIBERA_EVENT_MAGIC LIBERA_EVENT_PEEK_POKE 8"
definition LIBERA_EVENT_POKE :: u32 where [reg_defs]: "LIBERA_EVENT_POKE = IOW LIBERA_EVENT_MAGIC LIBERA_EVENT_PEEK_POKE 8"
definition LIBERA_EVENT_EVENT_SIM :: u32 where [reg_defs]: "LIBERA_EVENT_EVENT_SIM = IOW LIBERA_EVENT_MAGIC LIBERA_EVENT_EVENTSIM 4"

text \<open>
  \<open>junk\<close> is what the uninitialised variable of the command holds. \<^verbatim>\<open>GET_TRIGGER_BLOCKED\<close> ignores the results
  of the two blocking reads.
\<close>

definition event_trigger_blocked :: "ctx \<Rightarrow> Ltimestamp \<Rightarrow> ucopy \<Rightarrow> libera \<Rightarrow> (int \<times> uout \<times> libera) option" where
  "event_trigger_blocked c junk u s =
     Option.bind (getBlockedFromFIFO c (SC_ts T_TRIG_TRIGGER) s) (\<lambda>(ret, x, s).
       let trigger = (if ret = 0 then junk\<lparr>lst := x\<rparr> else junk) in
       Option.bind (getBlockedFromFIFO c (MC_ts T_TRIG_TRIGGER) s) (\<lambda>(ret, x, s).
         let trigger = (if ret = 0 then trigger\<lparr>lmt := x\<rparr> else trigger)
         in Some (give u (words_of_Ltimestamp trigger) s)))"

definition event_sim :: "ctx \<Rightarrow> Ltimestamp \<Rightarrow> libera \<Rightarrow> (int \<times> libera) option" where
  "event_sim c junk s =
     Option.bind (libera_get_CTIME c junk s) (\<lambda>(ret, ctime, s).
       if ret \<noteq> 0 then Some (ret, s)
       else
         let s = put_pair_lst T_TRIG_TRIGGER (lst ctime) s;
             s = put_pair_lmt T_TRIG_TRIGGER (lmt ctime) s;
             s = (if param (cfg s) LIBERA_CFG_TRIGMODE = LIBERA_TRIGMODE_GET then send_event LIBERA_EVENT_TRIGGET 0 s else s);
             s = (if param (cfg s) LIBERA_CFG_TRIGMODE = LIBERA_TRIGMODE_SET then send_event LIBERA_EVENT_TRIGSET 0 s else s)
         in Some (ret, s))"

definition event_set_offpll :: "ucopy \<Rightarrow> libera \<Rightarrow> int \<times> libera" where
  "event_set_offpll u s =
     (int (from_left u), upd_event (\<lambda>e. e\<lparr>set_time := (set_time e)\<lparr>lmt_off_pll := u64_of (uword u 0) (uword u 1)\<rparr>\<rparr>) s)"

definition event_peek :: "ucopy \<Rightarrow> libera \<Rightarrow> int \<times> uout \<times> libera" where
  "event_peek u s = (let offset = uword u 0; (v, s) = readl offset s in give u [offset, v] s)"

definition event_poke :: "ucopy \<Rightarrow> libera \<Rightarrow> int \<times> libera" where
  "event_poke u s = (int (from_left u), writel (uword u 1) (uword u 0) s)"

definition debug_event_cmd ::
  "ctx \<Rightarrow> Ltimestamp \<Rightarrow> event_local \<Rightarrow> filep \<Rightarrow> u32 \<Rightarrow> u32 \<Rightarrow> ucopy \<Rightarrow> libera \<Rightarrow> (int \<times> uout \<times> event_local \<times> libera) option"
where
  "debug_event_cmd c junk l f cmd arg u s =
     (let fin = (\<lambda>(r, s). Some (r, No_out, l, s));
          out = (\<lambda>(r, w, s). Some (r, w, l, s))
      in
      if cmd = LIBERA_EVENT_GET_TRIGGER_BLOCKED then Option.bind (event_trigger_blocked c junk u s) out
      else if cmd = LIBERA_EVENT_EVENT_SIM then Option.bind (event_sim c junk s) fin
      else if cmd = LIBERA_EVENT_SET_OFFPLL then fin (event_set_offpll u s)
      else if cmd = LIBERA_EVENT_PEEK then out (event_peek u s)
      else if cmd = LIBERA_EVENT_POKE then fin (event_poke u s)
      else libera_event_cmd c junk l f cmd arg u s)"

section \<open>The log keeps the last entries\<close>

definition glitch_wf :: "glitch_CB \<Rightarrow> bool" where
  "glitch_wf q \<longleftrightarrow> gl_put q < of_nat GLITCH_HISTORY"

text \<open>The entries put last, newest first; as many as the ring holds are told apart.\<close>

lemma get_put:
  assumes "glitch_wf q" "i < 7"
  shows "glitch_wf (putToGlitchCB g q)" "getFromGlitchCB (putToGlitchCB g q) 0 = g"
    "getFromGlitchCB (putToGlitchCB g q) (Suc i) = getFromGlitchCB q i"
proof -
  have p: "gl_put q \<in> {0, 1, 2, 3, 4, 5, 6, 7}"
  proof -
    have "unat (gl_put q) < 8" using assms(1) by (simp add: glitch_wf_def GLITCH_HISTORY_def word_less_nat_alt)
    then have "unat (gl_put q) \<in> {0, 1, 2, 3, 4, 5, 6, 7}" by auto
    then show ?thesis by (auto simp: word_unat_eq_iff)
  qed
  have i: "i \<in> {0, 1, 2, 3, 4, 5, 6}" using assms(2) by auto
  note d = putToGlitchCB_def getFromGlitchCB_def GLITCH_LOG_MASK_def GLITCH_HISTORY_def glitch_wf_def
  show "glitch_wf (putToGlitchCB g q)" "getFromGlitchCB (putToGlitchCB g q) 0 = g"
    using p by (auto simp: d)
  show "getFromGlitchCB (putToGlitchCB g q) (Suc i) = getFromGlitchCB q i"
    using p i by (auto simp: d)
qed

lemma get_last:
  assumes "glitch_wf q" "i < length gs" "i < 8"
  shows "getFromGlitchCB (fold putToGlitchCB gs q) i = rev gs ! i"
  using assms
proof (induction gs arbitrary: i rule: rev_induct)
  case (snoc g gs)
  have "glitch_wf (fold putToGlitchCB gs q)" 
    using assms(1) by (induction gs arbitrary: q) (simp_all add: get_put [where i = 0])
  with snoc show ?case using get_put [where i = "i - 1" and q = "fold putToGlitchCB gs q"] 
    by (cases i) (simp_all add: get_put)
qed simp

lemma last_rev: "gs \<noteq> [] \<Longrightarrow> last gs = rev gs ! 0"
  by (simp add: last_conv_nth rev_nth)

lemma glitch_reported:
  assumes "glitch_wf q" "4 \<le> length gs" "gl_jiff g = gl_jiff (last gs) + of_nat ticks" "ticks < 4294967296"
  shows "gt_log_jiff name g low high (fold putToGlitchCB gs q) =
    (fold putToGlitchCB (gs @ [g]) q,
     if ticks < unat low \<or> unat high < ticks
     then Glitch name # map (\<lambda>i. glitch_line i (rev (gs @ [g]) ! i)) [0..<5] else [])"
proof -
  let ?q = "fold putToGlitchCB (gs @ [g]) q"
  have r: "getFromGlitchCB ?q i = rev (gs @ [g]) ! i" if "i < 5" for i
    using that assms(1,2) by (intro get_last) simp_all
  have "gs \<noteq> []" using assms(2) by auto
  then have n: "gl_jiff (getFromGlitchCB ?q 0) - gl_jiff (getFromGlitchCB ?q 1) = of_nat ticks"
    using r [of 0] r [of 1] assms(3) by (simp add: last_rev)
  have "unat (of_nat ticks :: u32) = ticks" using assms(4) by (simp add: unat_of_nat)
  then have "((of_nat ticks :: u32) < low \<or> high < of_nat ticks) \<longleftrightarrow> ticks < unat low \<or> unat high < ticks"
    by (simp add: word_less_nat_alt)
  moreover have "glitch_report name ?q = Glitch name # map (\<lambda>i. glitch_line i (rev (gs @ [g]) ! i)) [0..<5]"
    using r by (simp add: glitch_report_def GLITCH_LOG_MAX_def)
  moreover have "?q = putToGlitchCB g (fold putToGlitchCB gs q)" by simp
  ultimately show ?thesis
    using n by (simp only: gt_log_jiff_def Let_def)
qed

section \<open>The entries\<close>

text \<open>
  The log at trigger 10 is dead code: a status word has triggers 0 to 8 only. So an entry changes the logs
  by its self-increment alone, and the driver as the production build does.
\<close>

lemma triggers_small: "i \<in> set (triggers sl) \<Longrightarrow> i < 9"
  by (simp add: triggers_def)

definition sc_log :: "nat \<Rightarrow> (libera \<Rightarrow> u32) \<Rightarrow> u32 \<Rightarrow> u32 \<Rightarrow> dlibera \<Rightarrow> dbg" where
  "sc_log lvl jf sl sh x =
     (if lvl \<ge> 3 \<and> sl AND SELF_INC_TRIGGER \<noteq> 0
      then fst (log_sc_selfinc jf sh sl (fst x, (snd x)\<lparr>event := (event (snd x))\<lparr>sc_time := next_count sl (sc_time (event (snd x)))\<rparr>\<rparr>))
      else fst x)"

definition mc_log :: "nat \<Rightarrow> (libera \<Rightarrow> u32) \<Rightarrow> u32 \<Rightarrow> u32 \<Rightarrow> dlibera \<Rightarrow> dbg" where
  "mc_log lvl jf sl sh x =
     (if lvl \<ge> 3 \<and> sl AND SELF_INC_TRIGGER \<noteq> 0
      then fst (log_mc_selfinc jf sh sl (fst x, (snd x)\<lparr>event := (event (snd x))\<lparr>mc_time := next_count sl (mc_time (event (snd x)))\<rparr>\<rparr>))
      else fst x)"

lemma trigger_fold:
  assumes "\<And>i m left x. i < 9 \<Longrightarrow> f left i m x = (fst x, g i m (snd x))" "\<forall>i\<in>set is. i < 9"
  shows "snd (fold (\<lambda>i. (\<lambda>i m (left, x). (left AND NOT m, f (left AND NOT m) i m x)) i (2 ^ (22 + i))) is (left, x)) =
    (fst x, fold (\<lambda>i. g i (2 ^ (22 + i))) is (snd x))"
  using assms(2) by (induction "is" arbitrary: left x) (simp_all add: assms(1) Let_def)

lemma trigger_loop:
  assumes "\<And>i m left x. i < 9 \<Longrightarrow> f left i m x = (fst x, g i m (snd x))"
  shows "map_option snd (trig_loop 10 (\<lambda>i m (left, x). (left AND NOT m, f (left AND NOT m) i m x)) sl TRIG_ZERO 0 (sl, x)) =
    Some (fst x, fold (\<lambda>i. g i (2 ^ (22 + i))) (triggers sl) (snd x))"
  unfolding trig_loop_vector
  by (simp only: option.map(2) option.inject, rule trigger_fold) (simp_all add: assms triggers_small)

lemma trigger_loops:
  "map_option snd (trig_loop 10 (\<lambda>i m (left, x). (left AND NOT m, debug_sc_trigger lvl jf st raw sh (left AND NOT m) i m x))
     sl TRIG_ZERO 0 (sl, x)) = Some (fst x, fold (\<lambda>i. sc_trigger st raw i (2 ^ (22 + i))) (triggers sl) (snd x))"
  "map_option snd (trig_loop 10 (\<lambda>i m (left, x). (left AND NOT m, debug_mc_trigger lvl jf st raw sh (left AND NOT m) i m x))
     sl TRIG_ZERO 0 (sl, x)) = Some (fst x, fold (\<lambda>i. mc_trigger st raw i (2 ^ (22 + i))) (triggers sl) (snd x))"
  by (rule trigger_loop, simp add: debug_sc_trigger_def debug_mc_trigger_def)+

lemma debug_sc_entry_act: "debug_sc_entry lvl jf sl sh x = Some (sc_log lvl jf sl sh x, sc_act sl sh (snd x))"
  by (cases "sl AND SELF_INC_TRIGGER = 0"; cases "lvl \<ge> 3")
    (simp_all add: debug_sc_entry_def trigger_loops [unfolded case_prod_unfold] sc_act_def sc_log_def next_count_def stamp64_def log_sc_selfinc_def
      libera_sc_selfinc_specific_def Let_def case_prod_unfold)

lemma debug_mc_entry_act: "debug_mc_entry lvl jf sl sh x = Some (mc_log lvl jf sl sh x, mc_act sl sh (snd x))"
  by (cases "sl AND SELF_INC_TRIGGER = 0"; cases "lvl \<ge> 3")
    (simp_all add: debug_mc_entry_def trigger_loops [unfolded case_prod_unfold] mc_act_def mc_log_def next_count_def stamp64_def log_mc_selfinc_def
      Let_def case_prod_unfold)

section \<open>The limit on the timing handlers\<close>

text \<open>A module whose entries are handled as in the production build, with a log beside.\<close>

locale debug_module = timing_module +
  fixes ck :: clock
    and dentry :: "u32 \<Rightarrow> u32 \<Rightarrow> dlibera \<Rightarrow> dlibera option" and elog :: "u32 \<Rightarrow> u32 \<Rightarrow> dlibera \<Rightarrow> dbg"
  assumes regs: "statusl = STATUSL ck" "statush = STATUSH ck" "fifoadv = FIFOADV ck"
    and dentry_act: "dentry sl sh x = Some (elog sl sh x, act sl sh (snd x))"
    and elog_spin: "irq_spin (elog sl sh x) = irq_spin (fst x)"
begin

abbreviation taken :: "u32 \<Rightarrow> libera \<Rightarrow> libera" where
  "taken sl s \<equiv> act sl (fst (readl statush s)) (snd (readl fifoadv (snd (readl statush s))))"

abbreviation reread :: "libera \<Rightarrow> libera" where
  "reread s \<equiv> snd (readl SBC_IRQ (snd (readl statusl (snd (readl SBC_IRQ s)))))"

abbreviation shown :: "libera \<Rightarrow> u32" where
  "shown s \<equiv> fst (readl statusl (snd (readl SBC_IRQ s)))"

lemma loop_step:
  "timing_loop statusl statush fifoadv entry sl s =
     (if T_FIFO_SIZE sl = 0 then Some s
      else timing_loop statusl statush fifoadv entry (shown (taken sl s)) (reread (taken sl s)))"
  by (subst timing_loop.simps) (simp add: case_prod_unfold Let_def entry_act del: fst_readl)

abbreviation logged :: "u32 \<Rightarrow> dbg \<Rightarrow> libera \<Rightarrow> dbg" where
  "logged sl d s \<equiv> elog sl (fst (readl statush s)) (d, snd (readl fifoadv (snd (readl statush s))))"

lemma debug_step:
  "debug_timing_loop lvl ck dentry n sl d s =
     (if T_FIFO_SIZE sl = 0 then Some (True, d, s)
      else if lvl \<ge> 2 \<and> n > 512
      then Some (False, PDEBUG [Deadlock_avoided (clock_name ck) (T_FIFO_SIZE sl)] (logged sl d s), taken sl s)
      else debug_timing_loop lvl ck dentry (n + 1) (shown (taken sl s)) (logged sl d s) (reread (taken sl s)))"
  by (subst debug_timing_loop.simps) (simp add: case_prod_unfold Let_def dentry_act regs del: fst_readl)

lemma taken_advances: "advances fifoadv (trace (taken sl s)) = Suc (advances fifoadv (trace s))"
  and reread_advances: "advances fifoadv (trace (reread s)) = advances fifoadv (trace s)"
  using regs_apart by (simp_all add: advances_def act_advances [unfolded advances_def])

lemma bounded:
  assumes "2 \<le> lvl" "n \<le> 513"
  shows "\<exists>ok e t. debug_timing_loop lvl ck dentry n sl d s = Some (ok, e, t) \<and>
    irq_spin e = irq_spin d \<and>
    (if ok then timing_loop statusl statush fifoadv entry sl s = Some t
     else advances fifoadv (trace t) = advances fifoadv (trace s) + (514 - n))"
  using assms(2)
proof (induction "513 - n" arbitrary: n sl d s)
  case 0
  then have "n = 513" by simp
  then show ?case
    using assms(1)
    by (cases "T_FIFO_SIZE sl = 0"; subst debug_step; subst loop_step; simp add: taken_advances ex_bool_eq elog_spin PDEBUG_def del: fst_readl)
next
  case (Suc k)
  show ?case
  proof (cases "T_FIFO_SIZE sl = 0")
    case True
    then show ?thesis by (subst debug_step; subst loop_step) (simp add: ex_bool_eq)
  next
    case False
    have k: "k = 513 - (n + 1)" "n + 1 \<le> 513" "\<not> 512 < n" using Suc.hyps(2) by simp_all
    have "advances fifoadv (trace (reread (taken sl s))) + (514 - (n + 1)) = advances fifoadv (trace s) + (514 - n)"
      unfolding reread_advances taken_advances using k by simp
    then show ?thesis
      using Suc.hyps(1) [OF k(1,2), of "shown (taken sl s)" "logged sl d s" "reread (taken sl s)"]
      by (subst debug_step; subst loop_step) (simp only: False k(3) if_False simp_thms elog_spin fst_conv)
  qed
qed

lemma handler_bounded:
  assumes "2 \<le> lvl"
  shows "\<exists>e t. map_option (\<lambda>(ok, x). if ok then (fst x, g (snd x)) else x)
      (debug_timing_loop lvl ck dentry 0 (fst (readl statusl s)) d (snd (readl statusl s))) = Some (e, t) \<and>
    irq_spin e = irq_spin d \<and>
    (map_option g (timing_loop statusl statush fifoadv entry (fst (readl statusl s)) (snd (readl statusl s))) = Some t \<or>
     advances fifoadv (trace t) = advances fifoadv (trace s) + 514)"
proof -
  have a: "advances fifoadv (trace (snd (readl statusl s))) = advances fifoadv (trace s)"
    using regs_apart by (simp add: advances_def)
  obtain ok e t where t: "debug_timing_loop lvl ck dentry 0 (fst (readl statusl s)) d (snd (readl statusl s)) = Some (ok, e, t)"
    "irq_spin e = irq_spin d"
    "if ok then timing_loop statusl statush fifoadv entry (fst (readl statusl s)) (snd (readl statusl s)) = Some t
     else advances fifoadv (trace t) = advances fifoadv (trace (snd (readl statusl s))) + (514 - 0)"
    using bounded [OF assms, of 0 "fst (readl statusl s)" d "snd (readl statusl s)"] by blast
  show ?thesis
    by (rule exI [of _ e], rule exI [of _ "if ok then g t else t"]) (use t a in \<open>cases ok; simp del: fst_readl\<close>)
qed

lemma same_returns:
  assumes "lvl < 2" "\<And>sl sh x. elog sl sh x = fst x"
    and "timing_loop statusl statush fifoadv entry sl s = Some t"
  shows "debug_timing_loop lvl ck dentry n sl d s = Some (True, d, t)"
proof -
  let ?Q = "\<lambda>a b c e sl s t. a = statusl \<longrightarrow> b = statush \<longrightarrow> c = fifoadv \<longrightarrow> e = entry \<longrightarrow>
    (\<forall>n. debug_timing_loop lvl ck dentry n sl d s = Some (True, d, t))"
  have "?Q statusl statush fifoadv entry sl s t"
  proof (rule timing_loop.raw_induct [OF _ assms(3), of ?Q], intro impI allI)
    fix rec a b c e sl s t n
    assume IH: "\<And>a b c e sl s t. rec a b c e sl s = Some t \<Longrightarrow> ?Q a b c e sl s t"
      and r: "(if T_FIFO_SIZE sl = 0 then Some s
        else let (sh, s) = readl b s; (tex, s) = readl c s
          in Option.bind (e sl sh s) (\<lambda>s. let s = snd (readl SBC_IRQ s); (sl, s) = readl a s; s = snd (readl SBC_IRQ s)
            in rec a b c e sl s)) = Some t"
      and e: "a = statusl" "b = statush" "c = fifoadv" "e = entry"
    show "debug_timing_loop lvl ck dentry n sl d s = Some (True, d, t)"
    proof (cases "T_FIFO_SIZE sl = 0")
      case True
      then show ?thesis using r unfolding e by (subst debug_step) simp
    next
      case False
      then have "rec a b c e (shown (taken sl s)) (reread (taken sl s)) = Some t"
        using r by (simp add: e case_prod_unfold Let_def entry_act del: fst_readl)
      from IH [OF this] show ?thesis
        using False assms(1,2) e by (subst debug_step) (simp add: Let_def del: fst_readl)
    qed
  qed
  then show ?thesis by simp
qed

lemma same_ends:
  assumes "lvl < 2" "debug_timing_loop lvl ck dentry n sl d s = Some r"
  shows "timing_loop statusl statush fifoadv entry sl s \<noteq> None"
proof -
  let ?Q = "\<lambda>l k e n sl d s r. l = lvl \<longrightarrow> k = ck \<longrightarrow> e = dentry \<longrightarrow>
    timing_loop statusl statush fifoadv entry sl s \<noteq> None"
  have "?Q lvl ck dentry n sl d s r"
  proof (rule debug_timing_loop.raw_induct [OF _ assms(2), of ?Q], intro impI)
    fix rec l k e n sl d s r
    assume IH: "\<And>l k e n sl d s r. rec l k e n sl d s = Some r \<Longrightarrow> ?Q l k e n sl d s r"
      and r: "(if T_FIFO_SIZE sl = 0 then Some (True, d, s)
        else let (sh, s) = readl (STATUSH k) s; (tex, s) = readl (FIFOADV k) s
          in Option.bind (e sl sh (d, s)) (\<lambda>(d, s). if l \<ge> 2 \<and> n > 512
            then Some (False, PDEBUG [Deadlock_avoided (clock_name k) (T_FIFO_SIZE sl)] d, s)
            else let s = snd (readl SBC_IRQ s); (sl, s) = readl (STATUSL k) s; s = snd (readl SBC_IRQ s)
            in rec l k e (n + 1) sl d s)) = Some r"
      and e: "l = lvl" "k = ck" "e = dentry"
    show "timing_loop statusl statush fifoadv entry sl s \<noteq> None"
    proof (cases "T_FIFO_SIZE sl = 0")
      case True
      then show ?thesis by (subst loop_step) simp
    next
      case False
      then have "rec l k e (n + 1) (shown (taken sl s)) (logged sl d s) (reread (taken sl s)) = Some r"
        using r assms(1) by (simp add: e regs case_prod_unfold Let_def dentry_act del: fst_readl)
      from IH [OF this] show ?thesis
        using False e by (subst loop_step) simp
    qed
  qed
  then show ?thesis by simp
qed

lemma same:
  assumes "lvl < 2" "\<And>sl sh x. elog sl sh x = fst x"
  shows "debug_timing_loop lvl ck dentry n sl d s =
    map_option (\<lambda>s. (True, d, s)) (timing_loop statusl statush fifoadv entry sl s)"
proof (cases "timing_loop statusl statush fifoadv entry sl s")
  case None
  then show ?thesis
    using same_ends [OF assms(1), of n sl d s]
    by (cases "debug_timing_loop lvl ck dentry n sl d s") auto
qed (simp add: same_returns [OF assms])

end

interpretation dbg_sc: debug_module T_SC_STATUSL T_SC_STATUSH T_SC_FIFOADV sc_entry sc_act SC_clock "debug_sc_entry lvl jf" "sc_log lvl jf"
  for lvl jf
  by unfold_locales (simp_all add: debug_sc_entry_act sc_log_def log_sc_selfinc_def PDEBUG_def case_prod_unfold Let_def)

interpretation dbg_mc: debug_module T_MC_STATUSL T_MC_STATUSH T_MC_FIFOADV mc_entry mc_act MC_clock "debug_mc_entry lvl jf" "mc_log lvl jf"
  for lvl jf
  by unfold_locales (simp_all add: debug_mc_entry_act mc_log_def log_mc_selfinc_def PDEBUG_def case_prod_unfold Let_def)

section \<open>The limit on the slow acquisition handler\<close>

lemma sa_step: "sa_handler_loop s =
    (if SA_SIZE (fst (readl SA_STATUS (sa_read_atom s))) \<noteq> 0 then sa_handler_loop (sa_pass s) else Some (sa_pass s))"
  by (subst sa_handler_loop.simps) (simp add: case_prod_unfold Let_def sa_pass_def)

lemma debug_sa_step: "debug_sa_loop lvl n s =
    (if lvl \<ge> 2 \<and> n > 10 then Some (sa_pass s)
     else if SA_SIZE (fst (readl SA_STATUS (sa_read_atom s))) \<noteq> 0 then debug_sa_loop lvl (n + 1) (sa_pass s)
     else Some (sa_pass s))"
  by (subst debug_sa_loop.simps) (simp add: case_prod_unfold Let_def sa_pass_def)

lemma polls_block:
  assumes "\<forall>i<n. a + 4 * of_nat i \<noteq> SA_STATUS"
  shows "polls (trace (snd (libera_readlBlock a n s))) = polls (trace s)"
  using assms by (simp add: readlBlock_addrs polls_def rev_filter [symmetric] filter_map comp_def case_prod_unfold filter_empty_conv)
    (auto dest!: set_zip_leftD)

lemma polls_atom: "polls (trace (sa_read_atom s)) = polls (trace s)"
proof -
  have "i = 0 \<or> i = 1 \<or> i = 2 \<or> i = 3 \<or> i = 4 \<or> i = 5 \<or> i = 6 \<or> i = 7" if "i < 8" for i :: nat
    using that by arith
  then have "\<forall>i<8. SA_FIFO_BASE + 4 * of_nat i \<noteq> SA_STATUS" "\<forall>i<8. FAI_CORR_BASE + 4 * of_nat i \<noteq> SA_STATUS"
    by (fastforce simp: reg_defs)+
  then show ?thesis by (simp add: sa_read_atom_def case_prod_unfold Let_def polls_block)
qed

lemma polls_pass: "polls (trace (sa_pass s)) = Suc (polls (trace s))"
  by (simp add: sa_pass_def sa_check_overrun_def polls_atom)

lemma sa_bounded:
  assumes "2 \<le> lvl" "n \<le> 11"
  shows "\<exists>t. debug_sa_loop lvl n s = Some t \<and> (sa_handler_loop s = Some t \<or> polls (trace t) = polls (trace s) + (12 - n))"
  using assms(2)
proof (induction "11 - n" arbitrary: n s)
  case 0
  then show ?case using assms(1) by (subst debug_sa_step) (simp add: polls_pass)
next
  case (Suc k)
  then have k: "k = 11 - (n + 1)" "n + 1 \<le> 11" "\<not> 10 < n" by simp_all
  show ?case
  proof (cases "SA_SIZE (fst (readl SA_STATUS (sa_read_atom s))) = 0")
    case True
    then show ?thesis using k(3) by (subst debug_sa_step; subst sa_step) simp
  next
    case False
    obtain t where "debug_sa_loop lvl (n + 1) (sa_pass s) = Some t"
      "sa_handler_loop (sa_pass s) = Some t \<or> polls (trace t) = polls (trace (sa_pass s)) + (12 - (n + 1))"
      using Suc.hyps(1) [OF k(1,2)] by blast
    then show ?thesis
      using False k by (subst debug_sa_step; subst sa_step) (auto simp: polls_pass simp del: fst_readl)
  qed
qed

lemma sa_same_returns: "lvl < 2 \<Longrightarrow> sa_handler_loop s = Some t \<Longrightarrow> debug_sa_loop lvl n s = Some t"
proof -
  assume l: "lvl < 2" and r: "sa_handler_loop s = Some t"
  have "\<forall>n. debug_sa_loop lvl n s = Some t"
  proof (rule sa_handler_loop.raw_induct [OF _ r, of "\<lambda>s t. \<forall>n. debug_sa_loop lvl n s = Some t"], intro allI)
    fix rec s t n
    assume IH: "\<And>s t. rec s = Some t \<Longrightarrow> \<forall>n. debug_sa_loop lvl n s = Some t"
      and r: "(let s = sa_read_atom s; (FIFOstatus, s) = readl SA_STATUS s; s = sa_check_overrun FIFOstatus s
        in if SA_SIZE FIFOstatus \<noteq> 0 then rec s else Some s) = Some t"
    from r have "(if SA_SIZE (fst (readl SA_STATUS (sa_read_atom s))) \<noteq> 0 then rec (sa_pass s) else Some (sa_pass s)) = Some t"
      unfolding case_prod_unfold Let_def sa_pass_def .
    then show "debug_sa_loop lvl n s = Some t"
      using l IH [of "sa_pass s" t] by (subst debug_sa_step) (auto split: if_splits simp del: fst_readl)
  qed
  then show ?thesis by blast
qed

lemma sa_same_ends: "lvl < 2 \<Longrightarrow> debug_sa_loop lvl n s = Some t \<Longrightarrow> sa_handler_loop s \<noteq> None"
proof -
  assume l: "lvl < 2" and r: "debug_sa_loop lvl n s = Some t"
  have "lvl = lvl \<longrightarrow> sa_handler_loop s \<noteq> None"
  proof (rule debug_sa_loop.raw_induct [OF _ r, of "\<lambda>l n s t. l = lvl \<longrightarrow> sa_handler_loop s \<noteq> None"], intro impI)
    fix rec k n s t
    assume IH: "\<And>k n s t. rec k n s = Some t \<Longrightarrow> k = lvl \<longrightarrow> sa_handler_loop s \<noteq> None"
      and r: "(let s = sa_read_atom s; (FIFOstatus, s) = readl SA_STATUS s; s = sa_check_overrun FIFOstatus s
        in if k \<ge> 2 \<and> n > 10 then Some s else if SA_SIZE FIFOstatus \<noteq> 0 then rec k (n + 1) s else Some s) = Some t"
      and k: "k = lvl"
    from r k l have "(if SA_SIZE (fst (readl SA_STATUS (sa_read_atom s))) \<noteq> 0 then rec lvl (n + 1) (sa_pass s) else Some (sa_pass s)) = Some t"
      unfolding case_prod_unfold Let_def sa_pass_def by (auto split: if_splits simp del: fst_readl)
    then show "sa_handler_loop s \<noteq> None"
      using IH [of lvl "n + 1" "sa_pass s" t] by (subst sa_step) (auto split: if_splits simp del: fst_readl)
  qed
  then show ?thesis by simp
qed

lemma sa_same: "lvl < 2 \<Longrightarrow> debug_sa_loop lvl n s = sa_handler_loop s"
  using sa_same_returns sa_same_ends by (cases "sa_handler_loop s"; cases "debug_sa_loop lvl n s") (fastforce, fastforce, fastforce, fastforce)

section \<open>The handlers\<close>

text \<open>Below level 2 the handlers are those of the production build.\<close>

lemma handlers_same:
  assumes "lvl < 2"
  shows "debug_sc_handler lvl jf (d, s) = map_option (Pair d) (libera_sc_handler s)"
    and "debug_mc_handler lvl jf (d, s) = map_option (Pair d) (libera_mc_handler s)"
    and "debug_sa_handler lvl s = libera_sa_handler s"
proof -
  have l: "sc_log lvl jf sl sh x = fst x" "mc_log lvl jf sl sh x = fst x" for sl sh x
    using assms by (simp_all add: sc_log_def mc_log_def)
  show "debug_sc_handler lvl jf (d, s) = map_option (Pair d) (libera_sc_handler s)"
    "debug_mc_handler lvl jf (d, s) = map_option (Pair d) (libera_mc_handler s)"
    by (simp_all add: debug_sc_handler_def libera_sc_handler_def debug_mc_handler_def libera_mc_handler_def case_prod_unfold
        dbg_sc.same [OF assms l(1)] dbg_mc.same [OF assms l(2)] option.map_comp comp_def)
  show "debug_sa_handler lvl s = libera_sa_handler s"
    by (simp add: debug_sa_handler_def libera_sa_handler_def libera_sa_handler_specific_def case_prod_unfold Let_def sa_same [OF assms])
qed

text \<open>From level 2 on they return.\<close>

lemma handlers_bounded:
  assumes "2 \<le> lvl"
  shows "\<exists>e t. debug_sc_handler lvl jf (d, s) = Some (e, t) \<and> irq_spin e = irq_spin d \<and>
      (libera_sc_handler s = Some t \<or> advances T_SC_FIFOADV (trace t) = advances T_SC_FIFOADV (trace s) + 514)"
    and "\<exists>e t. debug_mc_handler lvl jf (d, s) = Some (e, t) \<and> irq_spin e = irq_spin d \<and>
      (libera_mc_handler s = Some t \<or> advances T_MC_FIFOADV (trace t) = advances T_MC_FIFOADV (trace s) + 514)"
    and "\<exists>t. debug_sa_handler lvl s = Some t \<and>
      (libera_sa_handler s = Some t \<or> polls (trace t) = polls (trace s) + 13)"
proof -
  show "\<exists>e t. debug_sc_handler lvl jf (d, s) = Some (e, t) \<and> irq_spin e = irq_spin d \<and>
      (libera_sc_handler s = Some t \<or> advances T_SC_FIFOADV (trace t) = advances T_SC_FIFOADV (trace s) + 514)"
    using dbg_sc.handler_bounded [OF assms]
    unfolding debug_sc_handler_def libera_sc_handler_def case_prod_unfold Let_def fst_conv snd_conv by blast
  show "\<exists>e t. debug_mc_handler lvl jf (d, s) = Some (e, t) \<and> irq_spin e = irq_spin d \<and>
      (libera_mc_handler s = Some t \<or> advances T_MC_FIFOADV (trace t) = advances T_MC_FIFOADV (trace s) + 514)"
    using dbg_mc.handler_bounded [OF assms]
    unfolding debug_mc_handler_def libera_mc_handler_def case_prod_unfold Let_def fst_conv snd_conv by blast
  show "\<exists>t. debug_sa_handler lvl s = Some t \<and>
      (libera_sa_handler s = Some t \<or> polls (trace t) = polls (trace s) + 13)"
    using sa_bounded [OF assms, of 0 "sa_check_overrun (fst (readl SA_STATUS s)) (snd (readl SA_STATUS s))"]
    by (auto simp: debug_sa_handler_def libera_sa_handler_def libera_sa_handler_specific_def case_prod_unfold Let_def
        sa_check_overrun_def simp del: fst_readl)
qed

section \<open>The interrupt handler\<close>

lemma pass_same: "lvl < 2 \<Longrightarrow> debug_irq_pass lvl jf v (d, s) = map_option (Pair d) (irq_pass v s)"
proof -
  assume l: "lvl < 2"
  have h: "(if b then debug_sc_handler lvl jf (d, s) else Some (d, s)) = map_option (Pair d) (if b then libera_sc_handler s else Some s)"
    "(if b then debug_mc_handler lvl jf (d, s) else Some (d, s)) = map_option (Pair d) (if b then libera_mc_handler s else Some s)"
    for b s by (simp_all add: handlers_same [OF l])
  have b: "Option.bind (map_option (Pair d) m) f = Option.bind m (\<lambda>s. f (d, s))" for m and f :: "dlibera \<Rightarrow> dlibera option"
    by (cases m) simp_all
  have m: "map_option f (Option.bind x g) = Option.bind x (\<lambda>y. map_option f (g y))" for f :: "libera \<Rightarrow> dlibera" and x :: "libera option" and g
    by (cases x) simp_all
  have i: "(if c then (d, libera_ilk_handler s) else (d, s)) = (d, if c then libera_ilk_handler s else s)" for c by simp
  show ?thesis
    unfolding debug_irq_pass_def irq_pass_def Let_def fst_conv snd_conv i h b m handlers_same(3) [OF l] ..
qed

lemma irq_same_returns: "lvl < 2 \<Longrightarrow> irq_loop s = Some t \<Longrightarrow>
    debug_irq_loop lvl jf n d s = Some (IRQ_HANDLED, d\<lparr>irq_spin := False\<rparr>, t)"
proof -
  assume l: "lvl < 2" and r: "irq_loop s = Some t"
  let ?Q = "\<lambda>s t. \<forall>n. debug_irq_loop lvl jf n d s = Some (IRQ_HANDLED, d\<lparr>irq_spin := False\<rparr>, t)"
  have "?Q s t"
  proof (rule irq_loop.raw_induct [OF _ r, of ?Q], intro allI)
    fix rec s t n
    assume IH: "\<And>s t. rec s = Some t \<Longrightarrow> ?Q s t"
      and r: "(let (v, s) = readl SBC_IRQ s; int_vec = v AND get_irqMask s
        in if int_vec = 0 then Some s else Option.bind (irq_pass int_vec s) rec) = Some t"
    let ?v = "fst (readl SBC_IRQ s) AND get_irqMask (snd (readl SBC_IRQ s))" and ?s = "snd (readl SBC_IRQ s)"
    show "debug_irq_loop lvl jf n d s = Some (IRQ_HANDLED, d\<lparr>irq_spin := False\<rparr>, t)"
    proof (cases "?v = 0")
      case True
      then show ?thesis using r l by (subst debug_irq_loop.simps) (simp add: case_prod_unfold Let_def del: fst_readl)
    next
      case False
      with r obtain u where "irq_pass ?v ?s = Some u" "rec u = Some t"
        by (auto simp: case_prod_unfold Let_def Option.bind_eq_Some_conv simp del: fst_readl)
      then show ?thesis
        using False l IH by (subst debug_irq_loop.simps) (simp add: case_prod_unfold Let_def pass_same del: fst_readl)
    qed
  qed
  then show ?thesis by simp
qed

lemma irq_same_ends: "lvl < 2 \<Longrightarrow> debug_irq_loop lvl jf n d s = Some r \<Longrightarrow> irq_loop s \<noteq> None"
proof -
  assume l: "lvl < 2" and r: "debug_irq_loop lvl jf n d s = Some r"
  let ?Q = "\<lambda>k j n d s r. k = lvl \<longrightarrow> irq_loop s \<noteq> None"
  have "?Q lvl jf n d s r"
  proof (rule debug_irq_loop.raw_induct [OF _ r, of ?Q], intro impI)
    fix rec k j n d s r
    assume IH: "\<And>k j n d s r. rec k j n d s = Some r \<Longrightarrow> ?Q k j n d s r"
      and r: "(let (v, s) = readl SBC_IRQ s; int_vec = v AND get_irqMask s
        in if int_vec = 0 then Some (IRQ_HANDLED, d\<lparr>irq_spin := False\<rparr>, if k \<ge> 3 then snd (readl SBC_IRQ s) else s)
           else Option.bind (debug_irq_pass k j int_vec (d, s)) (\<lambda>(d, s).
             if k \<ge> 2 \<and> n > 256 then let (v, s) = readl SBC_IRQ s in Some (IRQ_NONE, PDEBUG [Int_deadlock_avoided v int_vec] d, s)
             else rec k j (n + 1) d s)) = Some r"
      and k: "k = lvl"
    let ?v = "fst (readl SBC_IRQ s) AND get_irqMask (snd (readl SBC_IRQ s))" and ?s = "snd (readl SBC_IRQ s)"
    show "irq_loop s \<noteq> None"
    proof (cases "?v = 0")
      case True
      then show ?thesis by (subst irq_loop.simps) (simp add: case_prod_unfold Let_def del: fst_readl)
    next
      case False
      with r l obtain u where "irq_pass ?v ?s = Some u" "rec k j (n + 1) d u = Some r"
        by (auto simp: k case_prod_unfold Let_def Option.bind_eq_Some_conv pass_same simp del: fst_readl)
      then show ?thesis
        using False k IH [of k j "n + 1" d u r] by (subst irq_loop.simps) (simp add: case_prod_unfold Let_def del: fst_readl)
    qed
  qed
  then show ?thesis by simp
qed

lemma debug_below_2:
  assumes "lvl < 2"
  shows "debug_interrupt lvl jf irq (d, s) =
    map_option (\<lambda>(r, t). (r, if irq = g_irq (lgbl s) then d\<lparr>irq_spin := False\<rparr> else d, t)) (libera_interrupt irq s)"
  using irq_same_returns [OF assms, of s _ jf 0 "d\<lparr>irq_spin := True\<rparr>"] irq_same_ends [OF assms, of jf 0 "d\<lparr>irq_spin := True\<rparr>" s]
  by (cases "irq_loop s"; cases "debug_irq_loop lvl jf 0 (d\<lparr>irq_spin := True\<rparr>) s")
    (auto simp: debug_interrupt_def libera_interrupt_def)

text \<open>From level 2 on a pass returns and leaves the spin lock alone.\<close>

lemma some_pair: "\<exists>t. m = Some t \<Longrightarrow> P d \<Longrightarrow> \<exists>e t. map_option (Pair d) m = Some (e, t) \<and> P e"
  by auto

lemma pass_returns:
  assumes "2 \<le> lvl"
  shows "\<exists>e t. debug_irq_pass lvl jf v (d, s) = Some (e, t) \<and> irq_spin e = irq_spin d"
proof -
  let ?s = "if v AND LIBERA_INTERRUPT_ILK_MASK \<noteq> 0 then libera_ilk_handler s else s"
  obtain e1 s1 where 1: "(if v AND LIBERA_INTERRUPT_SC_MASK \<noteq> 0 then debug_sc_handler lvl jf (d, ?s) else Some (d, ?s)) = Some (e1, s1)"
    "irq_spin e1 = irq_spin d"
    using handlers_bounded(1) [OF assms, of jf d ?s] by (cases "v AND LIBERA_INTERRUPT_SC_MASK = 0") auto
  obtain e2 s2 where 2: "(if v AND LIBERA_INTERRUPT_MC_MASK \<noteq> 0 then debug_mc_handler lvl jf (e1, s1) else Some (e1, s1)) = Some (e2, s2)"
    "irq_spin e2 = irq_spin e1"
    using handlers_bounded(2) [OF assms, of jf e1 s1] by (cases "v AND LIBERA_INTERRUPT_MC_MASK = 0") auto
  have 3: "\<exists>t. (if v AND LIBERA_INTERRUPT_SA_MASK \<noteq> 0 then debug_sa_handler lvl x else Some x) = Some t" for x
    using handlers_bounded(3) [OF assms, of x] by auto
  have i: "(if c then (d, libera_ilk_handler s) else (d, s)) = (d, if c then libera_ilk_handler s else s)" for c by simp
  show ?thesis
    unfolding debug_irq_pass_def Let_def fst_conv snd_conv i 1(1) Option.bind.bind_lunit 2(1)
    by (rule some_pair [OF 3]) (simp only: 1(2) 2(2))
qed

lemma irq_step:
  assumes "debug_irq_pass lvl jf (fst (readl SBC_IRQ s) AND get_irqMask (snd (readl SBC_IRQ s))) (d, snd (readl SBC_IRQ s)) = Some (e, t)"
  shows "debug_irq_loop lvl jf n d s =
    (if fst (readl SBC_IRQ s) AND get_irqMask (snd (readl SBC_IRQ s)) = 0
     then Some (IRQ_HANDLED, d\<lparr>irq_spin := False\<rparr>,
       if lvl \<ge> 3 then snd (readl SBC_IRQ (snd (readl SBC_IRQ s))) else snd (readl SBC_IRQ s))
     else if lvl \<ge> 2 \<and> n > 256
     then Some (IRQ_NONE, PDEBUG [Int_deadlock_avoided (fst (readl SBC_IRQ t))
       (fst (readl SBC_IRQ s) AND get_irqMask (snd (readl SBC_IRQ s)))] e, snd (readl SBC_IRQ t))
     else debug_irq_loop lvl jf (n + 1) e t)"
  by (subst debug_irq_loop.simps) (simp add: case_prod_unfold Let_def assms del: fst_readl)

lemma irq_returns:
  assumes "2 \<le> lvl" "n \<le> 257" "irq_spin d"
  shows "\<exists>r e t. debug_irq_loop lvl jf n d s = Some (r, e, t) \<and> irq_spin e = (r = IRQ_NONE)"
  using assms(2,3)
proof (induction "257 - n" arbitrary: n d s)
  case 0
  obtain e t where p: "debug_irq_pass lvl jf (fst (readl SBC_IRQ s) AND get_irqMask (snd (readl SBC_IRQ s))) (d, snd (readl SBC_IRQ s)) = Some (e, t)"
    "irq_spin e = irq_spin d"
    using pass_returns [OF assms(1)] by blast
  have "2 \<le> lvl \<and> 256 < n" using 0 assms(1) by simp
  then show ?case
    unfolding irq_step [OF p(1)] using p(2) 0(3)
    by (cases "fst (readl SBC_IRQ s) AND get_irqMask (snd (readl SBC_IRQ s)) = 0")
      (simp_all only: simp_thms if_True if_False option.inject prod.inject, simp_all add: PDEBUG_def del: fst_readl)
next
  case (Suc k)
  obtain e t where p: "debug_irq_pass lvl jf (fst (readl SBC_IRQ s) AND get_irqMask (snd (readl SBC_IRQ s))) (d, snd (readl SBC_IRQ s)) = Some (e, t)"
    "irq_spin e = irq_spin d"
    using pass_returns [OF assms(1)] by blast
  have k: "k = 257 - (n + 1)" "n + 1 \<le> 257" "\<not> 256 < n" using Suc.hyps(2) by simp_all
  have "\<exists>r e' t'. debug_irq_loop lvl jf (n + 1) e t = Some (r, e', t') \<and> irq_spin e' = (r = IRQ_NONE)"
    using Suc.hyps(1) [OF k(1,2)] p(2) Suc.prems(2) by simp
  then show ?case
    unfolding irq_step [OF p(1)]
    by (cases "fst (readl SBC_IRQ s) AND get_irqMask (snd (readl SBC_IRQ s)) = 0")
      (simp_all only: simp_thms k(3) if_True if_False option.inject prod.inject, simp_all)
qed

text \<open>An interlock that is never cleared: the handler leaves with the lock.\<close>

lemma ilk_bus [simp]: "fpga (libera_ilk_handler s) = fpga s" "irqMask (lgbl (libera_ilk_handler s)) = irqMask (lgbl s)"
  by (simp_all add: libera_ilk_handler_def libera_ilk_handler_specific_def case_prod_unfold Let_def)

lemma one_bit: "m AND 2 ^ n \<noteq> 0 \<Longrightarrow> 2 ^ n AND m = (2 ^ n :: u32)"
  by (rule bit_word_eqI) (auto simp: bit_simps and_exp_eq_0_iff_not_bit)

lemma interlock_keeps_lock:
  assumes "2 \<le> lvl" "\<And>tr. fpga s tr SBC_IRQ = LIBERA_INTERRUPT_ILK_MASK"
    and "irqMask (lgbl s) AND LIBERA_INTERRUPT_ILK_MASK \<noteq> 0" and "n \<le> 257"
  shows "\<exists>e t. debug_irq_loop lvl jf n d s = Some (IRQ_NONE, e, t) \<and> irq_spin e = irq_spin d"
proof -
  have v: "LIBERA_INTERRUPT_ILK_MASK AND irqMask (lgbl s) = LIBERA_INTERRUPT_ILK_MASK"
    using one_bit [of "irqMask (lgbl s)" 8] assms(3) by (simp add: LIBERA_INTERRUPT_ILK_MASK_def)
  have p: "debug_irq_pass lvl jf LIBERA_INTERRUPT_ILK_MASK (d, s) = Some (d, libera_ilk_handler s)" for d s
    by (simp add: debug_irq_pass_def Let_def reg_defs)
  have "\<forall>tr. fpga u tr SBC_IRQ = LIBERA_INTERRUPT_ILK_MASK \<Longrightarrow> irqMask (lgbl u) = irqMask (lgbl s) \<Longrightarrow>
    \<exists>e t. debug_irq_loop lvl jf n d u = Some (IRQ_NONE, e, t) \<and> irq_spin e = irq_spin d" for u
    using assms(4)
  proof (induction "257 - n" arbitrary: n u)
    case 0
    then show ?case using assms(1) v
      by (subst irq_step) (simp_all add: get_irqMask_def p PDEBUG_def, simp add: reg_defs)
  next
    case (Suc k)
    then show ?case using assms(1) v
      by (subst irq_step) (simp_all add: get_irqMask_def p PDEBUG_def, simp add: reg_defs)
  qed
  then show ?thesis using assms(2) by blast
qed

section \<open>The command that waits for a trigger\<close>

lemma wait_fifo_cases:
  "wait_fifo c q s = Some v \<Longrightarrow> v = (0, snd v) \<and> not_emptyFIFO (fifo_of q (snd v)) \<or> fst v = - ERESTARTSYS"
proof -
  assume r: "wait_fifo c q s = Some v"
  show ?thesis
  proof (rule wait_fifo.raw_induct [OF _ r,
        of "\<lambda>c q s v. v = (0, snd v) \<and> not_emptyFIFO (fifo_of q (snd v)) \<or> fst v = - ERESTARTSYS"])
    fix rec d q s v
    assume IH: "\<And>d q s v. rec d q s = Some v \<Longrightarrow>
        v = (0, snd v) \<and> not_emptyFIFO (fifo_of q (snd v)) \<or> fst v = - ERESTARTSYS"
      and r: "(if not_emptyFIFO (fifo_of q s) then Some (0, s)
        else if \<not> sigpend d s then rec d q (lock_event (schedule d (unlock_event s)))
        else Some (- ERESTARTSYS, s)) = Some v"
    show "v = (0, snd v) \<and> not_emptyFIFO (fifo_of q (snd v)) \<or> fst v = - ERESTARTSYS"
      using r IH by (auto split: if_splits)
  qed
qed

text \<open>The FIFOs of the triggers whose stamps are paired stay empty: a read of one never finds a stamp.\<close>

lemma paired_empty:
  assumes "driver_wf s" "paired i" "q = SC_ts i \<or> q = MC_ts i"
  shows "\<not> not_emptyFIFO (fifo_of q s)"
proof -
  have "trig_wf (fifo_of q s)" "trig_contents (fifo_of q s) = []"
    using assms wf_parts [OF assms(1)] by (auto simp: stamps_ok_def)
  then show ?thesis using ts.empty_contents [of "fifo_of q s"] by (simp add: emptyFIFO_def not_emptyFIFO_def)
qed

lemma paired_never:
  assumes "calm c" "driver_wf s" "paired i" "q = SC_ts i \<or> q = MC_ts i" "getBlockedFromFIFO c q s = Some (r, x, t)"
  shows "r \<noteq> 0" "driver_wf t"
proof -
  show "driver_wf t" using keptD [OF wf_getBlocked [OF assms(1,2)] assms(5)] by simp
  have w: "emptyFIFO (fifo_of q (lock_event s))"
    using paired_empty [of "lock_event s" i q] assms(2-4) by (auto simp: emptyFIFO_def not_emptyFIFO_def)
  have "fst v \<noteq> 0" if "wait_fifo c q (lock_event s) = Some v" for v
  proof -
    have "driver_wf (snd v)"
      using keptD [OF wait_fifo_keeps [of driver_wf c "lock_event s" q, OF wf_nap [OF assms(1)]] that] assms(2) by simp
    then show ?thesis
      using wait_fifo_cases [OF that] paired_empty [OF _ assms(3,4)] by (auto simp: ERESTARTSYS_def)
  qed
  then show "r \<noteq> 0"
    using assms(5) w by (auto simp: getBlockedFromFIFO_def Let_def ERESTARTSYS_def split: if_splits option.splits prod.splits)
qed

text \<open>So the command gives the user what the variable held, however often it is run.\<close>

lemma trigger_blocked_junk:
  assumes "calm c" "driver_wf s" "event_trigger_blocked c junk u s = Some r"
  shows "\<exists>t. driver_wf t \<and> r = give u (words_of_Ltimestamp junk) t"
proof -
  have p: "paired T_TRIG_TRIGGER" by (simp add: paired_def)
  obtain r1 x1 s1 r2 x2 s2 where g: "getBlockedFromFIFO c (SC_ts T_TRIG_TRIGGER) s = Some (r1, x1, s1)"
    "getBlockedFromFIFO c (MC_ts T_TRIG_TRIGGER) s1 = Some (r2, x2, s2)"
    "r = give u (words_of_Ltimestamp (if r2 = 0 then (if r1 = 0 then junk\<lparr>lst := x1\<rparr> else junk)\<lparr>lmt := x2\<rparr>
        else if r1 = 0 then junk\<lparr>lst := x1\<rparr> else junk)) s2"
    using assms(3) by (auto simp: event_trigger_blocked_def Let_def Option.bind_eq_Some_conv)
  have 1: "r1 \<noteq> 0" "driver_wf s1" using paired_never [OF assms(1,2) p _ g(1)] by simp_all
  have 2: "r2 \<noteq> 0" "driver_wf s2" using paired_never [OF assms(1) 1(2) p _ g(2)] by simp_all
  show ?thesis using g(3) 1(1) 2 by auto
qed

section \<open>The limit on waiting for a time\<close>

text \<open>From level 2 on a wait sleeps at most twice: it returns when the requests for the current time do.\<close>

lemma wait_clock_step:
  "debug_wait_clock_loop lvl n clk jiff c start dl t s =
     (if lvl \<ge> 2 \<and> n \<ge> 2 then Some (- EDEADLK, t, s)
      else
        let (ret, s) = libera_delay_jiffies_interruptible c (jiff (- dl) s) s in
        if ret \<noteq> 0 then Some (ret, t, s)
        else
          Option.bind (libera_get_CTIME c t s) (\<lambda>(ret, t, s).
            if ret \<noteq> 0 then Some (ret, t, s)
            else
              let dl = clk t - start - ucast (span32 LIBERA_DD_READSYNC_MARGIN s)
              in if sint dl < 0 then debug_wait_clock_loop lvl (n + 1) clk jiff c start dl t s else Some (0, t, s)))"
  by (subst debug_wait_clock_loop.simps) (simp add: DD_WAIT_TIMEOUT_def Suc_le_eq)

lemma debug_wait_returns:
  assumes "2 \<le> lvl" "\<And>t s. libera_get_CTIME c t s \<noteq> None" "n \<le> 2"
  shows "debug_wait_clock_loop lvl n clk jiff c start dl t s \<noteq> None"
  using assms(3)
proof (induction "2 - n" arbitrary: n dl t s)
  case 0
  then show ?case using assms(1) by (subst wait_clock_step) simp
next
  case (Suc k)
  have k: "k = 2 - (n + 1)" "n + 1 \<le> 2" "\<not> n \<ge> 2" using Suc.hyps(2) by simp_all
  have b: "Option.bind (libera_get_CTIME c t s) g \<noteq> None" if "\<And>v. g v \<noteq> None" for g :: "_ \<Rightarrow> (int \<times> Ltimestamp \<times> libera) option" and t s
    using assms(2) [of t s] that by auto
  show ?case
    unfolding wait_clock_step [of _ n] case_prod_unfold Let_def
    using k(3) Suc.hyps(1) [OF k(1,2)] by (simp add: b del: not_None_eq)
qed

section \<open>Interrupts of the debugging build\<close>

text \<open>
  C40: built for debugging at level 1, the driver handles an interrupt as the production build does. From
  level 2 on every interrupt returns, whatever the FPGA shows, where the production build can loop for ever:
  the two timing handlers give the state of the production build or have taken exactly 514 entries, the slow
  acquisition handler that state or has taken 12 atoms (13 looks at its status), and the interrupt handler
  returns \<^verbatim>\<open>IRQ_HANDLED\<close> with its spin lock free, or \<^verbatim>\<open>IRQ_NONE\<close> with the lock still held.
\<close>

theorem debug_interrupts_return:
  "if lvl < 2
   then debug_interrupt lvl jf irq (d, s) =
     map_option (\<lambda>(r, t). (r, if irq = g_irq (lgbl s) then d\<lparr>irq_spin := False\<rparr> else d, t)) (libera_interrupt irq s)
   else
     (\<exists>r e t. debug_interrupt lvl jf (g_irq (lgbl s)) (d, s) = Some (r, e, t) \<and> irq_spin e = (r = IRQ_NONE)) \<and>
     (\<exists>e t. debug_sc_handler lvl jf (d, s) = Some (e, t) \<and>
       (libera_sc_handler s = Some t \<or> advances T_SC_FIFOADV (trace t) = advances T_SC_FIFOADV (trace s) + 514)) \<and>
     (\<exists>e t. debug_mc_handler lvl jf (d, s) = Some (e, t) \<and>
       (libera_mc_handler s = Some t \<or> advances T_MC_FIFOADV (trace t) = advances T_MC_FIFOADV (trace s) + 514)) \<and>
     (\<exists>t. debug_sa_handler lvl s = Some t \<and>
       (libera_sa_handler s = Some t \<or> polls (trace t) = polls (trace s) + 13))"
proof (cases "lvl < 2")
  case True
  then show ?thesis using debug_below_2 by simp
next
  case False
  then have l: "2 \<le> lvl" by simp
  have "\<exists>r e t. debug_interrupt lvl jf (g_irq (lgbl s)) (d, s) = Some (r, e, t) \<and> irq_spin e = (r = IRQ_NONE)"
    using irq_returns [OF l, of 0 "d\<lparr>irq_spin := True\<rparr>" jf s] by (simp add: debug_interrupt_def)
  with False show ?thesis
    using handlers_bounded [OF l] unfolding if_not_P [OF False] by blast
qed

end
