(* ===== verification/Tools.thy ===== *)
theory Tools
  imports Msp
begin

text \<open>
  The small programs beside the drivers: the module that makes the flash writable (\<^verbatim>\<open>mtd-rw.c\<close>), the tool that
  prints what a flash device is (\<^verbatim>\<open>mtdinfo.c\<close>), and the test program of the voltage monitor (\<^verbatim>\<open>test.c\<close>). What
  they print is a list of lines. Numbers that come from headers of the kernel are parameters.
\<close>

section \<open>Numbers as \<^verbatim>\<open>printf\<close> prints them\<close>

definition hex_digit :: "u32 \<Rightarrow> char" where
  "hex_digit n = ''0123456789abcdef'' ! unat n"

text \<open>\<^verbatim>\<open>%08x\<close>.\<close>

definition hex8 :: "u32 \<Rightarrow> string" where
  "hex8 w = map (\<lambda>k. hex_digit (drop_bit (4 * k) w AND 15)) (rev [0..<8])"

text \<open>\<^verbatim>\<open>%d\<close>.\<close>

fun decimal :: "nat \<Rightarrow> string" where
  "decimal n = (if n < 10 then [''0123456789'' ! n] else decimal (n div 10) @ [''0123456789'' ! (n mod 10)])"

declare decimal.simps [simp del]

text \<open>
  \<^verbatim>\<open>%.3f\<close> of a 32-bit integer times 1e-3: the product differs from the exact thousandth by far less than half of
  the last digit printed, so the exact one is printed.
\<close>

definition milli :: "int \<Rightarrow> string" where
  "milli v = (let a = nat \<bar>v\<bar> in (if v < 0 then ''-'' else []) @ decimal (a div 1000) @ ''.'' @
     [''0123456789'' ! (a div 100 mod 10), ''0123456789'' ! (a div 10 mod 10), ''0123456789'' ! (a mod 10)])"

section \<open>Making the flash writable\<close>

text \<open>
  The kernel's table of flash devices: \<open>None\<close> stands for the null pointer. Following it is the result \<open>None\<close> of
  the operations. \<open>bits\<close> is \<^verbatim>\<open>MTD_CLEAR_BITS\<close>, \<open>devices\<close> is \<^verbatim>\<open>MAX_MTD_DEVICES\<close>.
\<close>

record mtd_info =
  mtd_size :: u32
  mtd_flags :: u32
  mtd_name :: string

type_synonym mtd_table = "nat \<Rightarrow> mtd_info option"

definition print_mtd :: "mtd_info option \<Rightarrow> nat \<Rightarrow> string list" where
  "print_mtd mtd n =
     (case mtd of None \<Rightarrow> []
      | Some m \<Rightarrow> ['' mtd'' @ decimal n @ '': '' @ hex8 (mtd_size m) @ '' '' @ hex8 (mtd_flags m) @ '' '' @ [CHR 0x22] @ mtd_name m @ [CHR 0x22]])"

definition write_enable_mtd :: "u32 \<Rightarrow> nat \<Rightarrow> mtd_table \<Rightarrow> mtd_table option" where
  "write_enable_mtd bits i t = map_option (\<lambda>m. t(i \<mapsto> m\<lparr>mtd_flags := mtd_flags m OR bits\<rparr>)) (t i)"

definition write_disable_mtd :: "u32 \<Rightarrow> nat \<Rightarrow> mtd_table \<Rightarrow> mtd_table option" where
  "write_disable_mtd bits i t = map_option (\<lambda>m. t(i \<mapsto> m\<lparr>mtd_flags := mtd_flags m AND NOT bits\<rparr>)) (t i)"

definition mtd_rw_init :: "u32 \<Rightarrow> nat \<Rightarrow> mtd_table \<Rightarrow> (int \<times> string list \<times> mtd_table) option" where
  "mtd_rw_init bits devices t =
     (let log = concat (map (\<lambda>i. print_mtd (t i) i) [0..<devices])
      in Option.bind (write_enable_mtd bits 0 t) (\<lambda>t.
         Option.bind (write_enable_mtd bits 1 t) (\<lambda>t. Some (0, log, t))))"

definition mtd_rw_exit :: "u32 \<Rightarrow> mtd_table \<Rightarrow> (string list \<times> mtd_table) option" where
  "mtd_rw_exit bits t =
     Option.bind (write_disable_mtd bits 0 t) (\<lambda>t.
     Option.bind (write_disable_mtd bits 1 t) (\<lambda>t. Some ([''Bye now.''], t)))"

section \<open>The flash information tool\<close>

record mtd_info_user =
  mtd_type :: u8
  mtd_uflags :: u32
  mtd_usize :: u32
  erasesize :: u32
  writesize :: u32
  oobsize :: u32

text \<open>\<^verbatim>\<open>MTD_WRITEABLE\<close>, \<^verbatim>\<open>MTD_BIT_WRITEABLE\<close>, \<^verbatim>\<open>MTD_NO_ERASE\<close> and \<^verbatim>\<open>MTD_POWERUP_LOCK\<close>.\<close>

record mtd_bits =
  WRITEABLE :: u32
  BIT_WRITEABLE :: u32
  NO_ERASE :: u32
  POWERUP_LOCK :: u32

definition mtd_types :: "string list" where
  "mtd_types = [''Absent'', ''RAM'', ''ROM'', ''NORFLASH'', ''NANDFLASH'', ''(unknown)'', ''DATAFLASH'', ''UBIVOLUME'']"

definition mtd_type_name :: "u8 \<Rightarrow> string" where
  "mtd_type_name t = (if t < 8 then mtd_types ! unat t else ''(unknown)'')"

definition mtd_flag_names :: "mtd_bits \<Rightarrow> u32 \<Rightarrow> string" where
  "mtd_flag_names b f =
     (if f AND WRITEABLE b \<noteq> 0 then '' writeable'' else []) @
     (if f AND BIT_WRITEABLE b \<noteq> 0 then '' bit-writeable'' else []) @
     (if f AND NO_ERASE b \<noteq> 0 then '' no-erase'' else []) @
     (if f AND POWERUP_LOCK b \<noteq> 0 then '' powerup-lock'' else [])"

definition mtd_lines :: "mtd_bits \<Rightarrow> string \<Rightarrow> mtd_info_user \<Rightarrow> string list" where
  "mtd_lines b arg m =
     [arg @ '': '' @ decimal (unat (mtd_type m)) @ '' '' @ hex8 (mtd_uflags m) @ '' '' @ hex8 (mtd_usize m) @ '' '' @
        hex8 (erasesize m) @ '' '' @ hex8 (writesize m) @ '' '' @ hex8 (oobsize m),
      arg @ '' type: '' @ mtd_type_name (mtd_type m),
      arg @ '' flags:'' @ mtd_flag_names b (mtd_uflags m),
      arg @ '' size = 0x'' @ hex8 (mtd_usize m) @ '', erasesize = 0x'' @ hex8 (erasesize m) @ '', writesize = 0x'' @ hex8 (writesize m)]"

text \<open>
  What the tool prints, and its exit status; \<open>dev\<close> is what opening a name gives (\<open>None\<close>: it fails) and what the
  ioctl gives for an open device. Messages of errors go to another stream.
\<close>

fun mtdinfo_loop :: "(string \<Rightarrow> mtd_info_user option option) \<Rightarrow> mtd_bits \<Rightarrow> string list \<Rightarrow> int \<times> string list" where
  "mtdinfo_loop dev b [] = (0, [])"
| "mtdinfo_loop dev b (arg # args) =
     (case dev arg of
        None \<Rightarrow> (1, [])
      | Some None \<Rightarrow> (1, [])
      | Some (Some m) \<Rightarrow> (let (r, ls) = mtdinfo_loop dev b args in (r, mtd_lines b arg m @ ls)))"

definition mtdinfo_main :: "(string \<Rightarrow> mtd_info_user option option) \<Rightarrow> mtd_bits \<Rightarrow> string list \<Rightarrow> int \<times> string list" where
  "mtdinfo_main dev b argv =
     (if length argv \<ge> 2 then mtdinfo_loop dev b (tl argv) else (1, [''Usage: '' @ hd argv @ '' <device>'']))"

section \<open>The test program of the voltage monitor\<close>

text \<open>
  The program reads one atom; what the variable held where the driver stores nothing is \<open>junk\<close>. The result is its exit
  status and the voltages it prints. \<open>node\<close> tells whether the device is there.
\<close>

definition msp_test :: "bool \<Rightarrow> 'd ssp_ops \<Rightarrow> bool \<Rightarrow> nat \<Rightarrow> int list \<Rightarrow> 'd \<Rightarrow> (int \<times> string list) option" where
  "msp_test node ops interrupted left junk d =
     (if \<not> (node \<and> msp_open False = 0) then Some (1, [])
      else
        Option.bind (msp_read ops interrupted left 32 d) (\<lambda>(r, voltages, d).
          if r > 0
          then Some (0, map (\<lambda>i. ''    '' @ milli ((if i < length voltages then voltages else junk) ! i)) [0..<8])
          else Some (1, [])))"

section \<open>Printed numbers can be read back\<close>

definition digit_value :: "char \<Rightarrow> nat" where
  "digit_value c = (if of_char c < (58 :: nat) then of_char c - 48 else of_char c - 87)"

definition read_number :: "nat \<Rightarrow> string \<Rightarrow> nat" where
  "read_number base s = foldl (\<lambda>n c. base * n + digit_value c) 0 s"

lemma digits:
  "n < 16 \<Longrightarrow> digit_value (''0123456789abcdef'' ! n) = n"
  "n < 10 \<Longrightarrow> digit_value (''0123456789'' ! n) = n"
proof -
  have "\<forall>n<16. digit_value (''0123456789abcdef'' ! n) = n" "\<forall>n<10. digit_value (''0123456789'' ! n) = n"
    by code_simp+
  then show "n < 16 \<Longrightarrow> digit_value (''0123456789abcdef'' ! n) = n"
    "n < 10 \<Longrightarrow> digit_value (''0123456789'' ! n) = n" by blast+
qed

lemma read_number_snoc: "read_number base (s @ [c]) = base * read_number base s + digit_value c"
  by (simp add: read_number_def)

lemma decimal_read: "read_number 10 (decimal n) = n"
proof (induction n rule: decimal.induct)
  case (1 n)
  then show ?case
    by (subst decimal.simps) (simp add: read_number_snoc digits, simp add: read_number_def digits)
qed

lemma hex_digit_value: "digit_value (hex_digit (w AND 15)) = unat (w AND 15)"
proof -
  have "w AND 15 \<le> 15" by (rule word_and_le1)
  then show ?thesis by (simp add: hex_digit_def digits word_le_nat_alt)
qed

lemma nibbles: "read_number 16 (map (\<lambda>k. hex_digit (drop_bit (4 * k) w AND 15)) (rev [i..<i + n])) = unat w div 16 ^ i mod 16 ^ n"
proof (induction n arbitrary: i)
  case 0
  then show ?case by (simp add: read_number_def)
next
  case (Suc n)
  have a: "v AND 15 = take_bit 4 v" for v :: u32 by (simp add: take_bit_eq_mask mask_eq_exp_minus_1)
  have d: "digit_value (hex_digit (drop_bit (4 * i) w AND 15)) = unat w div 16 ^ i mod 16"
    unfolding hex_digit_value unfolding a unsigned_take_bit_eq unat_drop_bit_eq
    by (simp add: take_bit_eq_mod drop_bit_eq_div power_mult)
  have "rev [i..<i + Suc n] = rev [Suc i..<Suc i + n] @ [i]" by (simp add: upt_conv_Cons)
  then show ?case
    by (simp only: map_append list.map read_number_snoc Suc d)
      (simp add: div_mult2_eq [symmetric] mod_mult2_eq mult.commute)
qed

lemma hex8_read: "read_number 16 (hex8 w) = unat w"
  using nibbles [of w 0 8] unsigned_less [of w] by (simp add: hex8_def del: unsigned_less)

section \<open>The flash module\<close>

text \<open>
  Loaded and unloaded, the module leaves the two devices without the flags, whether they had them before
  or not, and the others as they were; a missing device makes it follow a null pointer.
\<close>

lemma mtd_load_unload:
  assumes "t 0 = Some m" "t 1 = Some n"
  shows "mtd_rw_init bits devices t = Some (0, concat (map (\<lambda>i. print_mtd (t i) i) [0..<devices]),
      t(0 \<mapsto> m\<lparr>mtd_flags := mtd_flags m OR bits\<rparr>, 1 \<mapsto> n\<lparr>mtd_flags := mtd_flags n OR bits\<rparr>))"
    and "Option.bind (mtd_rw_init bits devices t) (\<lambda>(r, log, t). map_option snd (mtd_rw_exit bits t)) =
      Some (t(0 \<mapsto> m\<lparr>mtd_flags := mtd_flags m AND NOT bits\<rparr>, 1 \<mapsto> n\<lparr>mtd_flags := mtd_flags n AND NOT bits\<rparr>))"
proof -
  have b: "(f OR bits) AND NOT bits = f AND NOT bits" for f :: u32
    by (rule bit_word_eqI) (auto simp: bit_simps)
  show "mtd_rw_init bits devices t = Some (0, concat (map (\<lambda>i. print_mtd (t i) i) [0..<devices]),
      t(0 \<mapsto> m\<lparr>mtd_flags := mtd_flags m OR bits\<rparr>, 1 \<mapsto> n\<lparr>mtd_flags := mtd_flags n OR bits\<rparr>))"
    using assms by (simp add: mtd_rw_init_def write_enable_mtd_def)
  then show "Option.bind (mtd_rw_init bits devices t) (\<lambda>(r, log, t). map_option snd (mtd_rw_exit bits t)) =
      Some (t(0 \<mapsto> m\<lparr>mtd_flags := mtd_flags m AND NOT bits\<rparr>, 1 \<mapsto> n\<lparr>mtd_flags := mtd_flags n AND NOT bits\<rparr>))"
    by (simp add: mtd_rw_exit_def write_disable_mtd_def b fun_upd_twist)
qed

lemma mtd_load_missing: "t 0 = None \<or> t 1 = None \<Longrightarrow> mtd_rw_init bits devices t = None"
  by (cases "t 0"; cases "t 1") (simp_all add: mtd_rw_init_def write_enable_mtd_def)

section \<open>The flash information tool\<close>

text \<open>The tool prints what it can before the first device that cannot be read, and succeeds when there is none.\<close>

lemma mtdinfo_loop_prints:
  "mtdinfo_loop dev b args =
     (let good = takeWhile (\<lambda>a. \<exists>m. dev a = Some (Some m)) args
      in (if good = args then 0 else 1, concat (map (\<lambda>a. mtd_lines b a (the (the (dev a)))) good)))"
  by (induction args) (auto split: option.splits simp: Let_def simp del: takeWhile_eq_all_conv)

lemma type_name_unknown: "5 \<le> t \<Longrightarrow> t \<noteq> 6 \<Longrightarrow> t \<noteq> 7 \<Longrightarrow> mtd_type_name t = ''(unknown)''"
proof -
  assume h: "5 \<le> t" "t \<noteq> 6" "t \<noteq> 7"
  have "t < 8 \<Longrightarrow> unat t \<in> {5, 6, 7}" using h(1) by (auto simp: word_less_nat_alt word_le_nat_alt)
  moreover have "unat t \<noteq> 6" "unat t \<noteq> 7" using h(2,3) by (simp_all add: word_unat_eq_iff)
  ultimately show ?thesis by (auto simp: mtd_type_name_def mtd_types_def)
qed

section \<open>The test program\<close>

text \<open>
  Run after the driver has been loaded, the test program prints the eight voltages of one conversion in
  volts; it takes what is on its stack only when the driver stores less than it says, which it never does.
\<close>

lemma msp_test_prints:
  assumes "\<forall>n. length (samples n) = 8 \<and> list_all (\<lambda>x. x < 4096) (samples n)"
  shows "\<exists>c \<in> {1, 2}. msp_test True (mcu_ops samples duration) False 0 junk (msp_reset (mcu_ops samples duration) d) =
    Some (0, map (\<lambda>v. ''    '' @ milli v) (millivolts (samples (conversions d + c))))"
proof -
  let ?ops = "mcu_ops samples duration"
  obtain c where c: "c \<in> {1, 2}" "msp_reads ?ops 1 (msp_reset ?ops d) =
      Some (map (\<lambda>k. (32, msp_transform (map ucast (short_bytes (samples (conversions d + c + k)))))) [0..<1])"
    by (rule bexE [OF reads_after_reset [of samples duration 1 d]]) (use assms in blast)+
  obtain d' where r: "msp_read ?ops False 0 32 (msp_reset ?ops d) = Some (32, millivolts (samples (conversions d + c)), d')"
    using c(2) assms by (auto simp: Option.bind_eq_Some_conv transform_millivolts split: prod.splits)
  have l: "length (millivolts (samples n)) = 8" for n using assms by (simp add: millivolts_def res_coeff_def Let_def)
  show ?thesis
  proof (intro bexI [OF _ c(1)])
    have "map (\<lambda>i. ''    '' @ milli ((if i < length xs then xs else junk) ! i)) [0..<8] = map (\<lambda>v. ''    '' @ milli v) xs"
      if "length xs = 8" for xs
      using that by (intro nth_equalityI) simp_all
    then show "msp_test True ?ops False 0 junk (msp_reset ?ops d) =
        Some (0, map (\<lambda>v. ''    '' @ milli v) (millivolts (samples (conversions d + c))))"
      by (simp add: msp_test_def msp_open_def r l)
  qed
qed

end
