(* ===== verification/Firmware.thy ===== *)
theory Firmware
  imports Msp
begin

text \<open>
  What the firmware of the voltage monitor does before its main loop (\<^verbatim>\<open>msp_adc.c\<close>): it sets up the serial port
  and the converter and waits for the reference voltage. The peripheral registers are a record. The bits
  with names come from the header of the microcontroller, which is not in the repository: they are the
  parameter \<open>h\<close>.
\<close>

section \<open>The registers\<close>

record msp430_bits =
  SWRST :: u8
  CHAR_8 :: u8
  SYNC :: u8
  CKPH :: u8
  USPIE0 :: u8
  URXIE0 :: u8
  ADC12ON :: u16
  REF2_5V :: u16
  REFON :: u16
  MSC :: u16
  SHT0_0 :: u16
  SHP :: u16
  CONSEQ_1 :: u16
  ENC :: u16
  ADC12SC :: u16
  SREF_1 :: u8
  INCH :: "nat \<Rightarrow> u8"
  EOS :: u8
  WDTPW :: u16
  WDTHOLD :: u16

record msp430_regs =
  WDTCTL :: u16
  P3SEL :: u8
  U0CTL :: u8
  U0TCTL :: u8
  URCTL0 :: u8
  UBR1_0 :: u8
  UBR0_0 :: u8
  UMCTL0 :: u8
  ME1 :: u8
  IE1 :: u8
  P6SEL :: u8
  ADC12CTL0 :: u16
  ADC12CTL1 :: u16
  ADC12MCTL :: "u8 list"

section \<open>Setup\<close>

text \<open>
  The writes to \<^verbatim>\<open>U0CTL\<close> are kept apart, since the port is to be held in reset while it is configured: \<open>spi_hold\<close> are
  the steps up to its release, \<open>SPI_setup\<close> all of them.
\<close>

definition spi_hold :: "msp430_bits \<Rightarrow> msp430_regs \<Rightarrow> msp430_regs" where
  "spi_hold h r =
     (let r = r\<lparr>P3SEL := P3SEL r OR 0x0F\<rparr>;
          r = r\<lparr>U0CTL := U0CTL r OR SWRST h\<rparr>;
          r = r\<lparr>U0CTL := U0CTL r OR (CHAR_8 h OR SYNC h)\<rparr>;
          r = r\<lparr>U0TCTL := U0TCTL r OR CKPH h\<rparr>;
          r = r\<lparr>URCTL0 := 0\<rparr>;
          r = r\<lparr>UBR1_0 := 0\<rparr>;
          r = r\<lparr>UBR0_0 := 2\<rparr>;
          r = r\<lparr>UMCTL0 := 0\<rparr>
      in r\<lparr>ME1 := ME1 r OR USPIE0 h\<rparr>)"

definition SPI_setup :: "msp430_bits \<Rightarrow> msp430_regs \<Rightarrow> msp430_regs" where
  "SPI_setup h r =
     (let r = spi_hold h r;
          r = r\<lparr>U0CTL := U0CTL r AND NOT (SWRST h)\<rparr>
      in r\<lparr>IE1 := IE1 r OR URXIE0 h\<rparr>)"

definition Converter_setup :: "msp430_bits \<Rightarrow> msp430_regs \<Rightarrow> msp430_regs" where
  "Converter_setup h r =
     (let r = r\<lparr>P6SEL := P6SEL r OR 0xff\<rparr>;
          r = r\<lparr>ADC12CTL0 := ADC12ON h OR REF2_5V h OR REFON h OR MSC h OR SHT0_0 h\<rparr>;
          r = r\<lparr>ADC12CTL1 := SHP h OR CONSEQ_1 h\<rparr>
      in r\<lparr>ADC12MCTL := [SREF_1 h OR INCH h 0, SREF_1 h OR INCH h 1, SREF_1 h OR INCH h 2, SREF_1 h OR INCH h 3,
           SREF_1 h OR INCH h 4, SREF_1 h OR INCH h 5, SREF_1 h OR INCH h 6, SREF_1 h OR INCH h 7 OR EOS h] @
           drop 8 (ADC12MCTL r)\<rparr>)"

lemma unat_dec: "(n :: u16) \<noteq> 0 \<Longrightarrow> unat n = Suc (unat (n - 1))"
proof -
  assume "n \<noteq> 0"
  then have "0 < unat n" by (simp add: unat_gt_0)
  then show ?thesis by (subst unat_sub) (simp_all add: word_le_nat_alt)
qed

text \<open>The delay counts a 16-bit register down to 0, at least once; the result is the number of rounds.\<close>

function brief_pause :: "u16 \<Rightarrow> nat" where
  "brief_pause n = (let n = n - 1 in if n \<noteq> 0 then Suc (brief_pause n) else 1)"
  by auto

termination
  by (relation "measure (\<lambda>n. unat (n - 1))") (simp_all, use unat_dec in fastforce)

declare brief_pause.simps [simp del]

text \<open>
  The start of \<^verbatim>\<open>main\<close>, with the rounds of its delay. The transmit buffer and the flag set after it are those of
  \<open>fw_main\<close>. The start of a conversion in the main loop is \<open>start_conversion\<close>.
\<close>

definition fw_setup :: "msp430_bits \<Rightarrow> msp430_regs \<Rightarrow> nat \<times> msp430_regs \<times> firmware" where
  "fw_setup h r =
     (let r = r\<lparr>WDTCTL := WDTPW h OR WDTHOLD h\<rparr>;
          r = SPI_setup h r;
          r = Converter_setup h r;
          k = brief_pause 0x3600;
          r = r\<lparr>ADC12CTL0 := ADC12CTL0 r OR ENC h\<rparr>
      in (k, r, fw_main))"

definition start_conversion :: "msp430_bits \<Rightarrow> msp430_regs \<Rightarrow> msp430_regs" where
  "start_conversion h r = r\<lparr>ADC12CTL0 := ADC12CTL0 r OR ADC12SC h\<rparr>"

section \<open>What the setup gives\<close>

lemma brief_pause_rounds: "brief_pause n = (if n = 0 then 65536 else unat n)"
proof -
  have p: "n \<noteq> 0 \<Longrightarrow> brief_pause n = unat n" for n
  proof (induction n rule: brief_pause.induct)
    case (1 n)
    then show ?case using unat_dec [OF 1(2)] by (subst brief_pause.simps) (auto simp: Let_def)
  qed
  have "brief_pause 0 = Suc (brief_pause (- 1))" by (subst brief_pause.simps) (simp add: Let_def)
  moreover have "unat (- 1 :: u16) = 65535" by (simp add: unsigned_minus_1_eq_mask mask_eq_exp_minus_1)
  ultimately show ?thesis using p [of n] p [of "- 1"] by simp
qed

text \<open>
  What the code relies on from the header: the bits it combines in one register are apart. The port is in reset until
  all of its registers are written, and then released with the mode kept; the converter takes the channels 0
  to 7 in order, each against the reference, and only the last ends the sequence; it is enabled after the
  pause. So one start converts all eight voltages.
\<close>

definition bits_apart :: "msp430_bits \<Rightarrow> bool" where
  "bits_apart h \<longleftrightarrow> SWRST h AND (CHAR_8 h OR SYNC h) = 0 \<and> EOS h \<noteq> 0 \<and> EOS h AND SREF_1 h = 0 \<and>
     (\<forall>k\<in>{0..<8}. EOS h AND INCH h k = 0)"

lemma apart_or: "(a :: 'a::len word) AND b = 0 \<Longrightarrow> ((x OR b) AND NOT a) AND b = b"
proof (rule bit_word_eqI)
  fix n
  assume "a AND b = 0" "n < LENGTH('a)"
  then have "\<not> (bit a n \<and> bit b n)" by (metis bit_and_iff bit_0_eq bot_apply bot_bool_def)
  then show "bit (((x OR b) AND NOT a) AND b) n = bit b n"
    using \<open>n < LENGTH('a)\<close> by (auto simp: bit_simps)
qed

lemma or_apart: "(a :: 'a::len word) AND b = 0 \<Longrightarrow> a AND c = 0 \<Longrightarrow> (b OR c) AND a = 0"
  by (subst and.commute) (simp add: bit.conj_disj_distrib)

lemma spi_configured:
  assumes "bits_apart h"
  shows "U0CTL (spi_hold h r) AND SWRST h = SWRST h"
    and "U0CTL (SPI_setup h r) AND SWRST h = 0"
    and "U0CTL (SPI_setup h r) AND (CHAR_8 h OR SYNC h) = CHAR_8 h OR SYNC h"
    and "UBR0_0 (SPI_setup h r) = 2" "UBR1_0 (SPI_setup h r) = 0" "IE1 (SPI_setup h r) AND URXIE0 h = URXIE0 h"
proof -
  have o: "(x OR b) AND b = b" "((x OR b) OR c) AND b = b" for x b c :: "8 word"
    by (rule bit_word_eqI, auto simp: bit_simps)+
  have n: "(x AND NOT b) AND b = 0" for x b :: "8 word"
    by (rule bit_word_eqI) (auto simp: bit_simps)
  show "U0CTL (spi_hold h r) AND SWRST h = SWRST h" by (simp add: spi_hold_def Let_def o)
  show "U0CTL (SPI_setup h r) AND SWRST h = 0" by (simp add: SPI_setup_def Let_def n)
  show "U0CTL (SPI_setup h r) AND (CHAR_8 h OR SYNC h) = CHAR_8 h OR SYNC h"
    using apart_or [of "SWRST h" "CHAR_8 h OR SYNC h"] assms by (simp add: SPI_setup_def spi_hold_def Let_def bits_apart_def)
  show "UBR0_0 (SPI_setup h r) = 2" "UBR1_0 (SPI_setup h r) = 0" by (simp_all add: SPI_setup_def spi_hold_def Let_def)
  show "IE1 (SPI_setup h r) AND URXIE0 h = URXIE0 h" by (simp add: SPI_setup_def Let_def o)
qed

lemma channels_configured:
  assumes "bits_apart h" "k < 8"
  shows "ADC12MCTL (Converter_setup h r) ! k AND (SREF_1 h OR INCH h k) = SREF_1 h OR INCH h k"
    and "(ADC12MCTL (Converter_setup h r) ! k AND EOS h \<noteq> 0) = (k = 7)"
proof -
  have k: "k \<in> {0, 1, 2, 3, 4, 5, 6, 7}" using assms(2) by auto
  have o: "(b OR c) AND b = b" for b c :: "8 word"
    by (rule bit_word_eqI) (auto simp: bit_simps)
  have z: "(SREF_1 h OR INCH h k) AND EOS h = 0"
    by (rule or_apart) (use assms in \<open>auto simp: bits_apart_def\<close>)
  have v: "ADC12MCTL (Converter_setup h r) ! k = (if k = 7 then (SREF_1 h OR INCH h k) OR EOS h else SREF_1 h OR INCH h k)"
    using k by (auto simp: Converter_setup_def Let_def or.assoc)
  have "((SREF_1 h OR INCH h k) OR EOS h) AND EOS h = EOS h" by (rule bit_word_eqI) (auto simp: bit_simps)
  then show "(ADC12MCTL (Converter_setup h r) ! k AND EOS h \<noteq> 0) = (k = 7)"
    unfolding v using z assms(1) by (simp add: bits_apart_def)
  show "ADC12MCTL (Converter_setup h r) ! k AND (SREF_1 h OR INCH h k) = SREF_1 h OR INCH h k"
    unfolding v by (simp add: o)
qed

lemma setup_runs:
  "fw_setup h r = (13824, snd (fw_setup h r))"
  "ADC12CTL0 (fst (snd (fw_setup h r))) = (ADC12ON h OR REF2_5V h OR REFON h OR MSC h OR SHT0_0 h) OR ENC h"
  "WDTCTL (fst (snd (fw_setup h r))) = WDTPW h OR WDTHOLD h"
  by (simp_all add: fw_setup_def Let_def brief_pause_rounds Converter_setup_def SPI_setup_def spi_hold_def)

text \<open>For example, bits of one register at different places.\<close>

lemma bits_apart_example:
  "bits_apart \<lparr>SWRST = 1, CHAR_8 = 0x10, SYNC = 4, CKPH = 0x80, USPIE0 = 0x40, URXIE0 = 0x40, ADC12ON = 0x10,
     REF2_5V = 0x40, REFON = 0x20, MSC = 0x80, SHT0_0 = 0, SHP = 0x200, CONSEQ_1 = 2, ENC = 2, ADC12SC = 1,
     SREF_1 = 0x10, INCH = of_nat, EOS = 0x80, WDTPW = 0x5A00, WDTHOLD = 0x80\<rparr>"
  by (simp add: bits_apart_def atLeastLessThan_nat_numeral atLeast0_lessThan_Suc)

end
