(* ===== verification/Spec2Isabelle.thy ===== *)
theory Spec2Isabelle
  imports Fifo TimeConv Kernel Trigger Cfg Block_Dev Sa Adc Event_Dev Driver Locks Boot_Env Msp Mspload Signals Debug Tools Firmware
begin

text \<open>
  A model of the Libera driver and of the small programs beside it, and their properties.

  The repository builds the base system of the Libera beam position processors. Its C code has four
  parts. (1) \<^verbatim>\<open>drivers/libera\<close>: the kernel module that makes the FPGA available to programs. It consists of
  a core (\<^verbatim>\<open>libera_main.c\<close>: interrupts, time, loading and unloading), one file for each of its eight devices,
  and the part specific to the beam position processor (\<^verbatim>\<open>ebpp.c\<close>). Interrupt handlers drain the FIFOs of the
  FPGA into ring buffers in memory; processes open the devices, sleep until something is there, and copy it
  out. (2) \<^verbatim>\<open>drivers/msp430\<close>: the module that reads the supply voltages from a microcontroller, the
  firmware of that microcontroller, and the program that loads the firmware. (3) \<^verbatim>\<open>u-boot\<close>: tools
  that write and read the environment of the boot loader, a module that makes the flash writable and a tool that prints
  what it is. (4) Scripts and configuration.

  \<^bold>\<open>How the model is laid out.\<close>
  \<^item> \<open>Prelude\<close>: machine integers, errno values, 64-by-32 division. \<open>Hw\<close>: the FPGA, seen through \<^verbatim>\<open>readl\<close>
    and \<^verbatim>\<open>writel\<close>. What the FPGA answers is a parameter, a function of the history of all accesses, so that
    every behaviour of the hardware is covered; the history (\<open>trace\<close>) is part of the state.
  \<^item> \<open>State\<close>: the device structures of \<^verbatim>\<open>libera_kernel.h\<close>, \<^verbatim>\<open>libera_event.h\<close> and \<^verbatim>\<open>libera_sa.h\<close> as records;
    \<open>libera\<close> holds all of them, as the module's global variables do. \<open>Params\<close>: the numbers of the ioctl
    commands and parameters (\<^verbatim>\<open>libera.h\<close>, \<^verbatim>\<open>ebpp.h\<close>).
  \<^item> \<open>Bounded_Queue\<close> is the contract of a FIFO, \<open>Fifo\<close> the ring buffers that meet it.
  \<^item> \<open>Kernel\<close>: user memory, events, the blocking read of a FIFO and the current time. A process that sleeps
    gets a context \<open>ctx\<close>: what the rest of the world does to the driver's state while it sleeps (\<open>wake\<close>),
    whether a signal is pending, whether the lock is interrupted, what is left of a timeout, the time in jiffies and
    whether the DMA interrupt wakes the sleeper.
  \<^item> \<open>TimeConv\<close>: the time scales of \<^verbatim>\<open>libera_dd.h\<close>. \<open>Trigger\<close>: the interrupts of the two clocks.
  \<^item> \<open>Single_Writer\<close>, \<open>Cfg\<close>, \<open>Block_Dev\<close> (FA and DSC), \<open>Sa\<close>, \<open>Dma\<close>, \<open>Dd\<close>, \<open>Pm\<close>, \<open>Adc\<close>, \<open>Event_Dev\<close>: the devices,
    each with its file operations and interrupt handlers, under the names they have in the source.
  \<^item> \<open>Signals\<close>: from the machine clock interrupt to a reader of the event device. \<open>Resources\<close>, \<open>Driver\<close>: the
    interrupt dispatcher, opening by minor number, initialisation, loading and unloading with the
    resources of the kernel. \<open>System\<close>: every way into the driver (interrupts, tasklet, file operations) as one
    type \<open>entry\<close>, and what any sequence of them keeps. \<open>Locks\<close>: the mutexes of the driver.
  \<^item> \<open>Debug\<close>: the driver built with \<^verbatim>\<open>DEBUG\<close> above 0: the logs of irregular stamps, the limits on the loops of the
    interrupt handlers and of the waits, and the commands of the event device for debugging. The level is an argument.
  \<^item> \<open>Msp\<close>: the voltage monitor's driver and the firmware at the other end of its serial line. \<open>Firmware\<close>: what
    that firmware sets up before its main loop. \<open>Mspload\<close>: the
    loader of the firmware. \<open>Boot_Env\<close>: the boot environment tools. \<open>Tools\<close>: the flash module, the flash
    information tool and the test program of the voltage monitor.

  An operation that may fail returns what the C function returns (0 or a negative errno) with the new state.
  An operation that may not return has an \<open>option\<close> type, where \<open>None\<close> is not returning (or, where
  its text says so, going on with undefined data). A loop is a recursive function; when its end
  depends on the hardware or on other processes it is a \<open>partial_function (option)\<close>, and the properties
  prove that it returns.

  \<^bold>\<open>What is shown.\<close> The properties are numbered by importance.
  \<^item> Interrupts: the handlers of the two clocks take every entry of the FPGA's FIFOs, once and in order, and
    queue what they must (\<open>sc_handler_delivers\<close>, \<open>clock_interrupts_served\<close>); the events of the machine
    clock reach a reader as a two-variable machine signals them (\<open>mc_events_reach_reader\<close>).
  \<^item> Data: what the hardware delivers reaches the reader, all of it, in order: data on demand by DMA
    (\<open>transfer_delivers_all\<close>, \<open>dd_read_delivers\<close>, \<open>dd_reads_contiguous\<close>), post mortem (\<open>pm_keeps_event\<close>), slow
    acquisition (\<open>sa_atoms_reach_readers\<close>, \<open>sa_read_oldest\<close>), ADC, FA and DSC blocks, events.
  \<^item> Time: the current time is a matched pair of stamps, a trigger sets the clocks as asked, and the
    conversions do not overflow within their limits and are exact.
  \<^item> Ownership and locks: one writer per device, triggers owned by one file, slots of the slow acquisition table;
    every entry gives back the mutexes it takes, on every path but one (\<open>locks_given_back\<close>).
  \<^item> Structure: the ring buffers refine bounded lists; loading is all or nothing and unloading gives
    everything back; from loading on, the queues, the pipes, the DMA indices and the block buffers stay well formed
    under any sequence of entries, for any FPGA (\<open>driver_stays_wf\<close>).
  \<^item> Debugging: below level 2 the interrupt handlers are those of the production build; from level 2 on every interrupt
    returns, whatever the FPGA shows, with the production result or with exactly the entries of its limits taken
    (\<open>debug_interrupts_return\<close>). The log reports an irregular interval and the last five entries (\<open>glitch_reported\<close>); the
    command that waits for a trigger never finds one (\<open>trigger_blocked_junk\<close>).
  \<^item> Programs: reads of the voltage monitor return consecutive conversions and recover from errors;
    the loader sends what the file holds; checksums and environment blocks are right.
  A property holds for all inputs its hypotheses admit, and a witness applies it to a concrete state. Where the code does not do what
  it is meant to do, the property states what it does and says so.

  \<^bold>\<open>Contracts.\<close> \<open>bounded_queue\<close> (time stamp, event and slow acquisition FIFOs), \<open>timing_module\<close> (both clocks),
  \<open>single_writer\<close> (four devices), \<open>block_device\<close> (FA, DSC), \<open>waiting_loop\<close> (three sleeping reads), \<open>debug_module\<close> (\<open>timing_module\<close> with a log beside, both clocks) and
  \<open>msp_slave\<close> (the protocol between the voltage monitor's driver and the firmware) are locales; what
  their users need is proved inside them once, and each is interpreted on the model's own definitions.

  \<^bold>\<open>Bounds.\<close> Fuel is used for the loops over a trigger vector, in the interrupt handlers and when triggers are
  enabled (\<open>trig_loop\<close>, \<open>flush_indices\<close>): at most 10 rounds, since each clears one of 9 bits; and for the search
  for the next bit, at most 32 steps, since it shifts a 32-bit mask. That both are enough for every vector is
  proved (\<open>trig_loop_vector\<close>, \<open>next_trigger_finds\<close>, \<open>enable_flushes_sums\<close>). Other counters (\<open>OB_sync_loop\<close>, \<open>pm_lock_dd\<close>,
  \<open>adc_capture\<close>) are the loop counters of the code.

  \<^bold>\<open>Not modelled.\<close>
  \<^item> Code for other instruments (\<^verbatim>\<open>BBFP\<close>, \<^verbatim>\<open>HBPP\<close>), log messages other than those of the limits and logs of \<open>Debug\<close>, module
    parameters' declarations, and the names of device nodes. Of debugging: level 4, which logs every access to the
    bus, and the limit of ten million rounds on a transfer by DMA. What remains of the headers are constants nothing
    uses, numbers of other instruments, prototypes and macros of logging.
  \<^item> Preemption inside an operation: an operation runs to its end or to where it sleeps, and what happens meanwhile is the
    context's \<open>wake\<close>. Races between an interrupt and the code it interrupts are not covered. Each property
    allows an arbitrary \<open>wake\<close> or says what it asks of it. The relation \<open>driver_step\<close> of \<open>System\<close> has those in which the entries that
    begin while another sleeps end before that one goes on; \<open>entry_keeps\<close>, which it rests on, asks only
    that they keep the invariant.
  \<^item> Calls of the kernel (allocation, registration, copying to user memory) are parameters with their documented
    results.
  \<^item> The test module of the boot loader (\<^verbatim>\<open>hello.c\<close>, two messages), scripts, kernel configuration and patches, root file system, toolchains and documents.
\<close>

section \<open>Properties across devices\<close>

lemma bss_writer_inv: "writer_inv zero_common []"
  by (simp add: writer_inv_def zero_common_def)

text \<open>
  C13: at any time each of the configuration, FA, DSC and event devices has at most one open writer, and
  the file recorded as its master is that writer: after any sequence of opens and closes, with
  files closed as often as they were opened, the writer and reader counts are the numbers of open
  files with that access, and the device lock is free.
\<close>

theorem one_writer_per_device:
  "(case fileop_run libera_cfg_open libera_cfg_release ps (libera_bss f, []) of
      (s, fs) \<Rightarrow> writer_inv (cfg_com (cfg s)) fs) \<and>
   (case fileop_run libera_fa_open libera_fa_release ps (libera_bss f, []) of
      (s, fs) \<Rightarrow> writer_inv (blk_com (fa s)) fs) \<and>
   (case fileop_run libera_dsc_open libera_dsc_release ps (libera_bss f, []) of
      (s, fs) \<Rightarrow> writer_inv (blk_com (dsc s)) fs) \<and>
   (case fileop_run (\<lambda>fl s. (fst (libera_event_open True fl s), snd (snd (libera_event_open True fl s))))
      (libera_event_release l) ps (libera_bss f, []) of
      (s, fs) \<Rightarrow> writer_inv (ev_com (event s)) fs)"
proof -
  have i: "writer_inv (cfg_com (cfg (libera_bss f))) []" "writer_inv (blk_com (fa (libera_bss f))) []"
    "writer_inv (blk_com (dsc (libera_bss f))) []" "writer_inv (ev_com (event (libera_bss f))) []"
    using bss_writer_inv by (simp_all add: libera_bss_def zero_event_dev_def)
  show ?thesis
    using cfg_sw.run_inv [OF i(1), of ps] fa_sw.run_inv [OF i(2), of ps] dsc_sw.run_inv [OF i(3), of ps]
      event_sw.run_inv [OF i(4), of l ps]
    by (intro conjI)
qed

end
